(* ===== verification/Prelude.thy ===== *)
theory Prelude
  imports Main "HOL-Library.Word" "HOL-Library.List_Lexorder" "HOL-Library.Multiset"
begin

text \<open>
  Shared vocabulary of the development: the machine integers of the C++ sources, the exceptions
  as values, the little-endian byte views of integers that the sources obtain by casting pointers,
  and the collections of facts that the component theories extend.
\<close>

unbundle bit_operations_syntax

section \<open>Machine integers and byte arrays\<close>

type_synonym byte = "8 word"
type_synonym u32 = "32 word"
type_synonym u64 = "64 word"

text \<open>A signed 32-bit number from its unsigned value.\<close>

lemma sint_u32: "sint (w :: u32) = (if unat w < 2 ^ 31 then int (unat w) else int (unat w) - 2 ^ 32)"
proof -
  define n where "n = unat w"
  have n: "n < 4294967296" using unsigned_less [of w, where 'a = nat] by (simp add: n_def)
  have "sint w = (int n + 2147483648) mod 4294967296 - 2147483648"
    by (simp add: n_def sint_uint signed_take_bit_eq_take_bit_shift take_bit_eq_mod)
  also have "\<dots> = (if n < 2147483648 then int n else int n - 4294967296)" 
  proof (cases "n < 2147483648")
    case True
    then show ?thesis by (simp add: mod_pos_pos_trivial)
  next
    case False
    have "(int n + 2147483648) mod 4294967296 = (int n - 2147483648 + 4294967296) mod 4294967296"
      by (simp add: algebra_simps)
    also have "\<dots> = int n - 2147483648"
      unfolding mod_add_self2 using n False by (intro mod_pos_pos_trivial) simp_all
    finally show ?thesis using False by simp
  qed
  finally show ?thesis unfolding n_def [symmetric] by simp
qed

named_theorems length_facts \<open>lengths of the byte strings the model builds\<close>
named_theorems invar_intros \<open>operations keep the well-formedness of their state\<close>
named_theorems frame_simps \<open>fields an operation leaves alone\<close>

section \<open>Exceptions as values\<close>

text \<open>
  A C++ exception ends the function that raises it; the model returns it as the left of a sum.
  \<open>Undefined\<close> stands for an execution the C++ standard gives no meaning to (reading the back of
  an empty vector, an index out of range).
\<close>

datatype cpp_error = Runtime_error string | Invalid_argument | Out_of_range | Undefined string

type_synonym 'a result = "cpp_error + 'a"

definition bind_result :: "'a result \<Rightarrow> ('a \<Rightarrow> 'b result) \<Rightarrow> 'b result" where
  "bind_result r f = (case r of Inl e \<Rightarrow> Inl e | Inr x \<Rightarrow> f x)"

lemma bind_result_Inl [simp]: "bind_result (Inl e) f = Inl e"
  by (simp add: bind_result_def)

lemma bind_result_Inr [simp]: "bind_result (Inr x) f = f x"
  by (simp add: bind_result_def)

lemma bind_result_eq_Inr:
  "bind_result r f = Inr y \<longleftrightarrow> (\<exists>x. r = Inr x \<and> f x = Inr y)"
  by (cases r) auto

lemma bind_result_eq_Inl:
  "bind_result r f = Inl e \<longleftrightarrow> r = Inl e \<or> (\<exists>x. r = Inr x \<and> f x = Inl e)"
  by (cases r) auto

text \<open>A loop that appends one result per element, left to right.\<close>

fun map_result :: "('a \<Rightarrow> 'b result) \<Rightarrow> 'a list \<Rightarrow> 'b list result" where
  "map_result f [] = Inr []"
| "map_result f (x # xs) = bind_result (f x) (\<lambda>y. bind_result (map_result f xs) (\<lambda>ys. Inr (y # ys)))"

lemma map_result_Inr: "\<forall>x\<in>set xs. f x = Inr (g x) \<Longrightarrow> map_result f xs = Inr (map g xs)"
  by (induction xs) auto

lemma map_result_eq_Inr:
  "map_result f xs = Inr ys \<longleftrightarrow> list_all2 (\<lambda>x y. f x = Inr y) xs ys"
  by (induction xs arbitrary: ys) (auto simp: bind_result_eq_Inr list_all2_Cons1)

text \<open>\<open>std::string::find\<close>: the position of the first occurrence, or \<open>npos\<close>.\<close>

fun find_str :: "string \<Rightarrow> string \<Rightarrow> nat option" where
  "find_str pat s =
     (if take (length pat) s = pat then Some 0
      else case s of [] \<Rightarrow> None | _ # s' \<Rightarrow> map_option Suc (find_str pat s'))"

declare find_str.simps [simp del]

lemma find_str_Some: "find_str pat s = Some i \<Longrightarrow> take (length pat) (drop i s) = pat \<and> i \<le> length s"
proof (induction s arbitrary: i)
  case Nil
  then show ?case by (subst (asm) find_str.simps) (simp split: if_splits)
next
  case (Cons ch s)
  from Cons.prems consider "i = 0" "take (length pat) (ch # s) = pat" | j where "i = Suc j" "find_str pat s = Some j"
    by (subst (asm) find_str.simps) (auto split: if_splits)
  then show ?case by cases (use Cons.IH in auto)
qed

lemma find_str_prefix: "find_str pat (pat @ s) = Some 0"
  by (subst find_str.simps) simp

section \<open>Little-endian views\<close>

text \<open>
  \<open>le_bytes n w\<close> are the first \<open>n\<close> bytes in memory of the integer \<open>w\<close> on the little-endian
  machines the program runs on; \<open>le_value\<close> reads bytes back as a number.
\<close>

definition le_bytes :: "nat \<Rightarrow> 'a::len word \<Rightarrow> byte list" where
  "le_bytes n w = map (\<lambda>i. ucast (drop_bit (8 * i) w)) [0..<n]"

fun le_value :: "byte list \<Rightarrow> nat" where
  "le_value [] = 0"
| "le_value (b # bs) = unat b + 256 * le_value bs"

lemma length_le_bytes [simp, length_facts]: "length (le_bytes n w) = n"
  by (simp add: le_bytes_def)

lemma nth_le_bytes: "i < n \<Longrightarrow> le_bytes n w ! i = ucast (drop_bit (8 * i) w)"
  by (simp add: le_bytes_def)

lemma le_bytes_inj:
  fixes v w :: "'a::len word"
  assumes "LENGTH('a) \<le> 8 * n" and eq: "le_bytes n v = le_bytes n w"
  shows "v = w"
proof (rule bit_word_eqI)
  fix k assume k: "k < LENGTH('a)"
  let ?i = "k div 8" and ?j = "k mod 8"
  have i: "?i < n" using k assms(1) by linarith
  have "le_bytes n v ! ?i = le_bytes n w ! ?i" by (simp add: eq)
  then have "(ucast (drop_bit (8 * ?i) v) :: byte) = ucast (drop_bit (8 * ?i) w)"
    using i by (simp add: nth_le_bytes)
  then have "bit (ucast (drop_bit (8 * ?i) v) :: byte) ?j = bit (ucast (drop_bit (8 * ?i) w) :: byte) ?j"
    by simp
  then show "bit v k = bit w k" by (simp add: bit_simps)
qed

lemma le_value_eq_0: "le_value bs = 0 \<longleftrightarrow> (\<forall>b \<in> set bs. b = 0)"
  by (induction bs) (auto simp: unat_eq_zero)

lemma le_value_less: "le_value bs < 256 ^ length bs"
proof (induction bs)
  case (Cons b bs)
  have "unat b < 256" using unsigned_less [of b, where 'a = nat] by simp
  with Cons.IH show ?case by simp
qed simp

lemma le_bytes_Suc: "le_bytes (Suc n) w = ucast w # le_bytes n (drop_bit 8 w)"
  by (rule nth_equalityI) (auto simp: nth_le_bytes nth_Cons add.commute split: nat.splits)

lemma le_value_le_bytes_mod:
  fixes w :: "'a::len word"
  shows "le_value (le_bytes n w) = unat w mod 256 ^ n"
proof (induction n arbitrary: w)
  case (Suc n)
  have "unat (ucast w :: byte) = unat w mod 256"
    by (simp add: unsigned_ucast_eq take_bit_eq_mod)
  moreover have "unat (drop_bit 8 w) = unat w div 256"
    by (simp only: unat_drop_bit_eq) (simp add: drop_bit_eq_div)
  ultimately show ?case
    by (simp add: le_bytes_Suc Suc mod_mult2_eq)
qed (simp add: le_bytes_def)

lemma le_value_le_bytes:
  fixes w :: "'a::len word"
  assumes "LENGTH('a) \<le> 8 * n"
  shows "le_value (le_bytes n w) = unat w"
proof -
  have "unat w < 2 ^ LENGTH('a)" by (rule unsigned_less)
  also have "\<dots> \<le> 2 ^ (8 * n)" using assms by (intro power_increasing) auto
  finally show ?thesis by (simp add: le_value_le_bytes_mod power_mult)
qed

section \<open>Lists\<close>

lemma foldl_invariant:
  assumes "P s" and "\<And>s x. x \<in> set xs \<Longrightarrow> P s \<Longrightarrow> P (f s x)"
  shows "P (foldl f s xs)"
  using assms by (induction xs arbitrary: s) auto

lemma take_if: "(if n \<le> length xs then take n xs else xs) = take n xs"
  by simp

section \<open>Arrays\<close>

text \<open>\<open>memcpy\<close> into an array at an offset.\<close>

definition overlay :: "nat \<Rightarrow> 'a list \<Rightarrow> 'a list \<Rightarrow> 'a list" where
  "overlay off bs arr = take off arr @ bs @ drop (off + length bs) arr"

lemma sum_list_map_update:
  fixes f :: "'a \<Rightarrow> nat"
  shows "i < length xs \<Longrightarrow> sum_list (map f (xs[i := x])) + f (xs ! i) = sum_list (map f xs) + f x"
proof (induction xs arbitrary: i)
  case (Cons y ys)
  then show ?case by (cases i) auto
qed simp

lemma set_update_cases: "p \<in> set (xs[i := x]) \<Longrightarrow> p = x \<or> p \<in> set xs"
  by (metis insertE set_update_subset_insert subsetD)

lemma in_set_update: "i < length xs \<Longrightarrow> x \<in> set (xs[i := x])"
  by (simp add: set_update_memI)

lemma other_in_update: "p \<in> set xs \<Longrightarrow> p \<noteq> xs ! i \<Longrightarrow> p \<in> set (xs[i := x])"
  by (metis in_set_conv_nth length_list_update nth_list_update_neq)

end
