(* ===== verification/Containers.thy ===== *)
theory Containers
  imports Prelude
begin

text \<open>
  The two hash containers of the standard library that the program keeps its state in:
  \<open>std::unordered_set\<close> with a user-supplied equality (\<open>TransactionSet\<close> of src/tx_pool.hpp) and
  \<open>std::unordered_map\<close> (the ledger of src/blockchain.hpp). Each is an interface, stated as a
  locale, and a list implementation in which at most one element of every equality class is kept;
  the order of the list is the unspecified iteration order. The hash functions choose buckets only
  and never show in a result.
\<close>

section \<open>Unordered sets up to an equality\<close>

text \<open>
  The contract of the operations the pool calls: \<open>insert\<close> keeps an equal element that is already
  there, \<open>erase\<close> returns how many elements it removed, \<open>contains\<close> is \<open>find(x) != end()\<close>.
\<close>

locale unordered_set =
  fixes eq :: "'a \<Rightarrow> 'a \<Rightarrow> bool"
    and invar :: "'s \<Rightarrow> bool"
    and empty_set :: "'s"
    and insert_elem :: "'a \<Rightarrow> 's \<Rightarrow> 's"
    and erase_elem :: "'a \<Rightarrow> 's \<Rightarrow> nat \<times> 's"
    and contains :: "'a \<Rightarrow> 's \<Rightarrow> bool"
    and size_set :: "'s \<Rightarrow> nat"
  assumes eq_equivp: "equivp eq"
    and invar_empty: "invar empty_set"
    and invar_insert: "invar s \<Longrightarrow> invar (insert_elem x s)"
    and invar_erase: "invar s \<Longrightarrow> invar (snd (erase_elem x s))"
    and contains_empty: "\<not> contains x empty_set"
    and contains_insert: "invar s \<Longrightarrow> contains x (insert_elem y s) \<longleftrightarrow> eq x y \<or> contains x s"
    and contains_erase: "invar s \<Longrightarrow> contains x (snd (erase_elem y s)) \<longleftrightarrow> \<not> eq x y \<and> contains x s"
    and count_erase: "invar s \<Longrightarrow> fst (erase_elem x s) = (if contains x s then 1 else 0)"
    and size_empty: "size_set empty_set = 0"
    and size_insert: "invar s \<Longrightarrow> size_set (insert_elem x s) = (if contains x s then size_set s else Suc (size_set s))"
    and size_erase: "invar s \<Longrightarrow> size_set (snd (erase_elem x s)) = size_set s - (if contains x s then 1 else 0)"
    and size_0: "invar s \<Longrightarrow> size_set s = 0 \<Longrightarrow> \<not> contains x s"
begin

text \<open>The range constructor \<open>TransactionSet(begin, end)\<close> and the erasure of a range.\<close>

definition insert_range :: "'a list \<Rightarrow> 's \<Rightarrow> 's" where
  "insert_range xs s = foldl (\<lambda>s x. insert_elem x s) s xs"

definition erase_range :: "'a list \<Rightarrow> 's \<Rightarrow> 's" where
  "erase_range xs s = foldl (\<lambda>s x. snd (erase_elem x s)) s xs"

lemma invar_insert_range: "invar s \<Longrightarrow> invar (insert_range xs s)"
  unfolding insert_range_def by (rule foldl_invariant) (auto intro: invar_insert)

lemma invar_erase_range: "invar s \<Longrightarrow> invar (erase_range xs s)"
  unfolding erase_range_def by (rule foldl_invariant) (auto intro: invar_erase)

lemma contains_insert_range:
  "invar s \<Longrightarrow> contains x (insert_range xs s) \<longleftrightarrow> (\<exists>y\<in>set xs. eq x y) \<or> contains x s"
  by (induction xs arbitrary: s) (auto simp: insert_range_def contains_insert invar_insert)

lemma contains_erase_range:
  "invar s \<Longrightarrow> contains x (erase_range xs s) \<longleftrightarrow> (\<forall>y\<in>set xs. \<not> eq x y) \<and> contains x s"
  by (induction xs arbitrary: s) (auto simp: erase_range_def contains_erase invar_erase)

lemma contains_range: "contains x (insert_range xs empty_set) \<longleftrightarrow> (\<exists>y\<in>set xs. eq x y)"
  by (simp add: contains_insert_range invar_empty contains_empty)

lemma size_insert_range_le: "invar s \<Longrightarrow> size_set (insert_range xs s) \<le> size_set s + length xs"
proof (induction xs arbitrary: s)
  case (Cons x xs)
  from Cons.IH [OF invar_insert [OF Cons.prems], of x] show ?case
    by (simp add: insert_range_def size_insert [OF Cons.prems] split: if_splits)
qed (simp add: insert_range_def)

end

section \<open>The list implementation of an unordered set\<close>

text \<open>The equality is given by a key function, as \<open>operator==\<close> of \<open>Transaction\<close> is.\<close>

definition uset_invar :: "('a \<Rightarrow> 'k) \<Rightarrow> 'a list \<Rightarrow> bool" where
  "uset_invar key s \<longleftrightarrow> distinct (map key s)"

definition uset_contains :: "('a \<Rightarrow> 'k) \<Rightarrow> 'a \<Rightarrow> 'a list \<Rightarrow> bool" where
  "uset_contains key x s \<longleftrightarrow> key x \<in> set (map key s)"

definition uset_insert :: "('a \<Rightarrow> 'k) \<Rightarrow> 'a \<Rightarrow> 'a list \<Rightarrow> 'a list" where
  "uset_insert key x s = (if uset_contains key x s then s else x # s)"

definition uset_erase :: "('a \<Rightarrow> 'k) \<Rightarrow> 'a \<Rightarrow> 'a list \<Rightarrow> nat \<times> 'a list" where
  "uset_erase key x s =
     (length (filter (\<lambda>y. key y = key x) s), filter (\<lambda>y. key y \<noteq> key x) s)"

lemmas uset_defs = uset_invar_def uset_contains_def uset_insert_def uset_erase_def

lemma length_filter_distinct_key:
  "distinct (map key s) \<Longrightarrow> length (filter (\<lambda>y. key y = k) s) = (if k \<in> key ` set s then 1 else 0)"
  by (induction s) (auto simp: filter_empty_conv)

lemma length_filter_other_key:
  "distinct (map key s) \<Longrightarrow>
     length (filter (\<lambda>y. key y \<noteq> k) s) = length s - (if k \<in> key ` set s then 1 else 0)"
  using length_filter_distinct_key [of key s k] sum_length_filter_compl [of "\<lambda>y. key y = k" s]
  by (simp split: if_splits)

lemma uset_unordered_set:
  "unordered_set (\<lambda>x y. key x = key y) (uset_invar key) []
     (uset_insert key) (uset_erase key) (uset_contains key) length"
proof unfold_locales
  show "equivp (\<lambda>x y. key x = key y)" by (auto intro: equivpI simp: reflp_def symp_def transp_def)
  show "uset_invar key s \<Longrightarrow> uset_invar key (snd (uset_erase key x s))" for s x
    by (simp add: uset_defs distinct_map inj_on_def)
  show "uset_invar key s \<Longrightarrow>
      fst (uset_erase key x s) = (if uset_contains key x s then 1 else 0)" for s x
    by (simp add: uset_defs length_filter_distinct_key)
  show "uset_invar key s \<Longrightarrow> length (snd (uset_erase key x s)) =
      length s - (if uset_contains key x s then 1 else 0)" for s x
    by (simp add: uset_defs length_filter_other_key)
qed (auto simp: uset_defs)

section \<open>Unordered maps\<close>

text \<open>
  \<open>find_at\<close> is \<open>find\<close>, \<open>emplace\<close> adds an entry unless the key is there, \<open>assign\<close> is
  \<open>m[k] = v\<close>, \<open>entries\<close> is the order in which a range-based \<open>for\<close> visits the entries.
\<close>

locale unordered_map =
  fixes invar :: "'m \<Rightarrow> bool"
    and empty_map :: "'m"
    and find_at :: "'m \<Rightarrow> 'k \<Rightarrow> 'v option"
    and emplace :: "'k \<Rightarrow> 'v \<Rightarrow> 'm \<Rightarrow> 'm"
    and assign :: "'k \<Rightarrow> 'v \<Rightarrow> 'm \<Rightarrow> 'm"
    and entries :: "'m \<Rightarrow> ('k \<times> 'v) list"
  assumes invar_empty: "invar empty_map"
    and invar_emplace: "invar m \<Longrightarrow> invar (emplace k v m)"
    and invar_assign: "invar m \<Longrightarrow> invar (assign k v m)"
    and find_empty: "find_at empty_map k = None"
    and find_emplace: "invar m \<Longrightarrow>
          find_at (emplace k v m) = (if find_at m k = None then (find_at m)(k \<mapsto> v) else find_at m)"
    and find_assign: "invar m \<Longrightarrow> find_at (assign k v m) = (find_at m)(k \<mapsto> v)"
    and entries_distinct: "invar m \<Longrightarrow> distinct (map fst (entries m))"
    and entries_find: "invar m \<Longrightarrow> find_at m = map_of (entries m)"
begin

text \<open>The sum over all entries, in whatever order they are visited.\<close>

definition total :: "('v \<Rightarrow> 'c::comm_monoid_add) \<Rightarrow> 'm \<Rightarrow> 'c" where
  "total f m = sum_list (map (f \<circ> snd) (entries m))"

lemma dom_find: "invar m \<Longrightarrow> dom (find_at m) = fst ` set (entries m)"
  by (simp add: entries_find dom_map_of_conv_image_fst)

lemma finite_dom: "invar m \<Longrightarrow> finite (dom (find_at m))"
  by (simp add: dom_find)

lemma total_eq_sum: "invar m \<Longrightarrow> total f m = (\<Sum>k\<in>dom (find_at m). f (the (find_at m k)))"
proof -
  assume inv: "invar m"
  let ?es = "entries m"
  have d: "distinct (map fst ?es)" using inv by (rule entries_distinct)
  have "total f m = (\<Sum>e\<leftarrow>?es. f (the (map_of ?es (fst e))))"
    unfolding total_def
    by (rule arg_cong [where f = sum_list], rule map_cong)
      (use d in \<open>auto simp: map_of_is_SomeI\<close>)
  also have "\<dots> = (\<Sum>k\<leftarrow>map fst ?es. f (the (map_of ?es k)))"
    by (simp add: comp_def)
  also have "\<dots> = (\<Sum>k\<in>set (map fst ?es). f (the (map_of ?es k)))"
    using d by (rule sum_list_distinct_conv_sum_set)
  finally show ?thesis using inv by (simp add: entries_find dom_map_of_conv_image_fst)
qed

lemma total_cong: "invar m \<Longrightarrow> invar m' \<Longrightarrow> find_at m = find_at m' \<Longrightarrow> total f m = total f m'"
  by (simp add: total_eq_sum)

lemma total_empty: "total f empty_map = 0"
  by (simp add: total_eq_sum invar_empty find_empty dom_def)

lemma total_upd:
  fixes f :: "'v \<Rightarrow> 'c::ab_group_add"
  assumes "invar m" "invar m'" "find_at m' = (find_at m)(k \<mapsto> v)"
  shows "total f m' = total f m - (case find_at m k of None \<Rightarrow> 0 | Some u \<Rightarrow> f u) + f v"
proof -
  let ?D = "dom (find_at m)"
  have fin: "finite ?D" using assms(1) by (rule finite_dom)
  have dom': "dom (find_at m') = insert k (?D - {k})" using assms(3) by auto
  have "total f m' = f v + (\<Sum>j\<in>?D - {k}. f (the (find_at m' j)))"
    unfolding total_eq_sum [OF assms(2)] dom'
    by (subst sum.insert) (use fin in \<open>auto simp: assms(3)\<close>)
  also have "(\<Sum>j\<in>?D - {k}. f (the (find_at m' j))) = (\<Sum>j\<in>?D - {k}. f (the (find_at m j)))"
    by (rule sum.cong) (auto simp: assms(3))
  also have "\<dots> = total f m - (case find_at m k of None \<Rightarrow> 0 | Some u \<Rightarrow> f u)"
    using fin by (cases "find_at m k") (auto simp: total_eq_sum [OF assms(1)] sum_diff1 dom_def)
  finally show ?thesis by (simp add: algebra_simps)
qed

lemma size_entries: "invar m \<Longrightarrow> length (entries m) = card (dom (find_at m))"
  using distinct_card [OF entries_distinct] by (simp add: dom_find)

end

section \<open>The list implementation of an unordered map\<close>

definition umap_invar :: "('k \<times> 'v) list \<Rightarrow> bool" where
  "umap_invar m \<longleftrightarrow> distinct (map fst m)"

definition umap_emplace :: "'k \<Rightarrow> 'v \<Rightarrow> ('k \<times> 'v) list \<Rightarrow> ('k \<times> 'v) list" where
  "umap_emplace k v m = (case map_of m k of None \<Rightarrow> (k, v) # m | Some _ \<Rightarrow> m)"

fun umap_assign :: "'k \<Rightarrow> 'v \<Rightarrow> ('k \<times> 'v) list \<Rightarrow> ('k \<times> 'v) list" where
  "umap_assign k v [] = [(k, v)]"
| "umap_assign k v ((j, u) # m) = (if j = k then (k, v) # m else (j, u) # umap_assign k v m)"

lemma map_of_umap_assign: "map_of (umap_assign k v m) = (map_of m)(k \<mapsto> v)"
  by (induction k v m rule: umap_assign.induct) auto

lemma fst_set_umap_assign: "fst ` set (umap_assign k v m) = insert k (fst ` set m)"
  by (induction k v m rule: umap_assign.induct) auto

lemma distinct_umap_assign: "distinct (map fst m) \<Longrightarrow> distinct (map fst (umap_assign k v m))"
  by (induction k v m rule: umap_assign.induct) (auto simp: fst_set_umap_assign)

interpretation umap: unordered_map umap_invar "[]" map_of umap_emplace umap_assign "\<lambda>m. m"
proof unfold_locales
  show "umap_invar m \<Longrightarrow> umap_invar (umap_emplace k v m)" for m :: "('k \<times> 'v) list" and k v
    by (auto simp: umap_invar_def umap_emplace_def map_of_eq_None_iff split: option.splits)
  show "umap_invar m \<Longrightarrow> umap_invar (umap_assign k v m)" for m :: "('k \<times> 'v) list" and k v
    by (simp add: umap_invar_def distinct_umap_assign)
qed (auto simp: umap_invar_def umap_emplace_def map_of_umap_assign split: option.splits)

end
