(* ===== verification/Chain_Types.thy ===== *)
theory Chain_Types
  imports Prelude
begin

text \<open>
  The data model: the constants and byte arrays of src/defs.hpp, the structures of
  src/transaction.hpp, src/wallet.hpp, src/consensus.hpp, src/block.hpp and src/messages.hpp, and
  \<open>is_null_hash\<close> of src/utils.cpp. A \<open>std::array<uint8_t, n>\<close> is a list of bytes; that it has
  \<open>n\<close> of them is a well-formedness predicate, used where a length matters.
\<close>

section \<open>Constants and byte arrays (defs.hpp)\<close>

definition BLOCK_SIZE :: nat where "BLOCK_SIZE = 8191"
definition BLOCK_TIME :: nat where "BLOCK_TIME = 6"
definition MIN_DIFFICULTY :: u32 where "MIN_DIFFICULTY = 20"
definition MINER_REWARD :: u32 where "MINER_REWARD = 50"

type_synonym Blake3Hash = "byte list"
type_synonym Ed25519Key = "byte list"
type_synonym Ed25519Signature = "byte list"
type_synonym UUID = "byte list"

definition zeros :: "nat \<Rightarrow> byte list" where
  "zeros n = replicate n 0"

abbreviation zero_key :: Ed25519Key where "zero_key \<equiv> zeros 32"
abbreviation zero_hash :: Blake3Hash where "zero_hash \<equiv> zeros 32"

lemma length_zeros [simp, length_facts]: "length (zeros n) = n"
  by (simp add: zeros_def)

lemma all_zero_iff_zeros: "(\<forall>b\<in>set bs. b = 0) \<longleftrightarrow> bs = zeros (length bs)"
  by (induction bs) (auto simp: zeros_def)

section \<open>Transactions and wallets\<close>

datatype Status = CONFIRMED | UNCONFIRMED | SUBMITTED | UNKNOWN

record Transaction =
  src :: Ed25519Key
  dest :: Ed25519Key
  signature :: Ed25519Signature
  tx_id :: u64
  amount :: u32
  tx_timestamp :: u64

definition tx_wf :: "Transaction \<Rightarrow> bool" where
  "tx_wf t \<longleftrightarrow> length (src t) = 32 \<and> length (dest t) = 32 \<and> length (signature t) = 64"

text \<open>\<open>operator==\<close>: two transactions are the same when source and id agree.\<close>

definition tx_key :: "Transaction \<Rightarrow> Ed25519Key \<times> u64" where
  "tx_key t = (src t, tx_id t)"

definition tx_eq :: "Transaction \<Rightarrow> Transaction \<Rightarrow> bool" where
  "tx_eq lhs rhs \<longleftrightarrow> src lhs = src rhs \<and> tx_id lhs = tx_id rhs"

lemma tx_eq_key: "tx_eq lhs rhs \<longleftrightarrow> tx_key lhs = tx_key rhs"
  by (simp add: tx_eq_def tx_key_def)

lemma tx_eq_equivp: "equivp tx_eq"
  by (auto intro!: equivpI simp: reflp_def symp_def transp_def tx_eq_def)

record Wallet =
  priv_key :: Ed25519Key
  pub_key :: Ed25519Key

section \<open>Blocks\<close>

record HashInput =
  fingerprint :: UUID
  public_key :: Ed25519Key
  nonce :: u64

record BlockHeader =
  input :: HashInput
  hash :: Blake3Hash
  prev_hash :: Blake3Hash
  difficulty :: u32
  timestamp :: u64
  hdr_id :: u32

record Block =
  header :: BlockHeader
  transactions :: "Transaction list"

text \<open>The value-initialised \<open>HashInput\<close>, written \<open>{}\<close> in the sources.\<close>

definition zero_HashInput :: HashInput where
  "zero_HashInput = \<lparr>fingerprint = zeros 16, public_key = zero_key, nonce = 0\<rparr>"

section \<open>Null hashes (utils.cpp)\<close>

text \<open>\<open>is_null_hash\<close> reads the 32 bytes as four 64-bit integers.\<close>

definition word64_at :: "byte list \<Rightarrow> nat \<Rightarrow> u64" where
  "word64_at bs i = of_nat (le_value (take 8 (drop (8 * i) bs)))"

definition is_null_hash :: "Blake3Hash \<Rightarrow> bool" where
  "is_null_hash h \<longleftrightarrow>
     word64_at h 0 = 0 \<and> word64_at h 1 = 0 \<and> word64_at h 2 = 0 \<and> word64_at h 3 = 0"

lemma word64_at_eq_0: "word64_at bs i = 0 \<longleftrightarrow> (\<forall>b\<in>set (take 8 (drop (8 * i) bs)). b = 0)"
proof -
  let ?c = "take 8 (drop (8 * i) bs)"
  have "le_value ?c < 256 ^ length ?c" by (rule le_value_less)
  also have "\<dots> \<le> 256 ^ 8" by (rule power_increasing) auto
  finally have "le_value ?c < 2 ^ 64" by simp
  then have "(of_nat (le_value ?c) :: u64) = 0 \<longleftrightarrow> le_value ?c = 0"
    by (auto simp: word_of_nat_eq_0_iff dest: nat_dvd_not_less [rotated])
  then show ?thesis by (simp add: word64_at_def le_value_eq_0)
qed

lemma is_null_hash_iff_zeros:
  assumes "length h = 32"
  shows "is_null_hash h \<longleftrightarrow> h = zero_hash"
proof -
  have split: "set xs = set (take 8 xs) \<union> set (drop 8 xs)" for xs :: "byte list"
    by (metis append_take_drop_id set_append)
  have "take 8 (drop 24 h) = drop 24 h" using assms by simp
  then have "set h = set (take 8 h) \<union> set (take 8 (drop 8 h)) \<union>
      set (take 8 (drop 16 h)) \<union> set (take 8 (drop 24 h))"
    using split [of h] split [of "drop 8 h"] split [of "drop 16 h"] by (simp add: Un_assoc)
  then show ?thesis
    using all_zero_iff_zeros [of h] assms by (simp add: is_null_hash_def word64_at_eq_0) blast
qed

section \<open>Message kinds (messages.hpp)\<close>

datatype MessageType =
    POST_TX | POP_TX | QUERY_TX_STATUS | STATUS_GOOD | STATUS_BAD | QUERY_BAL | SUBMIT_BLOCK
  | QUERY_DIFFICULTY | QUERY_LAST_BLOCK | CONFIRM_BLOCK | QUERY_TX_COUNT | QUERY_NUM_ADDRS
  | QUERY_COINS | REGISTER_VALIDATOR | QUERY_NUM_VALIDATORS

text \<open>The enumerators in declaration order, so an enumerator's integer value is its position.\<close>

definition message_types :: "MessageType list" where
  "message_types =
     [POST_TX, POP_TX, QUERY_TX_STATUS, STATUS_GOOD, STATUS_BAD, QUERY_BAL, SUBMIT_BLOCK,
      QUERY_DIFFICULTY, QUERY_LAST_BLOCK, CONFIRM_BLOCK, QUERY_TX_COUNT, QUERY_NUM_ADDRS,
      QUERY_COINS, REGISTER_VALIDATOR, QUERY_NUM_VALIDATORS]"

fun message_code :: "MessageType \<Rightarrow> nat" where
  "message_code POST_TX = 0"
| "message_code POP_TX = 1"
| "message_code QUERY_TX_STATUS = 2"
| "message_code STATUS_GOOD = 3"
| "message_code STATUS_BAD = 4"
| "message_code QUERY_BAL = 5"
| "message_code SUBMIT_BLOCK = 6"
| "message_code QUERY_DIFFICULTY = 7"
| "message_code QUERY_LAST_BLOCK = 8"
| "message_code CONFIRM_BLOCK = 9"
| "message_code QUERY_TX_COUNT = 10"
| "message_code QUERY_NUM_ADDRS = 11"
| "message_code QUERY_COINS = 12"
| "message_code REGISTER_VALIDATOR = 13"
| "message_code QUERY_NUM_VALIDATORS = 14"

lemma message_types_code: "message_types ! message_code m = m"
  by (cases m) (simp_all add: message_types_def numeral_eq_Suc)

lemma message_code_inj: "message_code m = message_code n \<longleftrightarrow> m = n"
  by (metis message_types_code)

instantiation MessageType :: linorder
begin

definition less_eq_MessageType :: "MessageType \<Rightarrow> MessageType \<Rightarrow> bool" where
  "m \<le> n \<longleftrightarrow> message_code m \<le> message_code n"

definition less_MessageType :: "MessageType \<Rightarrow> MessageType \<Rightarrow> bool" where
  "m < n \<longleftrightarrow> message_code m < message_code n"

instance
  by standard (auto simp: less_eq_MessageType_def less_MessageType_def message_code_inj)

end

end
