(* ===== verification/Keys.thy ===== *)
theory Keys
  imports Chain_Types
begin

text \<open>
  Signatures and hash functors of src/keys.hpp, src/keys.cpp, src/tx_pool.hpp and
  src/transaction.cpp. OpenSSL is a third-party library: the calls the code makes are the fields of
  a record, which says what the call leaves in the caller's buffer or returns.
\<close>

section \<open>Ed25519 through OpenSSL (keys.cpp)\<close>

text \<open>
  \<open>evp_digest_sign priv m\<close> are the 64 bytes in the signature buffer after the call,
  \<open>evp_digest_verify pub sig m\<close> is the \<open>int\<close> that \<open>EVP_DigestVerify\<close> returns.
\<close>

record openssl =
  evp_digest_sign :: "Ed25519Key \<Rightarrow> byte list \<Rightarrow> Ed25519Signature"
  evp_digest_verify :: "Ed25519Key \<Rightarrow> Ed25519Signature \<Rightarrow> byte list \<Rightarrow> int"

text \<open>
  \<open>pkey\<close> is the key that \<open>EVP_PKEY_keygen\<close> makes, as its raw public and private bytes, or none. Without one
  the buffers of the caller keep what they hold.
\<close>

definition gen_keys_ed25519 :: "(Ed25519Key \<times> Ed25519Key) option \<Rightarrow> Ed25519Key \<times> Ed25519Key \<Rightarrow> Ed25519Key \<times> Ed25519Key" where
  "gen_keys_ed25519 pkey buffers = (case pkey of None \<Rightarrow> buffers | Some raw \<Rightarrow> raw)"

definition sign_data_ed25519 :: "openssl \<Rightarrow> Ed25519Key \<Rightarrow> byte list \<Rightarrow> Ed25519Signature" where
  "sign_data_ed25519 ossl priv data = evp_digest_sign ossl priv data"

text \<open>The \<open>int\<close> is stored in a \<open>bool\<close>: every value other than 0 is \<open>true\<close>.\<close>

definition verify_signature_ed25519 ::
  "openssl \<Rightarrow> Ed25519Key \<Rightarrow> Ed25519Signature \<Rightarrow> byte list \<Rightarrow> bool" where
  "verify_signature_ed25519 ossl pub sig data \<longleftrightarrow> evp_digest_verify ossl pub sig data \<noteq> 0"

section \<open>Hash functors (keys.hpp, tx_pool.hpp)\<close>

text \<open>\<open>hasher\<close> is \<open>std::hash<uint64_t>\<close>; only the first four bytes of the key are hashed.\<close>

definition Ed25519KeyHash :: "(u64 \<Rightarrow> u64) \<Rightarrow> Ed25519Key \<Rightarrow> u64" where
  "Ed25519KeyHash hasher v =
     (let h1 = hasher (ucast (v ! 0)); h2 = hasher (ucast (v ! 1));
          h3 = hasher (ucast (v ! 2)); h4 = hasher (ucast (v ! 3))
      in xor (xor (xor h1 h2) h3) h4)"

definition TxHash :: "(u64 \<Rightarrow> u64) \<Rightarrow> Transaction \<Rightarrow> u64" where
  "TxHash hasher t = xor (Ed25519KeyHash hasher (src t)) (hasher (tx_id t))"

lemma TxHash_respects_tx_eq: "tx_eq s t \<Longrightarrow> TxHash hasher s = TxHash hasher t"
  by (simp add: TxHash_def tx_eq_def)

section \<open>The bytes a signature covers (transaction.cpp)\<close>

text \<open>
  \<open>(uint8_t*) &tx, sizeof(Transaction)\<close>: the structure as it lies in memory. On the x86-64 ABI
  the fields are at offsets 0, 32, 64, 128, 136 and 144 and there are four padding bytes at offset
  140, whose content no assignment to a field determines; they are the argument \<open>pad\<close>.
\<close>

definition tx_bytes :: "byte list \<Rightarrow> Transaction \<Rightarrow> byte list" where
  "tx_bytes pad t =
     src t @ dest t @ signature t @ le_bytes 8 (tx_id t) @ le_bytes 4 (amount t) @ pad
       @ le_bytes 8 (tx_timestamp t)"

definition sizeof_Transaction :: nat where
  "sizeof_Transaction = 152"

lemma length_tx_bytes [length_facts]:
  "tx_wf t \<Longrightarrow> length pad = 4 \<Longrightarrow> length (tx_bytes pad t) = sizeof_Transaction"
  by (simp add: tx_bytes_def tx_wf_def sizeof_Transaction_def)

lemma tx_bytes_inj_iff:
  assumes "tx_wf t" "tx_wf t'" "length pad = 4" "length pad' = 4"
  shows "tx_bytes pad t = tx_bytes pad' t' \<longleftrightarrow> pad = pad' \<and> t = t'"
proof
  assume eq: "tx_bytes pad t = tx_bytes pad' t'"
  have "src t = src t' \<and> dest t = dest t' \<and> signature t = signature t' \<and>
      le_bytes 8 (tx_id t) = le_bytes 8 (tx_id t') \<and> le_bytes 4 (amount t) = le_bytes 4 (amount t') \<and>
      pad = pad' \<and> le_bytes 8 (tx_timestamp t) = le_bytes 8 (tx_timestamp t')"
    using eq assms by (simp add: tx_bytes_def tx_wf_def)
  then show "pad = pad' \<and> t = t'"
    using le_bytes_inj [of 8 "tx_id t" "tx_id t'"] le_bytes_inj [of 4 "amount t" "amount t'"]
      le_bytes_inj [of 8 "tx_timestamp t" "tx_timestamp t'"]
    by (simp add: Transaction.equality)
qed simp

section \<open>Signing and verifying a transaction (transaction.cpp)\<close>

definition sign_transaction :: "openssl \<Rightarrow> byte list \<Rightarrow> Ed25519Key \<Rightarrow> Transaction \<Rightarrow> Transaction" where
  "sign_transaction ossl pad priv tx =
     (let tx = tx\<lparr>signature := zeros 64\<rparr>
      in tx\<lparr>signature := sign_data_ed25519 ossl priv (tx_bytes pad tx)\<rparr>)"

text \<open>\<open>pad\<close> are the padding bytes of the by-value parameter.\<close>

definition verify_transaction_signature :: "openssl \<Rightarrow> byte list \<Rightarrow> Transaction \<Rightarrow> bool" where
  "verify_transaction_signature ossl pad tx =
     (let sig = signature tx;
          tx = tx\<lparr>signature := zeros 64\<rparr>;
          status = (if verify_signature_ed25519 ossl (src tx) sig (tx_bytes pad tx) then 1 else 0 :: int)
      in status \<noteq> 0)"

text \<open>\<open>now\<close> is the value \<open>get_timestamp()\<close> returns.\<close>

definition create_transaction ::
  "openssl \<Rightarrow> byte list \<Rightarrow> u64 \<Rightarrow> Wallet \<Rightarrow> Ed25519Key \<Rightarrow> u32 \<Rightarrow> u64 \<Rightarrow> Transaction" where
  "create_transaction ossl pad now wallet dst amt ident =
     sign_transaction ossl pad (priv_key wallet)
       \<lparr>src = pub_key wallet, dest = dst, signature = [], tx_id = ident, amount = amt,
        tx_timestamp = now\<rparr>"

definition create_reward_transaction :: "u64 \<Rightarrow> Wallet \<Rightarrow> Transaction" where
  "create_reward_transaction now wallet =
     \<lparr>src = zero_key, dest = pub_key wallet, signature = zeros 64, tx_id = 0,
      amount = MINER_REWARD, tx_timestamp = now\<rparr>"

lemma verify_iff:
  "verify_transaction_signature ossl pad tx \<longleftrightarrow>
     evp_digest_verify ossl (src tx) (signature tx) (tx_bytes pad (tx\<lparr>signature := zeros 64\<rparr>)) \<noteq> 0"
  by (simp add: verify_transaction_signature_def verify_signature_ed25519_def Let_def)

lemma create_transaction_sel [simp]:
  "src (create_transaction ossl pad now w d a i) = pub_key w"
  "dest (create_transaction ossl pad now w d a i) = d"
  "amount (create_transaction ossl pad now w d a i) = a"
  "tx_id (create_transaction ossl pad now w d a i) = i"
  "tx_timestamp (create_transaction ossl pad now w d a i) = now"
  by (simp_all add: create_transaction_def sign_transaction_def Let_def)

text \<open>The bytes that signer and verifier pass to OpenSSL for the same transaction.\<close>

definition signed_bytes :: "byte list \<Rightarrow> Transaction \<Rightarrow> byte list" where
  "signed_bytes pad tx = tx_bytes pad (tx\<lparr>signature := zeros 64\<rparr>)"

lemma signature_create_transaction:
  "signature (create_transaction ossl pad now w d a i) =
     evp_digest_sign ossl (priv_key w) (signed_bytes pad (create_transaction ossl pad now w d a i))"
  by (simp add: create_transaction_def sign_transaction_def sign_data_ed25519_def signed_bytes_def
      Let_def)

lemma reward_key: "tx_key (create_reward_transaction now w) = (zero_key, 0)"
  by (simp add: tx_key_def create_reward_transaction_def)

end
