(* ===== verification/Messages.thy ===== *)
theory Messages
  imports Chain_Types
begin

text \<open>
  The two-part messages of src/messages.hpp and src/messages.cpp. The alpaca serializer is a
  third-party package: its calls are the fields of a record \<open>alpaca\<close> that every operation that
  reads or writes a payload takes as an argument. A decoder is total because the code ignores the
  error code alpaca reports and goes on with whatever object it returned.
\<close>

section \<open>Payloads and the serializer\<close>

text \<open>The payload types the program instantiates the message templates with.\<close>

datatype payload =
    P_null
  | P_tx Transaction
  | P_txs "Transaction list"
  | P_txkey "Ed25519Key \<times> u64"
  | P_status Status
  | P_block Block
  | P_header BlockHeader
  | P_key Ed25519Key
  | P_uint32 u32
  | P_int u32 \<comment> \<open>a C++ \<open>int\<close>, by its bits\<close>

record MessageHeader =
  msg_type :: MessageType
  msg_size :: u64

record Message =
  msg_header :: MessageHeader
  msg_data :: "byte list"

record alpaca =
  ser_header :: "MessageHeader \<Rightarrow> byte list"
  ser_payload :: "payload \<Rightarrow> byte list"
  de_header :: "byte list \<Rightarrow> MessageHeader"
  de_tx :: "byte list \<Rightarrow> Transaction"
  de_txs :: "byte list \<Rightarrow> Transaction list"
  de_txkey :: "byte list \<Rightarrow> Ed25519Key \<times> u64"
  de_status :: "byte list \<Rightarrow> Status"
  de_block :: "byte list \<Rightarrow> Block"
  de_block_header :: "byte list \<Rightarrow> BlockHeader"
  de_key :: "byte list \<Rightarrow> Ed25519Key"
  de_uint32 :: "byte list \<Rightarrow> u32"

section \<open>Sending and receiving\<close>

definition send_message :: "alpaca \<Rightarrow> payload \<Rightarrow> MessageType \<Rightarrow> byte list list" where
  "send_message A p ty =
     (let payload_bytes = ser_payload A p;
          hdr = \<lparr>msg_type = ty, msg_size = of_nat (length payload_bytes)\<rparr>;
          header_bytes = ser_header A hdr
      in [header_bytes, payload_bytes])"

text \<open>\<open>recv_message\<close> of messages.cpp: the header decoded, the payload left as bytes.\<close>

definition recv_message :: "alpaca \<Rightarrow> byte list list \<Rightarrow> Message result" where
  "recv_message A recv_msgs =
     (if length recv_msgs \<noteq> 2 then Inl (Runtime_error ''Received malformed message.'')
      else Inr \<lparr>msg_header = de_header A (recv_msgs ! 0), msg_data = recv_msgs ! 1\<rparr>)"

text \<open>
  The template \<open>recv_message<PayloadType>\<close> of messages.hpp: the same, with the payload decoded by
  the decoder of its type.
\<close>

definition recv_payload :: "alpaca \<Rightarrow> (byte list \<Rightarrow> 'p) \<Rightarrow> byte list list \<Rightarrow> (MessageHeader \<times> 'p) result" where
  "recv_payload A de recv_msgs =
     (if length recv_msgs \<noteq> 2 then Inl (Runtime_error ''Received malformed message.'')
      else Inr (de_header A (recv_msgs ! 0), de (recv_msgs ! 1)))"

lemma recv_payload_message:
  "recv_payload A de parts =
     bind_result (recv_message A parts) (\<lambda>m. Inr (msg_header m, de (msg_data m)))"
  by (simp add: recv_payload_def recv_message_def)

lemma recv_send_message:
  assumes "\<And>h. de_header A (ser_header A h) = h"
  shows "recv_message A (send_message A p ty) =
     Inr \<lparr>msg_header = \<lparr>msg_type = ty, msg_size = of_nat (length (ser_payload A p))\<rparr>,
          msg_data = ser_payload A p\<rparr>"
  by (simp add: recv_message_def send_message_def Let_def assms)

section \<open>Requests and replies of a handler\<close>

text \<open>
  A server worker receives a request, runs the handler of its component and the handler sends one
  reply on the same socket. A handler is modelled as a function from the component's state and the
  request to the state it leaves and the reply, or to the exception that leaves it.
\<close>

type_synonym reply = "payload \<times> MessageType"
type_synonym 's handled = "('s \<times> reply) result"

definition request :: "MessageType \<Rightarrow> byte list \<Rightarrow> Message" where
  "request ty bytes =
     \<lparr>msg_header = \<lparr>msg_type = ty, msg_size = of_nat (length bytes)\<rparr>, msg_data = bytes\<rparr>"

lemma request_sel [simp]:
  "msg_type (msg_header (request ty bytes)) = ty" "msg_data (request ty bytes) = bytes"
  by (simp_all add: request_def)

end
