(* ===== verification/Server.thy ===== *)
theory Server
  imports Messages
begin

text \<open>
  The worker of src/server.cpp. \<open>Server::start\<close> gives every thread of the pool one
  \<open>server_loop\<close>; each of them receives a request from the dealer, runs the component's handler and
  goes on. The interface between the server and a component is the handler, with the promise that
  it keeps the component's invariant; it is stated as a locale that the transaction pool, the
  blockchain and the metronome interpret.
\<close>

section \<open>The worker loop\<close>

text \<open>
  How a run of the loop ends: all given messages are handled and the worker waits in
  \<open>recv_message\<close>, the interrupt flag was seen, or an exception left the loop. The last one ends the
  process, since nothing in the thread function catches it.
\<close>

datatype worker_end = Waiting | Stopped | Terminated cpp_error

text \<open>
  An input is what one iteration observes: the interrupt flag as the loop condition reads it, and
  the parts of the message that \<open>recv_multipart\<close> then returns.
\<close>

fun server_loop ::
  "alpaca \<Rightarrow> ('s \<Rightarrow> Message \<Rightarrow> 's handled) \<Rightarrow> 's \<Rightarrow> (bool \<times> byte list list) list
     \<Rightarrow> 's \<times> reply list \<times> worker_end" where
  "server_loop A h s [] = (s, [], Waiting)"
| "server_loop A h s ((interrupt, parts) # inputs) =
     (if interrupt then (s, [], Stopped)
      else case recv_message A parts of
             Inl e \<Rightarrow> (s, [], Terminated e)
           | Inr req \<Rightarrow>
               (case h s req of
                  Inl e \<Rightarrow> (s, [], Terminated e)
                | Inr (s', r) \<Rightarrow>
                    (case server_loop A h s' inputs of (t, rs, w) \<Rightarrow> (t, r # rs, w))))"

text \<open>The handler run over a list of requests, none of which raises.\<close>

fun serve :: "('s \<Rightarrow> Message \<Rightarrow> 's handled) \<Rightarrow> 's \<Rightarrow> Message list \<Rightarrow> ('s \<times> reply list) result" where
  "serve h s [] = Inr (s, [])"
| "serve h s (m # ms) =
     bind_result (h s m) (\<lambda>(s', r). bind_result (serve h s' ms) (\<lambda>(t, rs). Inr (t, r # rs)))"

lemma serve_append:
  "serve h s (ms @ ns) =
     bind_result (serve h s ms) (\<lambda>(s', rs). bind_result (serve h s' ns) (\<lambda>(t, rs'). Inr (t, rs @ rs')))"
  by (induction ms arbitrary: s) (auto simp: bind_result_def split: sum.splits prod.splits)

lemma length_serve: "serve h s ms = Inr (t, rs) \<Longrightarrow> length rs = length ms"
  by (induction ms arbitrary: s t rs) (fastforce simp: bind_result_eq_Inr)+

section \<open>Components that answer requests\<close>

locale message_server =
  fixes handler :: "'s \<Rightarrow> Message \<Rightarrow> 's handled"
    and invar :: "'s \<Rightarrow> bool"
  assumes handler_invar: "invar s \<Longrightarrow> handler s req = Inr (s', r) \<Longrightarrow> invar s'"
begin

lemma serve_invar: "invar s \<Longrightarrow> serve handler s ms = Inr (t, rs) \<Longrightarrow> invar t"
proof (induction ms arbitrary: s t rs)
  case (Cons m ms)
  then show ?case by (fastforce simp: bind_result_eq_Inr dest: handler_invar)
qed simp

lemma loop_invar: "invar s \<Longrightarrow> server_loop A handler s inputs = (t, rs, w) \<Longrightarrow> invar t"
proof (induction inputs arbitrary: s t rs w)
  case (Cons i inputs)
  obtain intr parts where i: "i = (intr, parts)" by (cases i)
  from Cons.prems(2) consider "t = s"
    | req s' r rs' where "handler s req = Inr (s', r)" "server_loop A handler s' inputs = (t, rs', w)"
    by (auto simp: i split: if_splits sum.splits prod.splits)
  then show ?case
    by cases (use Cons.prems(1) Cons.IH handler_invar in blast)+
qed simp

end

text \<open>A component with the state it is constructed in.\<close>

locale started_server = message_server +
  fixes init_state
  assumes init_invar: "invar init_state"
begin

lemma run_invar: "serve handler init_state ms = Inr (t, rs) \<Longrightarrow> invar t"
  by (rule serve_invar [OF init_invar])

lemma loop_from_start_invar: "server_loop A handler init_state inputs = (t, rs, w) \<Longrightarrow> invar t"
  by (rule loop_invar [OF init_invar])

end

text \<open>
  A component that answers every request of the kinds it supports, and raises for the others. The
  first message of another kind ends the process.
\<close>

locale answering_server = message_server +
  fixes supported :: "MessageType set"
    and unknown :: cpp_error
  assumes answers: "invar s \<Longrightarrow> msg_type (msg_header req) \<in> supported \<Longrightarrow> \<exists>s' r. handler s req = Inr (s', r)"
    and rejects: "msg_type (msg_header req) \<notin> supported \<Longrightarrow> handler s req = Inl unknown"
begin

definition well_formed :: "alpaca \<Rightarrow> byte list list \<Rightarrow> bool" where
  "well_formed A parts \<longleftrightarrow> length parts = 2 \<and> msg_type (de_header A (parts ! 0)) \<in> supported"

lemma supported_requests_served:
  assumes "invar s" "\<forall>m\<in>set ms. msg_type (msg_header m) \<in> supported"
  shows "\<exists>t rs. serve handler s ms = Inr (t, rs)"
  using assms
proof (induction ms arbitrary: s)
  case (Cons m ms)
  from Cons.prems obtain s' r where h: "handler s m = Inr (s', r)"
    using answers [of s m] by auto
  with Cons show ?case using handler_invar [OF Cons.prems(1) h] by fastforce
qed simp

lemma loop_never_terminates:
  assumes "invar s" "\<forall>(intr, parts)\<in>set inputs. well_formed A parts"
  shows "\<exists>t rs w. server_loop A handler s inputs = (t, rs, w) \<and> w \<in> {Waiting, Stopped}"
  using assms
proof (induction inputs arbitrary: s)
  case (Cons i inputs)
  obtain intr parts where i: "i = (intr, parts)" by (cases i)
  show ?case
  proof (cases intr)
    case False
    have len: "length parts = 2" and ty: "msg_type (de_header A (parts ! 0)) \<in> supported"
      using Cons.prems i by (auto simp: well_formed_def)
    obtain s' r where h: "handler s \<lparr>msg_header = de_header A (parts ! 0), msg_data = parts ! 1\<rparr> = Inr (s', r)"
      using answers [OF Cons.prems(1), of "\<lparr>msg_header = de_header A (parts ! 0), msg_data = parts ! 1\<rparr>"] ty
      by auto
    with Cons.IH [OF handler_invar [OF Cons.prems(1) h]] Cons.prems(2) show ?thesis
      by (auto simp: i False recv_message_def len)
  qed (simp add: i)
qed simp

lemma loop_terminated_by_unknown:
  assumes "length parts = 2" "msg_type (de_header A (parts ! 0)) \<notin> supported"
  shows "server_loop A handler s ((False, parts) # inputs) = (s, [], Terminated unknown)"
  using assms by (simp add: recv_message_def rejects)

end

end
