(* ===== verification/TxPool.thy ===== *)
theory TxPool
  imports Containers Keys Server
begin

text \<open>
  The transaction pool of src/tx_pool.hpp and src/tx_pool.cpp: two queues in arrival order and two
  hash sets that answer status queries. Every handler runs under \<open>tx_lock\<close>, so it is one step of
  the state; \<open>query_tx_count\<close> takes no lock and only reads.
\<close>

section \<open>State\<close>

type_synonym TransactionSet = "Transaction list"

interpretation txset: unordered_set tx_eq "uset_invar tx_key" "[]"
  "uset_insert tx_key" "uset_erase tx_key" "uset_contains tx_key" length
proof -
  have "tx_eq = (\<lambda>s t. tx_key s = tx_key t)" by (intro ext) (simp add: tx_eq_key)
  then show "unordered_set tx_eq (uset_invar tx_key) [] (uset_insert tx_key) (uset_erase tx_key)
      (uset_contains tx_key) length"
    using uset_unordered_set [of tx_key] by (simp only:)
qed

text \<open>The range constructor \<open>TransactionSet(begin, end)\<close>.\<close>

definition TransactionSet_of :: "Transaction list \<Rightarrow> TransactionSet" where
  "TransactionSet_of txs = foldl (\<lambda>s tx. uset_insert tx_key tx s) [] txs"

record TxPool =
  submitted_queue :: "Transaction list"
  unconfirmed_queue :: "Transaction list"
  submitted_set :: TransactionSet
  unconfirmed_set :: TransactionSet

definition empty_pool :: TxPool where
  "empty_pool = \<lparr>submitted_queue = [], unconfirmed_queue = [], submitted_set = [], unconfirmed_set = []\<rparr>"

section \<open>Handlers\<close>

definition add_transaction :: "alpaca \<Rightarrow> openssl \<Rightarrow> byte list \<Rightarrow> TxPool \<Rightarrow> byte list \<Rightarrow> TxPool \<times> reply" where
  "add_transaction A ossl pad p data =
     (let tx = de_tx A data
      in if \<not> verify_transaction_signature ossl pad tx then (p, (P_null, STATUS_BAD))
         else (p\<lparr>submitted_queue := submitted_queue p @ [tx],
                 submitted_set := uset_insert tx_key tx (submitted_set p)\<rparr>,
               (P_null, STATUS_GOOD)))"

text \<open>One round of the loop of \<open>pop_transactions\<close>, and the loop.\<close>

definition pop_one :: "TxPool \<Rightarrow> Transaction \<Rightarrow> TxPool" where
  "pop_one p tx =
     p\<lparr>submitted_queue := tl (submitted_queue p),
       submitted_set := snd (uset_erase tx_key tx (submitted_set p)),
       unconfirmed_queue := unconfirmed_queue p @ [tx],
       unconfirmed_set := uset_insert tx_key tx (unconfirmed_set p)\<rparr>"

definition pop_transactions :: "TxPool \<Rightarrow> byte list \<Rightarrow> TxPool \<times> reply" where
  "pop_transactions p data =
     (let q = submitted_queue p;
          txs = (if BLOCK_SIZE - 1 \<le> length q then take (BLOCK_SIZE - 1) q else q)
      in (foldl pop_one p txs, (P_txs txs, STATUS_GOOD)))"

text \<open>
  The loop of \<open>confirm_transactions\<close>: it ends when the set of confirmed transactions or the queue of
  unconfirmed ones is used up.
\<close>

definition confirm_one :: "TransactionSet \<times> TxPool \<Rightarrow> TransactionSet \<times> TxPool" where
  "confirm_one cp =
     (case cp of (confirmed_set, p) \<Rightarrow>
        let tx = hd (unconfirmed_queue p);
            p1 = p\<lparr>unconfirmed_queue := tl (unconfirmed_queue p),
                   unconfirmed_set := snd (uset_erase tx_key tx (unconfirmed_set p))\<rparr>;
            (erased, confirmed_set') = uset_erase tx_key tx confirmed_set
        in if erased = 0
           then (confirmed_set', p1\<lparr>submitted_queue := submitted_queue p1 @ [tx],
                                    submitted_set := uset_insert tx_key tx (submitted_set p1)\<rparr>)
           else (confirmed_set', p1))"

lemma confirm_one_queue: "unconfirmed_queue (snd (confirm_one (c, p))) = tl (unconfirmed_queue p)"
  by (simp add: confirm_one_def Let_def split: prod.splits)

function confirm_loop :: "TransactionSet \<Rightarrow> TxPool \<Rightarrow> TransactionSet \<times> TxPool" where
  "confirm_loop confirmed_set p =
     (if confirmed_set \<noteq> [] \<and> unconfirmed_queue p \<noteq> []
      then (case confirm_one (confirmed_set, p) of (c, p') \<Rightarrow> confirm_loop c p')
      else (confirmed_set, p))"
  by pat_completeness auto
termination
proof (relation "measure (\<lambda>(c, p). length (unconfirmed_queue p))")
  show "confirmed_set \<noteq> [] \<and> unconfirmed_queue p \<noteq> [] \<Longrightarrow> (c, p') = confirm_one (confirmed_set, p) \<Longrightarrow>
      ((c, p'), confirmed_set, p) \<in> measure (\<lambda>(c, p). length (unconfirmed_queue p))"
    for confirmed_set p c p'
    using confirm_one_queue [of confirmed_set p]
    by (metis (no_types, lifting) case_prod_conv diff_less in_measure length_greater_0_conv length_tl
        less_numeral_extra(1) snd_conv)
qed simp

declare confirm_loop.simps [simp del]

definition confirm_transactions :: "alpaca \<Rightarrow> TxPool \<Rightarrow> byte list \<Rightarrow> TxPool \<times> reply" where
  "confirm_transactions A p data =
     (let block = de_block A data;
          confirmed_set = TransactionSet_of (transactions block)
      in (snd (confirm_loop confirmed_set p), (P_null, STATUS_GOOD)))"

text \<open>
  \<open>ask_blockchain\<close> is the round trip to the blockchain node for a transaction the pool does not
  hold: the status in the reply, or the exception \<open>recv_message\<close> raises.
\<close>

definition query_tx_status ::
  "alpaca \<Rightarrow> (Ed25519Key \<times> u64 \<Rightarrow> Status result) \<Rightarrow> TxPool \<Rightarrow> byte list \<Rightarrow> TxPool handled" where
  "query_tx_status A ask_blockchain p data =
     (let key = de_txkey A data;
          tx = \<lparr>src = fst key, dest = zero_key, signature = zeros 64, tx_id = snd key, amount = 0,
                tx_timestamp = 0\<rparr>
      in if uset_contains tx_key tx (submitted_set p) then Inr (p, (P_status SUBMITTED, STATUS_GOOD))
         else if uset_contains tx_key tx (unconfirmed_set p) then Inr (p, (P_status UNCONFIRMED, STATUS_GOOD))
         else bind_result (ask_blockchain key) (\<lambda>st. Inr (p, (P_status st, STATUS_GOOD))))"

definition query_tx_count :: "TxPool \<Rightarrow> byte list \<Rightarrow> TxPool \<times> reply" where
  "query_tx_count p data =
     (p, (P_int (of_nat (length (submitted_queue p) + length (unconfirmed_queue p))), STATUS_GOOD))"

definition pool_request_handler ::
  "alpaca \<Rightarrow> openssl \<Rightarrow> byte list \<Rightarrow> (Ed25519Key \<times> u64 \<Rightarrow> Status result) \<Rightarrow> TxPool \<Rightarrow> Message
     \<Rightarrow> TxPool handled" where
  "pool_request_handler A ossl pad ask p req =
     (case msg_type (msg_header req) of
        POP_TX \<Rightarrow> Inr (pop_transactions p (msg_data req))
      | POST_TX \<Rightarrow> Inr (add_transaction A ossl pad p (msg_data req))
      | QUERY_TX_STATUS \<Rightarrow> query_tx_status A ask p (msg_data req)
      | QUERY_TX_COUNT \<Rightarrow> Inr (query_tx_count p (msg_data req))
      | CONFIRM_BLOCK \<Rightarrow> Inr (confirm_transactions A p (msg_data req))
      | _ \<Rightarrow> Inl (Runtime_error ''Unknown message type.''))"

section \<open>What the loops compute\<close>

text \<open>The keys of a list of transactions.\<close>

definition keys_of :: "Transaction list \<Rightarrow> (Ed25519Key \<times> u64) set" where
  "keys_of txs = tx_key ` set txs"

lemma keys_of_simps [simp]:
  "keys_of [] = {}" "keys_of (t # ts) = insert (tx_key t) (keys_of ts)"
  "keys_of (ts @ us) = keys_of ts \<union> keys_of us"
  by (auto simp: keys_of_def)

lemma key_in_keys_of: "t \<in> set ts \<Longrightarrow> tx_key t \<in> keys_of ts"
  by (simp add: keys_of_def)

lemma image_keys_of [simp]: "tx_key ` set ts = keys_of ts"
  by (simp add: keys_of_def)

lemma keys_of_filter: "keys_of (filter (\<lambda>t. tx_key t \<in> K) ts) = keys_of ts \<inter> K"
  "keys_of (filter (\<lambda>t. tx_key t \<notin> K) ts) = keys_of ts - K"
  by (auto simp: keys_of_def simp del: image_keys_of)

lemma keys_of_empty_iff [simp]: "keys_of ts = {} \<longleftrightarrow> ts = []"
  by (cases ts) auto

lemma TransactionSet_of_range: "TransactionSet_of txs = txset.insert_range txs []"
  by (simp add: TransactionSet_of_def txset.insert_range_def)

lemma TransactionSet_of_invar: "uset_invar tx_key (TransactionSet_of txs)"
  by (simp add: TransactionSet_of_range txset.invar_insert_range txset.invar_empty)

lemma uset_contains_key: "uset_contains tx_key t s \<longleftrightarrow> tx_key t \<in> keys_of s"
  by (simp add: uset_contains_def)

lemma keys_uset_insert [simp]: "keys_of (uset_insert tx_key t s) = insert (tx_key t) (keys_of s)"
  by (auto simp: uset_insert_def uset_contains_def)

lemma keys_uset_erase [simp]: "keys_of (snd (uset_erase tx_key t s)) = keys_of s - {tx_key t}"
  by (auto simp: uset_erase_def keys_of_def simp del: image_keys_of)

lemma uset_erase_count: "uset_invar tx_key s \<Longrightarrow>
    fst (uset_erase tx_key t s) = (if tx_key t \<in> keys_of s then 1 else 0)"
  using txset.count_erase [of s t] by (simp add: uset_contains_key)

lemma keys_insert_range: "keys_of (txset.insert_range txs s) = keys_of s \<union> keys_of txs"
  by (induction txs arbitrary: s) (auto simp: txset.insert_range_def)

lemma keys_erase_range: "keys_of (txset.erase_range txs s) = keys_of s - keys_of txs"
  by (induction txs arbitrary: s) (auto simp: txset.erase_range_def)

lemma keys_TransactionSet_of: "keys_of (TransactionSet_of txs) = keys_of txs"
  by (simp add: TransactionSet_of_range keys_insert_range)

text \<open>The loop of \<open>pop_transactions\<close> moves a prefix of one queue to the end of the other.\<close>

lemma pop_loop:
  "submitted_queue p = txs @ rest \<Longrightarrow>
   foldl pop_one p txs =
     p\<lparr>submitted_queue := rest, unconfirmed_queue := unconfirmed_queue p @ txs,
       submitted_set := txset.erase_range txs (submitted_set p),
       unconfirmed_set := txset.insert_range txs (unconfirmed_set p)\<rparr>"
  by (induction txs arbitrary: p)
    (simp_all add: pop_one_def txset.erase_range_def txset.insert_range_def)

definition popped :: "TxPool \<Rightarrow> Transaction list" where
  "popped p = take (BLOCK_SIZE - 1) (submitted_queue p)"

lemma pop_transactions_eq:
  "pop_transactions p data =
     (p\<lparr>submitted_queue := drop (BLOCK_SIZE - 1) (submitted_queue p),
        unconfirmed_queue := unconfirmed_queue p @ popped p,
        submitted_set := txset.erase_range (popped p) (submitted_set p),
        unconfirmed_set := txset.insert_range (popped p) (unconfirmed_set p)\<rparr>,
      (P_txs (popped p), STATUS_GOOD))"
proof -
  have "submitted_queue p = popped p @ drop (BLOCK_SIZE - 1) (submitted_queue p)"
    by (simp add: popped_def)
  from pop_loop [OF this] show ?thesis
    unfolding pop_transactions_def Let_def take_if popped_def by simp
qed

text \<open>
  The reference for \<open>confirm_transactions\<close>: the pending queue is settled against the set \<open>K\<close> of
  confirmed keys; the results are what goes back to the submitted queue, what stays pending, and
  what is dropped as confirmed. Each key of \<open>K\<close> accounts for one transaction.
\<close>

fun settle :: "(Ed25519Key \<times> u64) set \<Rightarrow> Transaction list
    \<Rightarrow> Transaction list \<times> Transaction list \<times> Transaction list" where
  "settle K [] = ([], [], [])"
| "settle K (t # q) =
     (if K = {} then ([], t # q, [])
      else if tx_key t \<in> K then (case settle (K - {tx_key t}) q of (r, u, d) \<Rightarrow> (r, u, t # d))
      else (case settle K q of (r, u, d) \<Rightarrow> (t # r, u, d)))"

lemma settle_induct [consumes 1, case_names stop hit miss]:
  assumes "settle K q = (r, u, d)"
    and "\<And>K q. K = {} \<or> q = [] \<Longrightarrow> P K q [] q []"
    and "\<And>K t q r u d. tx_key t \<in> K \<Longrightarrow> P (K - {tx_key t}) q r u d \<Longrightarrow> P K (t # q) r u (t # d)"
    and "\<And>K t q r u d. K \<noteq> {} \<Longrightarrow> tx_key t \<notin> K \<Longrightarrow> P K q r u d \<Longrightarrow> P K (t # q) (t # r) u d"
  shows "P K q r u d"
  using assms(1)
proof (induction K q arbitrary: r u d rule: settle.induct)
  case (2 K t q)
  consider "K = {}" | "K \<noteq> {}" "tx_key t \<in> K" | "K \<noteq> {}" "tx_key t \<notin> K" by blast
  then show ?case
  proof cases
    case 2
    then show ?thesis using "2.prems" "2.IH"(1) assms(3) by (auto split: prod.splits)
  next
    case 3
    then obtain r' where r: "r = t # r'" and rec: "settle K q = (r', u, d)"
      using "2.prems" by (auto split: prod.splits)
    show ?thesis unfolding r by (rule assms(4) [OF 3 "2.IH"(2) [OF 3 rec]])
  qed (use "2.prems" assms(2) in auto)
qed (use assms(2) in auto)

lemma settle_mset: "settle K q = (r, u, d) \<Longrightarrow> mset q = mset r + mset u + mset d"
  by (induction rule: settle_induct) auto

lemma settle_dropped: "settle K q = (r, u, d) \<Longrightarrow> keys_of d \<subseteq> K \<and> distinct (map tx_key d)"
  by (induction rule: settle_induct) auto

lemma settle_drains: "settle K q = (r, u, d) \<Longrightarrow> \<not> K \<subseteq> keys_of q \<Longrightarrow> u = []"
  by (induction rule: settle_induct) auto

text \<open>When the whole queue is settled, what goes back is all but the first transaction of each key of \<open>K\<close>.\<close>

lemma settle_returned:
  "settle K q = (r, u, d) \<Longrightarrow> u = [] \<Longrightarrow>
     r = nths q {i. tx_key (q ! i) \<notin> K \<or> tx_key (q ! i) \<in> keys_of (take i q)}"
proof (induction rule: settle_induct)
  case (hit K t q r u d)
  have "{i. tx_key (q ! i) \<notin> K - {tx_key t} \<or> tx_key (q ! i) \<in> keys_of (take i q)} =
      {i. tx_key (q ! i) \<notin> K \<or> tx_key (q ! i) \<in> insert (tx_key t) (keys_of (take i q))}"
    using hit.hyps by auto
  then show ?case using hit by (simp add: nths_Cons)
next
  case (miss K t q r u d)
  have "{i. tx_key (q ! i) \<notin> K \<or> tx_key (q ! i) \<in> keys_of (take i q)} =
      {i. tx_key (q ! i) \<notin> K \<or> tx_key (q ! i) \<in> insert (tx_key t) (keys_of (take i q))}"
    using miss.hyps by auto
  then show ?case using miss by (simp add: nths_Cons)
qed auto

lemma filter_without_key:
  "tx_key t \<notin> keys_of ts \<Longrightarrow>
     filter (\<lambda>t'. tx_key t' \<in> K - {tx_key t}) ts = filter (\<lambda>t'. tx_key t' \<in> K) ts \<and>
     filter (\<lambda>t'. tx_key t' \<notin> K - {tx_key t}) ts = filter (\<lambda>t'. tx_key t' \<notin> K) ts"
  by (induction ts) auto

lemma settle_distinct:
  "settle K q = (r, u, d) \<Longrightarrow> distinct (map tx_key q) \<Longrightarrow>
     \<exists>pre. q = pre @ u \<and> r = filter (\<lambda>t. tx_key t \<notin> K) pre \<and> d = filter (\<lambda>t. tx_key t \<in> K) pre"
proof (induction rule: settle_induct)
  case (hit K t q r u d)
  then obtain pre where pre: "q = pre @ u" "r = filter (\<lambda>t'. tx_key t' \<notin> K - {tx_key t}) pre"
    "d = filter (\<lambda>t'. tx_key t' \<in> K - {tx_key t}) pre" by auto
  with hit.prems filter_without_key [of t pre K] hit.hyps show ?case
    by (intro exI [of _ "t # pre"]) simp
next
  case (miss K t q r u d)
  then obtain pre where "q = pre @ u" "r = filter (\<lambda>t'. tx_key t' \<notin> K) pre"
    "d = filter (\<lambda>t'. tx_key t' \<in> K) pre" by auto
  with miss.hyps show ?case by (intro exI [of _ "t # pre"]) simp
qed simp

section \<open>The confirmation loop refines the reference\<close>

definition sets_ok :: "TxPool \<Rightarrow> bool" where
  "sets_ok p \<longleftrightarrow> uset_invar tx_key (submitted_set p) \<and> uset_invar tx_key (unconfirmed_set p)"

definition submitted_keys :: "TxPool \<Rightarrow> (Ed25519Key \<times> u64) set" where
  "submitted_keys p = keys_of (submitted_set p)"

definition unconfirmed_keys :: "TxPool \<Rightarrow> (Ed25519Key \<times> u64) set" where
  "unconfirmed_keys p = keys_of (unconfirmed_set p)"

lemmas pool_key_defs = sets_ok_def submitted_keys_def unconfirmed_keys_def

lemma confirm_one_step:
  assumes "uset_invar tx_key c" "unconfirmed_queue p = t # q"
  obtains c' p' where "confirm_one (c, p) = (c', p')" "uset_invar tx_key c'"
    "keys_of c' = keys_of c - {tx_key t}"
    "unconfirmed_queue p' = q" "unconfirmed_keys p' = unconfirmed_keys p - {tx_key t}"
    "sets_ok p \<Longrightarrow> sets_ok p'"
    "submitted_queue p' = submitted_queue p @ (if tx_key t \<in> keys_of c then [] else [t])"
    "submitted_keys p' = submitted_keys p \<union> (if tx_key t \<in> keys_of c then {} else {tx_key t})"
proof -
  obtain n c' where e: "uset_erase tx_key t c = (n, c')" by (cases "uset_erase tx_key t c")
  have c': "uset_invar tx_key c'" "keys_of c' = keys_of c - {tx_key t}"
    using txset.invar_erase [OF assms(1), of t] keys_uset_erase [of t c] by (simp_all add: e)
  have n: "n = 0 \<longleftrightarrow> tx_key t \<notin> keys_of c" using uset_erase_count [OF assms(1), of t] by (simp add: e)
  let ?p' = "snd (confirm_one (c, p))"
  have cp: "confirm_one (c, p) = (c', ?p')" by (simp add: confirm_one_def assms(2) e Let_def)
  show thesis
    by (rule that [OF cp c'])
      (use n in \<open>auto simp: confirm_one_def assms(2) e Let_def pool_key_defs
         txset.invar_erase txset.invar_insert\<close>)
qed

lemma confirm_loop_settle:
  assumes "uset_invar tx_key c" "settle (keys_of c) (unconfirmed_queue p) = (r, u, d)"
  shows "submitted_queue (snd (confirm_loop c p)) = submitted_queue p @ r \<and>
    unconfirmed_queue (snd (confirm_loop c p)) = u \<and>
    submitted_keys (snd (confirm_loop c p)) = submitted_keys p \<union> keys_of r \<and>
    unconfirmed_keys (snd (confirm_loop c p)) = unconfirmed_keys p - (keys_of r \<union> keys_of d) \<and>
    (sets_ok p \<longrightarrow> sets_ok (snd (confirm_loop c p)))"
  using assms
proof (induction "unconfirmed_queue p" arbitrary: c p r u d)
  case Nil
  then show ?case by (subst (1 2 3 4 5) confirm_loop.simps) auto
next
  case (Cons t q)
  note q = Cons.hyps(2) [symmetric]
  show ?case
  proof (cases "c = []")
    case True
    with Cons.prems q show ?thesis by (subst (1 2 3 4 5) confirm_loop.simps) auto
  next
    case False
    obtain c' p' where st: "confirm_one (c, p) = (c', p')" "uset_invar tx_key c'"
      "keys_of c' = keys_of c - {tx_key t}"
      "unconfirmed_queue p' = q" "unconfirmed_keys p' = unconfirmed_keys p - {tx_key t}"
      "sets_ok p \<Longrightarrow> sets_ok p'"
      "submitted_queue p' = submitted_queue p @ (if tx_key t \<in> keys_of c then [] else [t])"
      "submitted_keys p' = submitted_keys p \<union> (if tx_key t \<in> keys_of c then {} else {tx_key t})"
      using confirm_one_step [OF Cons.prems(1) q] by blast
    have loop: "confirm_loop c p = confirm_loop c' p'"
      using False q st(1) by (subst confirm_loop.simps) simp
    obtain r' d' where rec: "settle (keys_of c') (unconfirmed_queue p') = (r', u, d')"
      and rd: "r = (if tx_key t \<in> keys_of c then r' else t # r')"
        "d = (if tx_key t \<in> keys_of c then t # d' else d')"
      using Cons.prems(2) False unfolding st(3,4) q
      by (cases "tx_key t \<in> keys_of c") (auto split: prod.splits)
    from Cons.hyps(1) [OF st(4) [symmetric] st(2) rec]
    show ?thesis unfolding loop rd using st(5-8) by auto
  qed
qed

lemma confirm_transactions_settle:
  assumes "settle (keys_of (transactions (de_block A data))) (unconfirmed_queue p) = (r, u, d)"
  shows "\<exists>p'. confirm_transactions A p data = (p', (P_null, STATUS_GOOD)) \<and>
    submitted_queue p' = submitted_queue p @ r \<and> unconfirmed_queue p' = u \<and>
    submitted_keys p' = submitted_keys p \<union> keys_of r \<and>
    unconfirmed_keys p' = unconfirmed_keys p - (keys_of r \<union> keys_of d) \<and>
    (sets_ok p \<longrightarrow> sets_ok p')"
  using confirm_loop_settle [OF TransactionSet_of_invar, of "transactions (de_block A data)" p r u d] assms
  by (simp add: confirm_transactions_def keys_TransactionSet_of)

end
