(* ===== verification/Samples.thy ===== *)
theory Samples
  imports Messages Keys
begin

text \<open>
  Concrete instances of the parameters of the model (a serializer, a signature library), and a few
  transactions and blocks, on which the witnesses evaluate the definitions. Nothing of the model
  depends on them.
\<close>

definition sample_key :: "byte \<Rightarrow> Ed25519Key" where
  "sample_key b = replicate 32 b"

lemma sample_key_simps [simp]:
  "length (sample_key b) = 32" "sample_key b = sample_key c \<longleftrightarrow> b = c"
  "sample_key b = zero_key \<longleftrightarrow> b = 0" "zero_key = sample_key b \<longleftrightarrow> b = 0"
  by (auto simp: sample_key_def zeros_def)

definition sample_tx :: "byte \<Rightarrow> u64 \<Rightarrow> u32 \<Rightarrow> Transaction" where
  "sample_tx b i a =
     \<lparr>src = sample_key b, dest = sample_key 9, signature = zeros 64, tx_id = i, amount = a, tx_timestamp = 0\<rparr>"

definition sample_header :: "u32 \<Rightarrow> BlockHeader" where
  "sample_header i =
     \<lparr>input = zero_HashInput, hash = sample_key 7, prev_hash = sample_key 6, difficulty = 20,
      timestamp = 1000000, hdr_id = i\<rparr>"

definition sample_block :: "Transaction list \<Rightarrow> Block" where
  "sample_block txs = \<lparr>header = sample_header 1, transactions = txs\<rparr>"

text \<open>A header code of nine bytes: the enumerator and the size.\<close>

definition sample_ser_header :: "MessageHeader \<Rightarrow> byte list" where
  "sample_ser_header h = of_nat (message_code (msg_type h)) # le_bytes 8 (msg_size h)"

definition sample_de_header :: "byte list \<Rightarrow> MessageHeader" where
  "sample_de_header bs = \<lparr>msg_type = message_types ! unat (hd bs), msg_size = of_nat (le_value (tl bs))\<rparr>"

lemma message_code_less: "message_code m < 15"
  by (cases m) auto

lemma sample_header_roundtrip: "sample_de_header (sample_ser_header h) = h"
proof -
  have "unat (of_nat (message_code (msg_type h)) :: byte) = message_code (msg_type h)"
    using message_code_less [of "msg_type h"] by (simp add: unsigned_of_nat take_bit_eq_mod)
  then show ?thesis
    by (simp add: sample_de_header_def sample_ser_header_def message_types_code le_value_le_bytes
        MessageHeader.equality)
qed

text \<open>A serializer whose decoders return the given transaction and block, whatever the bytes are.\<close>

definition sample_alpaca :: "Transaction \<Rightarrow> Block \<Rightarrow> alpaca" where
  "sample_alpaca t b =
     \<lparr>ser_header = sample_ser_header, ser_payload = (\<lambda>_. []), de_header = sample_de_header,
      de_tx = (\<lambda>_. t), de_txs = (\<lambda>_. transactions b), de_txkey = (\<lambda>_. tx_key t), de_status = (\<lambda>_. UNKNOWN),
      de_block = (\<lambda>_. b), de_block_header = (\<lambda>_. header b), de_key = (\<lambda>_. src t), de_uint32 = (\<lambda>_. 0)\<rparr>"

lemma sample_alpaca_sel [simp]:
  "de_tx (sample_alpaca t b) data = t" "de_block (sample_alpaca t b) data = b"
  "de_txkey (sample_alpaca t b) data = tx_key t" "de_key (sample_alpaca t b) data = src t"
  "ser_header (sample_alpaca t b) = sample_ser_header" "de_header (sample_alpaca t b) = sample_de_header"
  by (simp_all add: sample_alpaca_def)

text \<open>
  A signature scheme for evaluation: a signature is the key followed by the first 32 bytes of the
  message, and verification returns 1 or 0.
\<close>

definition sample_openssl :: openssl where
  "sample_openssl =
     \<lparr>evp_digest_sign = (\<lambda>priv m. priv @ take 32 m),
      evp_digest_verify = (\<lambda>pub sig m. if sig = pub @ take 32 m then 1 else 0)\<rparr>"

text \<open>A library that reports an internal error, as a call on a null key does.\<close>

definition failing_openssl :: openssl where
  "failing_openssl = \<lparr>evp_digest_sign = (\<lambda>priv m. zeros 64), evp_digest_verify = (\<lambda>pub sig m. - 1)\<rparr>"

text \<open>A library that accepts every signature.\<close>

definition accepting_openssl :: openssl where
  "accepting_openssl = \<lparr>evp_digest_sign = (\<lambda>priv m. zeros 64), evp_digest_verify = (\<lambda>pub sig m. 1)\<rparr>"

lemma accepting_verifies [simp]: "verify_transaction_signature accepting_openssl pad tx"
  by (simp add: verify_iff accepting_openssl_def)

end
