(* ===== verification/TxPool_Correct.thy ===== *)
theory TxPool_Correct
  imports TxPool Samples
begin

text \<open>
  Correctness of the transaction pool: the invariant that relates the hash sets to the queues, the
  conservation of transactions by popping and confirming, and the answers to status queries.
\<close>

section \<open>Invariants\<close>

text \<open>
  Always: the sets hold at most one transaction per key, and only keys that are in the queue they
  belong to.
\<close>

definition pool_wf :: "TxPool \<Rightarrow> bool" where
  "pool_wf p \<longleftrightarrow> sets_ok p \<and> submitted_keys p \<subseteq> keys_of (submitted_queue p) \<and>
     unconfirmed_keys p \<subseteq> keys_of (unconfirmed_queue p)"

text \<open>As long as no key is posted twice: every key is queued once, and the sets are exact.\<close>

definition pool_exact :: "TxPool \<Rightarrow> bool" where
  "pool_exact p \<longleftrightarrow> sets_ok p \<and> distinct (map tx_key (submitted_queue p @ unconfirmed_queue p)) \<and>
     submitted_keys p = keys_of (submitted_queue p) \<and>
     unconfirmed_keys p = keys_of (unconfirmed_queue p)"

lemma pool_exact_wf: "pool_exact p \<Longrightarrow> pool_wf p"
  by (simp add: pool_exact_def pool_wf_def)

lemma empty_pool_wf: "pool_wf empty_pool"
  by (simp add: pool_wf_def pool_key_defs empty_pool_def uset_invar_def)

lemma empty_pool_exact: "pool_exact empty_pool"
  by (simp add: pool_exact_def pool_key_defs empty_pool_def uset_invar_def)

section \<open>Every handler keeps them\<close>

lemma add_transaction_keys:
  "fst (add_transaction A ossl pad p data) = p \<or>
   (let p' = fst (add_transaction A ossl pad p data); tx = de_tx A data in
      submitted_queue p' = submitted_queue p @ [tx] \<and> unconfirmed_queue p' = unconfirmed_queue p \<and>
      submitted_keys p' = insert (tx_key tx) (submitted_keys p) \<and>
      unconfirmed_keys p' = unconfirmed_keys p \<and> (sets_ok p \<longrightarrow> sets_ok p'))"
  by (auto simp: add_transaction_def Let_def pool_key_defs txset.invar_insert)

lemma add_transaction_wf [invar_intros]: "pool_wf p \<Longrightarrow> pool_wf (fst (add_transaction A ossl pad p data))"
  using add_transaction_keys [of A ossl pad p data] by (auto simp: pool_wf_def Let_def)

lemma add_transaction_exact:
  assumes "pool_exact p" "tx_key (de_tx A data) \<notin> keys_of (submitted_queue p @ unconfirmed_queue p)"
  shows "pool_exact (fst (add_transaction A ossl pad p data))"
  using add_transaction_keys [of A ossl pad p data] assms by (auto simp: pool_exact_def Let_def)

lemma pop_transactions_keys:
  "submitted_keys (fst (pop_transactions p data)) = submitted_keys p - keys_of (popped p)"
  "unconfirmed_keys (fst (pop_transactions p data)) = unconfirmed_keys p \<union> keys_of (popped p)"
  "sets_ok p \<Longrightarrow> sets_ok (fst (pop_transactions p data))"
  by (simp_all add: pop_transactions_eq pool_key_defs keys_erase_range keys_insert_range
      txset.invar_erase_range txset.invar_insert_range)

lemma popped_split: "submitted_queue p = popped p @ drop (BLOCK_SIZE - 1) (submitted_queue p)"
  by (simp add: popped_def)

lemma pop_transactions_wf [invar_intros]: "pool_wf p \<Longrightarrow> pool_wf (fst (pop_transactions p data))"
proof -
  assume wf: "pool_wf p"
  have "keys_of (submitted_queue p) =
      keys_of (popped p) \<union> keys_of (drop (BLOCK_SIZE - 1) (submitted_queue p))"
    by (subst popped_split) (simp add: image_Un)
  then show ?thesis
    using wf pop_transactions_keys [of p data] unfolding pool_wf_def
    by (auto simp: pop_transactions_eq)
qed

lemma pop_transactions_exact [invar_intros]: "pool_exact p \<Longrightarrow> pool_exact (fst (pop_transactions p data))"
proof -
  assume ex: "pool_exact p"
  obtain qs where qs: "submitted_queue p = popped p @ qs" "drop (BLOCK_SIZE - 1) (submitted_queue p) = qs"
    using popped_split by blast
  then show ?thesis
    using ex pop_transactions_keys [of p data] unfolding pool_exact_def
    by (auto simp: pop_transactions_eq)
qed

text \<open>What settling the pending queue leaves of its keys.\<close>

lemma settle_keys: "settle K q = (r, u, d) \<Longrightarrow> keys_of q = keys_of r \<union> keys_of u \<union> keys_of d"
  by (induction rule: settle_induct) auto

lemma confirm_transactions_wf [invar_intros]: "pool_wf p \<Longrightarrow> pool_wf (fst (confirm_transactions A p data))"
proof -
  assume wf: "pool_wf p"
  obtain r u d where st: "settle (keys_of (transactions (de_block A data))) (unconfirmed_queue p) = (r, u, d)"
    by (metis prod_cases3)
  from confirm_transactions_settle [OF st] settle_keys [OF st] wf show ?thesis
    by (auto simp: pool_wf_def)
qed

lemma confirm_transactions_exact [invar_intros]:
  "pool_exact p \<Longrightarrow> pool_exact (fst (confirm_transactions A p data))"
proof -
  assume ex: "pool_exact p"
  let ?K = "keys_of (transactions (de_block A data))"
  obtain r u d where st: "settle ?K (unconfirmed_queue p) = (r, u, d)" by (metis prod_cases3)
  from ex have "distinct (map tx_key (unconfirmed_queue p))" by (simp add: pool_exact_def)
  from settle_distinct [OF st this] obtain pre where
    pre: "unconfirmed_queue p = pre @ u" "r = filter (\<lambda>t. tx_key t \<notin> ?K) pre"
      "d = filter (\<lambda>t. tx_key t \<in> ?K) pre" by blast
  obtain p' where p': "confirm_transactions A p data = (p', (P_null, STATUS_GOOD))"
    "submitted_queue p' = submitted_queue p @ r" "unconfirmed_queue p' = u"
    "submitted_keys p' = submitted_keys p \<union> keys_of r"
    "unconfirmed_keys p' = unconfirmed_keys p - (keys_of r \<union> keys_of d)" "sets_ok p'"
    using confirm_transactions_settle [OF st] ex by (auto simp: pool_exact_def)
  have keys: "keys_of r = keys_of pre - ?K" "keys_of d = keys_of pre \<inter> ?K"
    unfolding pre(2,3) by (simp_all add: keys_of_filter)
  have dist: "distinct (map tx_key r)" "distinct (map tx_key u)"
    "keys_of pre \<inter> keys_of u = {}" "keys_of (submitted_queue p) \<inter> (keys_of pre \<union> keys_of u) = {}"
    using ex unfolding pool_exact_def pre(1,2) by (simp_all add: distinct_map_filter Int_Un_distrib)
  have "pool_exact p'"
    using ex dist keys unfolding pool_exact_def p' pre(1) by (simp add: p' ) blast
  then show ?thesis by (simp add: p'(1))
qed

section \<open>The pool as a server\<close>

definition pool_requests :: "MessageType set" where
  "pool_requests = {POP_TX, POST_TX, QUERY_TX_STATUS, QUERY_TX_COUNT, CONFIRM_BLOCK}"

lemma query_tx_status_state: "query_tx_status A ask p data = Inr (p', r) \<Longrightarrow> p' = p"
  by (auto simp: query_tx_status_def Let_def bind_result_eq_Inr split: if_splits)

lemma query_tx_count_state [simp]: "fst (query_tx_count p data) = p"
  by (simp add: query_tx_count_def)

text \<open>A request the handler answers is one of five operations.\<close>

lemma pool_handler_cases:
  assumes "pool_request_handler A ossl pad ask p req = Inr (p', r)"
  obtains (pop) "msg_type (msg_header req) = POP_TX" "(p', r) = pop_transactions p (msg_data req)"
  | (add) "msg_type (msg_header req) = POST_TX" "(p', r) = add_transaction A ossl pad p (msg_data req)"
  | (query) "msg_type (msg_header req) \<in> {QUERY_TX_STATUS, QUERY_TX_COUNT}" "p' = p"
  | (confirm) "msg_type (msg_header req) = CONFIRM_BLOCK" "(p', r) = confirm_transactions A p (msg_data req)"
  using assms query_tx_status_state [of A ask p "msg_data req" p' r] query_tx_count_state [of p "msg_data req"]
  by (cases "msg_type (msg_header req)") (auto simp: pool_request_handler_def)

lemma pool_handler_wf:
  assumes "pool_wf p" "pool_request_handler A ossl pad ask p req = Inr (p', r)"
  shows "pool_wf p'"
  using assms(2)
proof (cases rule: pool_handler_cases)
  case pop
  then show ?thesis using pop_transactions_wf [OF assms(1)] by (metis fst_conv)
next
  case add
  then show ?thesis using add_transaction_wf [OF assms(1)] by (metis fst_conv)
next
  case confirm
  then show ?thesis using confirm_transactions_wf [OF assms(1)] by (metis fst_conv)
qed (use assms(1) in simp)

interpretation pool: started_server "pool_request_handler A ossl pad ask" pool_wf empty_pool
  for A ossl pad ask
  by unfold_locales (auto intro: empty_pool_wf pool_handler_wf)

interpretation pool: answering_server "pool_request_handler A ossl pad (\<lambda>k. Inr (chain k))"
  pool_wf pool_requests "Runtime_error ''Unknown message type.''" for A ossl pad chain
proof unfold_locales
  show "\<exists>s' r. pool_request_handler A ossl pad (\<lambda>k. Inr (chain k)) s req = Inr (s', r)"
    if "msg_type (msg_header req) \<in> pool_requests" for s req
    using that by (cases "msg_type (msg_header req)")
      (auto simp: pool_request_handler_def pool_requests_def query_tx_status_def Let_def
        pop_transactions_def add_transaction_def query_tx_count_def confirm_transactions_def)
  show "pool_request_handler A ossl pad (\<lambda>k. Inr (chain k)) s req = Inl (Runtime_error ''Unknown message type.'')"
    if "msg_type (msg_header req) \<notin> pool_requests" for s req
    using that by (cases "msg_type (msg_header req)")
      (auto simp: pool_request_handler_def pool_requests_def)
qed

section \<open>Properties\<close>

text \<open>
  Whatever messages a fresh pool has answered, each of its two hash sets holds one transaction
  per key and only keys of its own queue: a status query never reports a transaction that the pool
  does not hold in that state.
\<close>

lemma pool_run_keeps_wf:
  "serve (pool_request_handler A ossl pad ask) empty_pool ms = Inr (p, rs) \<Longrightarrow> pool_wf p"
  by (rule pool.run_invar)

lemma pool_run_keeps_wf_witness:
  "\<exists>p rs. serve (pool_request_handler (sample_alpaca (sample_tx 1 5 10) (sample_block [])) accepting_openssl
       (zeros 4) (\<lambda>_. Inr UNKNOWN)) empty_pool [request POST_TX [], request POP_TX []] = Inr (p, rs) \<and>
     unconfirmed_queue p = [sample_tx 1 5 10] \<and> pool_wf p"
proof -
  let ?h = "pool_request_handler (sample_alpaca (sample_tx 1 5 10) (sample_block [])) accepting_openssl
       (zeros 4) (\<lambda>_. Inr UNKNOWN)"
  obtain p rs where run: "serve ?h empty_pool [request POST_TX [], request POP_TX []] = Inr (p, rs)"
    and q: "unconfirmed_queue p = [sample_tx 1 5 10]"
    by (simp add: pool_request_handler_def add_transaction_def pop_transactions_eq popped_def empty_pool_def
        BLOCK_SIZE_def Let_def)
  from pool_run_keeps_wf [OF run] run q show ?thesis by blast
qed

text \<open>
  \<open>pop_transactions\<close> hands out the oldest submitted transactions in arrival order, at most one
  fewer than a block holds, leaves the others in order and files the ones it handed out behind the
  transactions that were already unconfirmed.
\<close>

lemma pop_transactions_fifo:
  "case pop_transactions p data of (p', r) \<Rightarrow>
     \<exists>txs. r = (P_txs txs, STATUS_GOOD) \<and>
       submitted_queue p = txs @ submitted_queue p' \<and>
       unconfirmed_queue p' = unconfirmed_queue p @ txs \<and>
       length txs = min (BLOCK_SIZE - 1) (length (submitted_queue p))"
  by (simp add: pop_transactions_eq popped_def min.commute)

text \<open>
  Confirming a block loses nothing: a transaction of the pool is afterwards either still in one of
  the queues or was dropped because the block holds its key, and each key of the block drops at most
  one transaction; transactions that go back are appended to the submitted queue.
\<close>

lemma confirm_conserves_transactions:
  "case confirm_transactions A p data of (p', r) \<Rightarrow>
     \<exists>returned dropped.
       mset (unconfirmed_queue p) = mset returned + mset (unconfirmed_queue p') + mset dropped \<and>
       submitted_queue p' = submitted_queue p @ returned \<and>
       keys_of dropped \<subseteq> keys_of (transactions (de_block A data)) \<and>
       distinct (map tx_key dropped) \<and> r = (P_null, STATUS_GOOD)"
proof -
  obtain returned u dropped where
    st: "settle (keys_of (transactions (de_block A data))) (unconfirmed_queue p) = (returned, u, dropped)"
    by (metis prod_cases3)
  from confirm_transactions_settle [OF st] settle_mset [OF st] settle_dropped [OF st]
  show ?thesis by auto
qed

text \<open>
  C8. A block that holds a key the pool is not waiting for - the miner's reward is one in every mined
  block - settles the whole unconfirmed queue. Of each key of the block the first transaction in the
  queue is dropped; everything else returns to the submitted queue in its order, also the second copy of
  a transaction that was posted twice, although the block confirms it. When no key is in the queue twice,
  what returns is what the block does not hold.
\<close>

theorem confirm_settles_whole_queue:
  assumes "\<not> keys_of (transactions (de_block A data)) \<subseteq> keys_of (unconfirmed_queue p)"
  shows "unconfirmed_queue (fst (confirm_transactions A p data)) = [] \<and>
    submitted_queue (fst (confirm_transactions A p data)) =
      submitted_queue p @ nths (unconfirmed_queue p)
        {i. tx_key (unconfirmed_queue p ! i) \<notin> keys_of (transactions (de_block A data)) \<or>
            tx_key (unconfirmed_queue p ! i) \<in> keys_of (take i (unconfirmed_queue p))} \<and>
    (distinct (map tx_key (unconfirmed_queue p)) \<longrightarrow>
      submitted_queue (fst (confirm_transactions A p data)) =
        submitted_queue p @
          filter (\<lambda>t. tx_key t \<notin> keys_of (transactions (de_block A data))) (unconfirmed_queue p))"
proof -
  obtain r u d where
    st: "settle (keys_of (transactions (de_block A data))) (unconfirmed_queue p) = (r, u, d)"
    by (metis prod_cases3)
  from confirm_transactions_settle [OF st] settle_drains [OF st assms] settle_returned [OF st] settle_distinct [OF st]
  show ?thesis by auto
qed

theorem confirm_settles_whole_queue_witness:
  "let A = sample_alpaca (sample_tx 1 5 10)
             (sample_block [sample_tx 1 5 10, create_reward_transaction 0 \<lparr>priv_key = [], pub_key = sample_key 4\<rparr>]);
       p = empty_pool\<lparr>unconfirmed_queue := [sample_tx 1 5 10, sample_tx 2 6 20, sample_tx 1 5 10]\<rparr>
   in submitted_queue (fst (confirm_transactions A p [])) = [sample_tx 2 6 20, sample_tx 1 5 10]"
proof -
  let ?b = "sample_block [sample_tx 1 5 10, create_reward_transaction 0 \<lparr>priv_key = [], pub_key = sample_key 4\<rparr>]"
  let ?A = "sample_alpaca (sample_tx 1 5 10) ?b"
  let ?p = "empty_pool\<lparr>unconfirmed_queue := [sample_tx 1 5 10, sample_tx 2 6 20, sample_tx 1 5 10]\<rparr>"
  have n: "\<not> keys_of (transactions (de_block ?A [])) \<subseteq> keys_of (unconfirmed_queue ?p)"
    by (simp add: tx_key_def sample_tx_def sample_block_def create_reward_transaction_def)
  from confirm_settles_whole_queue [OF n] show ?thesis
    by (simp add: empty_pool_def sample_block_def tx_key_def sample_tx_def create_reward_transaction_def nths_Cons)
qed

text \<open>
  While every key was posted once, a status query is answered from the queues: submitted if the
  key is queued, unconfirmed if it was handed out, and otherwise with what the blockchain says; the
  pool is unchanged.
\<close>

lemma status_query_exact:
  assumes "pool_exact p"
  shows "query_tx_status A ask p data =
    (if de_txkey A data \<in> keys_of (submitted_queue p) then Inr (p, (P_status SUBMITTED, STATUS_GOOD))
     else if de_txkey A data \<in> keys_of (unconfirmed_queue p) then Inr (p, (P_status UNCONFIRMED, STATUS_GOOD))
     else bind_result (ask (de_txkey A data)) (\<lambda>st. Inr (p, (P_status st, STATUS_GOOD))))"
  using assms
  by (simp add: query_tx_status_def uset_contains_key pool_exact_def submitted_keys_def unconfirmed_keys_def
      tx_key_def)

lemma status_query_exact_witness:
  "query_tx_status (sample_alpaca (sample_tx 1 5 10) (sample_block [])) (\<lambda>_. Inr CONFIRMED) empty_pool [] =
     Inr (empty_pool, (P_status CONFIRMED, STATUS_GOOD))"
  using status_query_exact [OF empty_pool_exact, of "sample_alpaca (sample_tx 1 5 10) (sample_block [])"
      "\<lambda>_. Inr CONFIRMED" "[]"]
  by (simp add: empty_pool_def)

text \<open>
  C7. Exactness is kept by every request, provided that a posted transaction has a key that is in
  neither queue.
\<close>

theorem handler_keeps_exactness:
  assumes "pool_exact p"
    and "pool_request_handler A ossl pad ask p req = Inr (p', r)"
    and "msg_type (msg_header req) = POST_TX \<Longrightarrow>
           tx_key (de_tx A (msg_data req)) \<notin> keys_of (submitted_queue p @ unconfirmed_queue p)"
  shows "pool_exact p'"
  using assms(2)
proof (cases rule: pool_handler_cases)
  case pop
  then show ?thesis using pop_transactions_exact [OF assms(1)] by (metis fst_conv)
next
  case add
  then show ?thesis using add_transaction_exact [OF assms(1)] assms(3) by (metis fst_conv)
next
  case confirm
  then show ?thesis using confirm_transactions_exact [OF assms(1)] by (metis fst_conv)
qed (use assms(1) in simp)

theorem handler_keeps_exactness_witness:
  "pool_exact (fst (add_transaction (sample_alpaca (sample_tx 1 5 10) (sample_block [])) accepting_openssl
     (zeros 4) empty_pool []))"
proof -
  let ?A = "sample_alpaca (sample_tx 1 5 10) (sample_block [])"
  let ?r = "add_transaction ?A accepting_openssl (zeros 4) empty_pool []"
  have "pool_request_handler ?A accepting_openssl (zeros 4) (\<lambda>_. Inr UNKNOWN) empty_pool (request POST_TX []) =
      Inr (fst ?r, snd ?r)"
    by (simp add: pool_request_handler_def)
  from handler_keeps_exactness [OF empty_pool_exact this] show ?thesis by (simp add: empty_pool_def)
qed

text \<open>
  The pool does not recognise a repeated transaction: posting one with a valid signature twice is
  answered with success both times and queues it twice, so one pop hands out both copies, although
  the hash set holds one.
\<close>

lemma repeated_post_queued_twice:
  assumes "verify_transaction_signature ossl pad (de_tx A data)"
  shows "let p1 = add_transaction A ossl pad p data; p2 = add_transaction A ossl pad (fst p1) data in
    snd p1 = (P_null, STATUS_GOOD) \<and> snd p2 = (P_null, STATUS_GOOD) \<and>
    submitted_queue (fst p2) = submitted_queue p @ [de_tx A data, de_tx A data] \<and>
    submitted_set (fst p2) = submitted_set (fst p1) \<and>
    (submitted_queue p = [] \<longrightarrow>
       snd (pop_transactions (fst p2) []) = (P_txs [de_tx A data, de_tx A data], STATUS_GOOD))"
  using assms
  by (simp add: add_transaction_def Let_def pop_transactions_eq popped_def BLOCK_SIZE_def uset_insert_def
      uset_contains_def)

lemma repeated_post_queued_twice_witness:
  "let A = sample_alpaca (sample_tx 1 5 10) (sample_block []); ossl = accepting_openssl in
   submitted_queue (fst (add_transaction A ossl (zeros 4)
     (fst (add_transaction A ossl (zeros 4) empty_pool [])) [])) = [sample_tx 1 5 10, sample_tx 1 5 10]"
  using repeated_post_queued_twice
    [of accepting_openssl "zeros 4" "sample_alpaca (sample_tx 1 5 10) (sample_block [])" "[]" empty_pool]
  by (simp add: Let_def empty_pool_def)

text \<open>
  Popping repeatedly hands out the submitted queue from the front, in chunks: after \<open>n\<close> pops the
  chunks joined are its first \<open>n\<close> times 8190 transactions, and the rest is still queued.
\<close>

fun pop_n :: "nat \<Rightarrow> TxPool \<Rightarrow> TxPool \<times> Transaction list list" where
  "pop_n 0 p = (p, [])"
| "pop_n (Suc n) p =
     (case pop_transactions p [] of (p', (P_txs txs, _)) \<Rightarrow>
        (case pop_n n p' of (q, chunks) \<Rightarrow> (q, txs # chunks)))"

lemma pops_hand_out_queue_in_order:
  "concat (snd (pop_n n p)) = take (n * (BLOCK_SIZE - 1)) (submitted_queue p) \<and>
   submitted_queue (fst (pop_n n p)) = drop (n * (BLOCK_SIZE - 1)) (submitted_queue p)"
  by (induction n arbitrary: p)
    (simp_all add: pop_transactions_eq popped_def take_add add.commute case_prod_beta)

end
