(* ===== verification/Base58.thy ===== *)
theory Base58
  imports Chain_Types
begin

text \<open>
  The base-58 codec external/base58/base58.c (\<open>b58enc\<close>, \<open>b58tobin\<close>) and its wrappers in
  src/keys.cpp. Both directions convert a number between base 256 and base 58 digit by digit; the
  reference is the value of a digit list, most significant digit first.
\<close>

section \<open>Positional numbers\<close>

definition horner :: "nat \<Rightarrow> nat list \<Rightarrow> nat" where
  "horner B ds = foldl (\<lambda>v d. B * v + d) 0 ds"

lemma horner_Nil [simp]: "horner B [] = 0"
  by (simp add: horner_def)

lemma horner_snoc [simp]: "horner B (ds @ [d]) = B * horner B ds + d"
  by (simp add: horner_def)

lemma horner_append: "horner B (xs @ ys) = B ^ length ys * horner B xs + horner B ys"
  by (induction ys rule: rev_induct) (simp_all add: append_assoc [symmetric] algebra_simps del: append_assoc)

lemma horner_Cons: "horner B (d # ds) = B ^ length ds * d + horner B ds"
  using horner_append [of B "[d]" ds] horner_snoc [of B "[]" d] by simp

lemma horner_replicate_0 [simp]: "horner B (replicate n 0) = 0"
  by (induction n) (simp_all add: horner_Cons)

lemma horner_less: "\<forall>d\<in>set ds. d < B \<Longrightarrow> horner B ds < B ^ length ds"
proof (induction ds rule: rev_induct)
  case (snoc d ds)
  then have "horner B ds + 1 \<le> B ^ length ds" "d < B" by simp_all
  then have "B * (horner B ds + 1) \<le> B * B ^ length ds" by (intro mult_le_mono2)
  with \<open>d < B\<close> show ?case by simp
qed simp

lemma horner_inj:
  "length xs = length ys \<Longrightarrow> \<forall>d\<in>set xs. d < B \<Longrightarrow> \<forall>d\<in>set ys. d < B \<Longrightarrow> horner B xs = horner B ys \<Longrightarrow> xs = ys"
proof (induction xs arbitrary: ys rule: rev_induct)
  case (snoc x xs)
  then obtain ys' y where ys: "ys = ys' @ [y]" by (metis length_0_conv rev_exhaust snoc_eq_iff_butlast)
  have eq: "B * horner B xs + x = B * horner B ys' + y" using snoc.prems by (simp add: ys)
  have "x = y" using arg_cong [OF eq, of "\<lambda>n. n mod B"] snoc.prems by (simp add: ys)
  moreover have "horner B xs = horner B ys'" using eq \<open>x = y\<close> snoc.prems(2) by auto
  ultimately show ?case using snoc by (simp add: ys)
qed simp

text \<open>Leading zeros do not count; what remains starts with another digit.\<close>

lemma split_zeros:
  obtains rest where "ds = replicate (length (takeWhile (\<lambda>d. d = z) ds)) z @ rest"
    and "dropWhile (\<lambda>d. d = z) ds = rest" and "rest \<noteq> [] \<Longrightarrow> hd rest \<noteq> z"
proof
  have "takeWhile (\<lambda>d. d = z) ds = replicate (length (takeWhile (\<lambda>d. d = z) ds)) z"
    by (intro replicate_eqI refl) (auto dest: set_takeWhileD)
  then show "ds = replicate (length (takeWhile (\<lambda>d. d = z) ds)) z @ dropWhile (\<lambda>d. d = z) ds"
    using takeWhile_dropWhile_id [of "\<lambda>d. d = z" ds] by simp
  show "dropWhile (\<lambda>d. d = z) ds \<noteq> [] \<Longrightarrow> hd (dropWhile (\<lambda>d. d = z) ds) \<noteq> z"
    by (rule hd_dropWhile) simp
qed simp

lemma horner_dropWhile_0: "horner B (dropWhile (\<lambda>d. d = 0) ds) = horner B ds"
proof (rule split_zeros [of ds 0])
  fix rest assume "ds = replicate (length (takeWhile (\<lambda>d. d = 0) ds)) 0 @ rest" "dropWhile (\<lambda>d. d = 0) ds = rest"
  then show ?thesis using horner_append [of B "replicate (length (takeWhile (\<lambda>d. d = 0) ds)) 0" rest] by simp
qed

definition bytes_value :: "byte list \<Rightarrow> nat" where
  "bytes_value bs = horner 256 (map unat bs)"

lemma unat_byte_less [simp]: "unat (b :: byte) < 256"
  using unsigned_less [of b, where 'a = nat] by simp

lemma bytes_value_less: "bytes_value bs < 256 ^ length bs"
  using horner_less [of "map unat bs" 256] by (simp add: bytes_value_def)

lemma bytes_value_inj: "length as = length bs \<Longrightarrow> bytes_value as = bytes_value bs \<Longrightarrow> as = bs"
  unfolding bytes_value_def
  using horner_inj [of "map unat as" "map unat bs" 256] by (auto simp: list_eq_iff_nth_eq word_unat_eq_iff)

section \<open>Encoding\<close>

definition b58digits_ordered :: string where
  "b58digits_ordered = ''123456789ABCDEFGHJKLMNPQRSTUVWXYZabcdefghijkmnopqrstuvwxyz''"

text \<open>
  The inner loop of \<open>b58enc\<close>: it multiplies the number in \<open>buf\<close> by 256 and adds \<open>carry\<close>, from the last
  digit to the left, and stops when no carry is left and it has passed \<open>high\<close>, left of which all digits
  are 0. \<open>buf[-1]\<close> would be outside of the buffer.
\<close>

function carry_loop :: "byte list \<Rightarrow> int \<Rightarrow> int \<Rightarrow> nat \<Rightarrow> (byte list \<times> int) result" where
  "carry_loop buf high j carry =
     (if j > high \<or> carry \<noteq> 0
      then if j < 0 then Inl (Undefined ''buf index'')
           else let c = carry + 256 * unat (buf ! nat j)
                in carry_loop (buf[nat j := of_nat (c mod 58)]) high (j - 1) (c div 58)
      else Inr (buf, j))"
  by pat_completeness auto
termination
  by (relation "measure (\<lambda>(buf, high, j, carry). nat (j + 1))") auto

declare carry_loop.simps [simp del]

fun enc_loop :: "byte list \<Rightarrow> int \<Rightarrow> byte list \<Rightarrow> byte list result" where
  "enc_loop buf high [] = Inr buf"
| "enc_loop buf high (b # bs) =
     bind_result (carry_loop buf high (int (length buf) - 1) (unat b)) (\<lambda>(buf', j). enc_loop buf' j bs)"

text \<open>
  \<open>b58enc\<close> with an output buffer of \<open>b58sz\<close> characters: \<open>false\<close> with the size it needs, or the string
  it writes. \<open>carry\<close> never reaches 256 * 58, so an \<open>int\<close> holds it.
\<close>

definition b58enc :: "nat \<Rightarrow> byte list \<Rightarrow> (nat + string) result" where
  "b58enc b58sz bin =
     (let zcount = length (takeWhile (\<lambda>b. b = 0) bin);
          size = (length bin - zcount) * 138 div 100 + 1
      in bind_result (enc_loop (zeros size) (int size - 1) (drop zcount bin))
           (\<lambda>buf. let j = length (takeWhile (\<lambda>b. b = 0) buf)
             in if b58sz \<le> zcount + size - j then Inr (Inl (zcount + size - j + 1))
                else Inr (Inr (replicate zcount (CHR ''1'') @ map (\<lambda>d. b58digits_ordered ! unat d) (drop j buf)))))"

section \<open>Decoding\<close>

definition b58digits_map :: "int list" where
  "b58digits_map =
     [-1, -1, -1, -1, -1, -1, -1, -1, -1, -1, -1, -1, -1, -1, -1, -1, -1, -1, -1,
      -1, -1, -1, -1, -1, -1, -1, -1, -1, -1, -1, -1, -1, -1, -1, -1, -1, -1, -1,
      -1, -1, -1, -1, -1, -1, -1, -1, -1, -1, -1, 0, 1, 2, 3, 4, 5, 6, 7,
      8, -1, -1, -1, -1, -1, -1, -1, 9, 10, 11, 12, 13, 14, 15, 16, -1, 17, 18,
      19, 20, 21, -1, 22, 23, 24, 25, 26, 27, 28, 29, 30, 31, 32, -1, -1, -1, -1,
      -1, -1, 33, 34, 35, 36, 37, 38, 39, 40, 41, 42, 43, -1, 44, 45, 46, 47, 48,
      49, 50, 51, 52, 53, 54, 55, 56, 57, -1, -1, -1, -1, -1]"

text \<open>
  The inner loop over the 32-bit limbs, from the last to the first: 64-bit products, the carry masked
  and shifted out as the code does.
\<close>

fun limb_loop :: "u32 list \<Rightarrow> u32 \<Rightarrow> nat \<Rightarrow> u32 list \<times> u32" where
  "limb_loop outi c 0 = (outi, c)"
| "limb_loop outi c (Suc j) =
     (let t = (ucast (outi ! j) :: u64) * 58 + ucast c;
          c' = ucast (drop_bit 32 (t AND 0x3f00000000)) :: u32
      in limb_loop (outi[j := ucast (t AND 0xffffffff)]) c' j)"

fun dec_loop :: "u32 \<Rightarrow> u32 list \<Rightarrow> string \<Rightarrow> u32 list option" where
  "dec_loop zeromask outi [] = Some outi"
| "dec_loop zeromask outi (ch # chs) =
     (if of_char ch AND (0x80 :: byte) \<noteq> 0 then None
      else if b58digits_map ! of_char ch = - 1 then None
      else let (outi', c) = limb_loop outi (of_int (b58digits_map ! of_char ch)) (length outi)
           in if c \<noteq> 0 then None
              else if outi' ! 0 AND zeromask \<noteq> 0 then None
              else dec_loop zeromask outi' chs)"

definition limb_bytes :: "u32 \<Rightarrow> byte list" where
  "limb_bytes w =
     [ucast (drop_bit 0x18 w AND 0xff), ucast (drop_bit 0x10 w AND 0xff), ucast (drop_bit 8 w AND 0xff),
      ucast (drop_bit 0 w AND 0xff)]"

text \<open>The \<open>switch\<close> on the bytes of an incomplete first limb, and the complete limbs after it.\<close>

definition write_limbs :: "nat \<Rightarrow> u32 list \<Rightarrow> byte list" where
  "write_limbs bytesleft outi =
     (let w = outi ! 0;
          b2 = ucast (drop_bit 16 (w AND 0xff0000)) :: byte;
          b1 = ucast (drop_bit 8 (w AND 0xff00)) :: byte;
          b0 = ucast (w AND 0xff) :: byte
      in if bytesleft = 3 then b2 # b1 # b0 # concat (map limb_bytes (drop 1 outi))
         else if bytesleft = 2 then b1 # b0 # concat (map limb_bytes (drop 1 outi))
         else if bytesleft = 1 then b0 # concat (map limb_bytes (drop 1 outi))
         else concat (map limb_bytes outi))"

text \<open>
  \<open>b58tobin\<close> for an output of \<open>binsz\<close> bytes: \<open>None\<close> when it returns \<open>false\<close>, else the bytes it writes and
  the value it leaves in \<open>*binszp\<close>. A C string ends at its first null character.
\<close>

definition b58tobin :: "nat \<Rightarrow> string \<Rightarrow> (byte list \<times> nat) option" where
  "b58tobin binsz str =
     (if binsz = 0 then None
      else let b58 = takeWhile (\<lambda>ch. ch \<noteq> CHR 0x00) str;
               outisz = (binsz + 3) div 4;
               bytesleft = binsz mod 4;
               zeromask = (if bytesleft \<noteq> 0 then push_bit (bytesleft * 8) (- 1) else 0 :: u32);
               zerocount = length (takeWhile (\<lambda>ch. ch = CHR ''1'') b58)
           in case dec_loop zeromask (replicate outisz 0) (drop zerocount b58) of
                None \<Rightarrow> None
              | Some outi \<Rightarrow>
                  let bin = write_limbs bytesleft outi;
                      i = length (takeWhile (\<lambda>b. b = 0) bin)
                  in if i < binsz \<and> zerocount > i then None
                     else Some (bin, binsz - i + zerocount))"

section \<open>The wrappers of keys.cpp\<close>

definition base58_encode :: "string \<Rightarrow> byte list \<Rightarrow> string result" where
  "base58_encode what bs =
     bind_result (b58enc 128 bs)
       (\<lambda>r. case r of Inl _ \<Rightarrow> Inl (Runtime_error (''Failed to encode '' @ what)) | Inr encoded \<Rightarrow> Inr encoded)"

definition base58_decode :: "string \<Rightarrow> nat \<Rightarrow> string \<Rightarrow> byte list result" where
  "base58_decode what n str =
     (case b58tobin n str of None \<Rightarrow> Inl (Runtime_error (''Failed to decode '' @ what)) | Some (bs, _) \<Rightarrow> Inr bs)"

definition base58_encode_key :: "Ed25519Key \<Rightarrow> string result" where
  "base58_encode_key key = base58_encode ''key.'' key"

definition base58_decode_key :: "string \<Rightarrow> Ed25519Key result" where
  "base58_decode_key str = base58_decode ''key.'' 32 str"

definition base58_encode_sig :: "Ed25519Signature \<Rightarrow> string result" where
  "base58_encode_sig sig = base58_encode ''signature.'' sig"

definition base58_decode_sig :: "string \<Rightarrow> Ed25519Signature result" where
  "base58_decode_sig str = base58_decode ''signature.'' 64 str"

definition base58_encode_uuid :: "UUID \<Rightarrow> string result" where
  "base58_encode_uuid uuid = base58_encode ''uuid.'' uuid"

definition base58_decode_uuid :: "string \<Rightarrow> UUID result" where
  "base58_decode_uuid str = base58_decode ''uuid.'' 16 str"

lemmas base58_wrapper_defs =
  base58_encode_key_def base58_decode_key_def base58_encode_sig_def base58_decode_sig_def
  base58_encode_uuid_def base58_decode_uuid_def

end
