(* ===== verification/Yaml.thy ===== *)
theory Yaml
  imports Chain_Types
begin

text \<open>
  Documents and files. The yaml-cpp library is third-party: the calls the sources make are the
  fields of a record \<open>yaml\<close> over a type of nodes; a path \<open>[k1, ..., kn]\<close> stands for the chain of
  subscripts \<open>node["k1"]...["kn"]\<close>. What the sources rely on is stated as \<open>yaml_laws\<close>. The file
  system is a map from names to the nodes that \<open>LoadFile\<close> reads from them.
\<close>

section \<open>Decimal numbers\<close>

definition digit_char :: "nat \<Rightarrow> char" where
  "digit_char d = char_of (48 + d)"

text \<open>\<open>std::to_string\<close> of an unsigned integer.\<close>

fun to_string :: "nat \<Rightarrow> string" where
  "to_string n = (if n < 10 then [digit_char n] else to_string (n div 10) @ [digit_char (n mod 10)])"

declare to_string.simps [simp del]

definition is_digit :: "char \<Rightarrow> bool" where
  "is_digit ch \<longleftrightarrow> 48 \<le> (of_char ch :: nat) \<and> (of_char ch :: nat) \<le> 57"

definition decimal :: "string \<Rightarrow> nat" where
  "decimal s = foldl (\<lambda>v ch. 10 * v + (of_char ch - 48)) 0 s"

lemma of_char_digit_char: "d < 10 \<Longrightarrow> of_char (digit_char d) = 48 + d"
  by (simp add: digit_char_def)

lemma is_digit_digit_char: "d < 10 \<Longrightarrow> is_digit (digit_char d)"
  by (simp add: is_digit_def of_char_digit_char)

lemma to_string_digits: "\<forall>ch\<in>set (to_string n). is_digit ch"
  by (induction n rule: to_string.induct) (subst to_string.simps, auto simp: is_digit_digit_char)

lemma to_string_nonempty: "to_string n \<noteq> []"
  by (subst to_string.simps) simp

lemma decimal_to_string [simp]: "decimal (to_string n) = n"
proof (induction n rule: to_string.induct)
  case (1 n)
  show ?case
  proof (cases "n < 10")
    case False
    have "decimal (to_string n) = 10 * decimal (to_string (n div 10)) + n mod 10"
      using False by (subst to_string.simps) (simp add: decimal_def of_char_digit_char)
    then show ?thesis using "1.IH" [OF False] by simp
  qed (subst to_string.simps, simp add: decimal_def of_char_digit_char)
qed

lemma to_string_inj: "to_string m = to_string n \<longleftrightarrow> m = n"
  by (metis decimal_to_string)

section \<open>Nodes\<close>

text \<open>What the sources assign to a node: a string, an unsigned integer or a vector of string maps.\<close>

datatype yvalue = Y_str string | Y_uint nat | Y_maps "(string \<times> string) list list"

text \<open>
  A conversion is \<open>None\<close> when \<open>as<T>()\<close> raises. \<open>y_keys\<close> are the keys of a map node and \<open>y_items\<close> the
  elements of a sequence, in the order in which an iteration visits them. \<open>y_reload\<close> is the node that
  \<open>LoadFile\<close> returns for a file into which a node was written.
\<close>

record 'n yaml =
  y_null :: 'n
  y_as_string :: "'n \<Rightarrow> string list \<Rightarrow> string option"
  y_as_uint32 :: "'n \<Rightarrow> string list \<Rightarrow> u32 option"
  y_as_uint64 :: "'n \<Rightarrow> string list \<Rightarrow> u64 option"
  y_items :: "'n \<Rightarrow> string list \<Rightarrow> 'n list"
  y_keys :: "'n \<Rightarrow> string list"
  y_set :: "'n \<Rightarrow> string list \<Rightarrow> yvalue \<Rightarrow> 'n"
  y_reload :: "'n \<Rightarrow> 'n"

definition as_value :: "'a option \<Rightarrow> 'a result" where
  "as_value v = (case v of None \<Rightarrow> Inl (Runtime_error ''bad conversion'') | Some x \<Rightarrow> Inr x)"

lemma as_value_simps [simp]:
  "as_value None = Inl (Runtime_error ''bad conversion'')" "as_value (Some x) = Inr x"
  by (simp_all add: as_value_def)

lemma as_value_eq_Inr [simp]: "as_value v = Inr x \<longleftrightarrow> v = Some x"
  by (cases v) simp_all

section \<open>What the sources rely on\<close>

text \<open>Paths of which neither is a prefix of the other name different places.\<close>

fun apart :: "string list \<Rightarrow> string list \<Rightarrow> bool" where
  "apart (x # xs) (y # ys) \<longleftrightarrow> x \<noteq> y \<or> apart xs ys"
| "apart _ _ \<longleftrightarrow> False"

definition same_at :: "'n yaml \<Rightarrow> string list \<Rightarrow> 'n \<Rightarrow> 'n \<Rightarrow> bool" where
  "same_at Y p n n' \<longleftrightarrow> y_as_string Y n p = y_as_string Y n' p \<and> y_as_uint32 Y n p = y_as_uint32 Y n' p \<and>
     y_as_uint64 Y n p = y_as_uint64 Y n' p \<and> y_items Y n p = y_items Y n' p"

text \<open>An element of a sequence that was assigned from a vector of string maps.\<close>

definition item_of :: "'n yaml \<Rightarrow> (string \<times> string) list \<Rightarrow> 'n \<Rightarrow> bool" where
  "item_of Y m n \<longleftrightarrow>
     (\<forall>k s. map_of m k = Some s \<longrightarrow> y_as_string Y n [k] = Some s) \<and>
     (\<forall>k i. map_of m k = Some (to_string i) \<longrightarrow>
        y_as_uint32 Y n [k] = (if i < 2 ^ 32 then Some (of_nat i) else None) \<and>
        y_as_uint64 Y n [k] = (if i < 2 ^ 64 then Some (of_nat i) else None))"

definition yaml_laws :: "'n yaml \<Rightarrow> bool" where
  "yaml_laws Y \<longleftrightarrow> y_keys Y (y_null Y) = [] \<and>
     (\<forall>n p s. y_as_string Y (y_set Y n p (Y_str s)) p = Some s) \<and>
     (\<forall>n p i. y_as_uint32 Y (y_set Y n p (Y_uint i)) p = (if i < 2 ^ 32 then Some (of_nat i) else None)) \<and>
     (\<forall>n p i. y_as_uint64 Y (y_set Y n p (Y_uint i)) p = (if i < 2 ^ 64 then Some (of_nat i) else None)) \<and>
     (\<forall>n p ms. list_all2 (item_of Y) ms (y_items Y (y_set Y n p (Y_maps ms)) p)) \<and>
     (\<forall>n p q v. apart p q \<longrightarrow> same_at Y q (y_set Y n p v) n) \<and>
     (\<forall>n k p v. y_keys Y (y_set Y n (k # p) v) = (if k \<in> set (y_keys Y n) then y_keys Y n else y_keys Y n @ [k])) \<and>
     (\<forall>n p. same_at Y p (y_reload Y n) n) \<and>
     (\<forall>n. y_keys Y (y_reload Y n) = y_keys Y n)"

section \<open>Files\<close>

type_synonym 'n files = "string \<Rightarrow> 'n option"

definition LoadFile :: "'n files \<Rightarrow> string \<Rightarrow> 'n result" where
  "LoadFile fs name = (case fs name of None \<Rightarrow> Inl (Runtime_error ''bad file'') | Some n \<Rightarrow> Inr n)"

text \<open>\<open>std::ofstream fout(name); fout << node\<close>.\<close>

definition write_file :: "'n yaml \<Rightarrow> string \<Rightarrow> 'n \<Rightarrow> 'n files \<Rightarrow> 'n files" where
  "write_file Y name n fs = fs(name \<mapsto> y_reload Y n)"

lemma LoadFile_write_file [simp]:
  "LoadFile (write_file Y name n fs) name' = (if name' = name then Inr (y_reload Y n) else LoadFile fs name')"
  by (simp add: LoadFile_def write_file_def)

lemma LoadFile_Some: "fs name = Some n \<Longrightarrow> LoadFile fs name = Inr n"
  by (simp add: LoadFile_def)

section \<open>A concrete instance\<close>

text \<open>
  Nodes as association lists from paths to values, on which witnesses evaluate; a later entry for a
  path stands in front of an earlier one.
\<close>

type_synonym snode = "(string list \<times> yvalue) list"

definition snode_value :: "snode \<Rightarrow> string list \<Rightarrow> yvalue option" where
  "snode_value n p = map_of n p"

definition parse_uint :: "nat \<Rightarrow> yvalue \<Rightarrow> nat option" where
  "parse_uint w v =
     (case v of
        Y_uint i \<Rightarrow> if i < 2 ^ w then Some i else None
      | Y_str s \<Rightarrow> if s \<noteq> [] \<and> (\<forall>ch\<in>set s. is_digit ch) \<and> decimal s < 2 ^ w then Some (decimal s) else None
      | Y_maps _ \<Rightarrow> None)"

definition sample_yaml :: "snode yaml" where
  "sample_yaml =
     \<lparr>y_null = [], y_as_string = (\<lambda>n p. case snode_value n p of Some (Y_str s) \<Rightarrow> Some s | Some (Y_uint i) \<Rightarrow> Some (to_string i) | _ \<Rightarrow> None),
      y_as_uint32 = (\<lambda>n p. map_option of_nat (Option.bind (snode_value n p) (parse_uint 32))),
      y_as_uint64 = (\<lambda>n p. map_option of_nat (Option.bind (snode_value n p) (parse_uint 64))),
      y_items = (\<lambda>n p. case snode_value n p of Some (Y_maps ms) \<Rightarrow> map (map (\<lambda>(k, s). ([k], Y_str s))) ms | _ \<Rightarrow> []),
      y_keys = (\<lambda>n. rev (remdups (concat (map (\<lambda>(p, v). take 1 p) n)))),
      y_set = (\<lambda>n p v. (p, v) # n),
      y_reload = (\<lambda>n. n)\<rparr>"

lemma sample_yaml_sel [simp]:
  "y_null sample_yaml = []"
  "y_as_string sample_yaml n p = (case map_of n p of Some (Y_str s) \<Rightarrow> Some s | Some (Y_uint i) \<Rightarrow> Some (to_string i) | _ \<Rightarrow> None)"
  "y_as_uint32 sample_yaml n p = map_option of_nat (Option.bind (map_of n p) (parse_uint 32))"
  "y_as_uint64 sample_yaml n p = map_option of_nat (Option.bind (map_of n p) (parse_uint 64))"
  "y_items sample_yaml n p = (case map_of n p of Some (Y_maps ms) \<Rightarrow> map (map (\<lambda>(k, s). ([k], Y_str s))) ms | _ \<Rightarrow> [])"
  "y_keys sample_yaml n = rev (remdups (concat (map (\<lambda>(p, v). take 1 p) n)))"
  "y_set sample_yaml n p v = (p, v) # n"
  "y_reload sample_yaml n = n"
  by (simp_all add: sample_yaml_def snode_value_def)

lemma map_of_item: "map_of (map (\<lambda>(k, s). ([k], Y_str s)) m) [k] = map_option Y_str (map_of m k)"
  by (induction m) auto

lemma parse_to_string: "parse_uint w (Y_str (to_string i)) = (if i < 2 ^ w then Some i else None)"
  using to_string_digits [of i] to_string_nonempty [of i] by (simp add: parse_uint_def)

lemma sample_item_of: "item_of sample_yaml m (map (\<lambda>(k, s). ([k], Y_str s)) m)"
  by (simp add: item_of_def map_of_item parse_to_string)

lemma apart_neq: "apart p q \<Longrightarrow> p \<noteq> q"
  by (induction p q rule: apart.induct) auto

lemma sample_yaml_laws: "yaml_laws sample_yaml"
  unfolding yaml_laws_def
proof (intro conjI allI impI)
  show "list_all2 (item_of sample_yaml) ms (y_items sample_yaml (y_set sample_yaml n p (Y_maps ms)) p)" for n p ms
    by (simp add: list_all2_conv_all_nth sample_item_of)
  show "same_at sample_yaml q (y_set sample_yaml n p v) n" if "apart p q" for n p q v
    using apart_neq [OF that] by (auto simp: same_at_def)
  show "same_at sample_yaml p (y_reload sample_yaml n) n" for n p by (simp add: same_at_def)
qed (simp_all add: parse_uint_def)

end
