(* ===== verification/BlockChain.thy ===== *)
theory BlockChain
  imports Containers Base58 Yaml Server
begin

text \<open>
  The blockchain node of src/blockchain.cpp: the list of blocks, the ledger (an unordered map from
  keys to 32-bit balances) and the YAML document with all blocks that it rewrites with every new one.
  \<open>add_block\<close> runs under \<open>blockmutex\<close>; the queries take no lock, so their model is their answer when
  no block is being added.
\<close>

section \<open>State\<close>

type_synonym Ledger = "(Ed25519Key \<times> u32) list"

text \<open>\<open>disk\<close> is the file system that the node writes its chain to.\<close>

record 'n BlockChain =
  file_name :: string
  blocks :: "Block list"
  ledger :: Ledger
  stored_chain :: 'n
  disk :: "'n files"

section \<open>Balances\<close>

text \<open>
  One round of the loop of \<open>sync_bal\<close>. \<open>srcbal\<close> and \<open>dstbal\<close> are looked up before the destination is
  credited, but \<open>srcbal->second\<close> is read after that, in the entry as it then is. A source that had no
  entry is emplaced, which does nothing when crediting the destination has just added its entry.
\<close>

definition sync_one :: "Ledger \<Rightarrow> Transaction \<Rightarrow> Ledger result" where
  "sync_one l t =
     (let src_found = (map_of l (src t) \<noteq> None);
          l1 = (case map_of l (dest t) of
                  Some bal \<Rightarrow> umap_assign (dest t) (bal + amount t) l
                | None \<Rightarrow> umap_emplace (dest t) (amount t) l)
      in bind_result (base58_encode_key (src t)) (\<lambda>text.
           if text = ''11111111111111111111111111111111'' then Inr l1
           else if src_found then Inr (umap_assign (src t) (the (map_of l1 (src t)) - amount t) l1)
           else Inr (umap_emplace (src t) (- amount t) l1)))"

fun sync_txs :: "Ledger \<Rightarrow> Transaction list \<Rightarrow> Ledger result" where
  "sync_txs l [] = Inr l"
| "sync_txs l (t # ts) = bind_result (sync_one l t) (\<lambda>l'. sync_txs l' ts)"

definition sync_bal :: "'n BlockChain \<Rightarrow> Block \<Rightarrow> 'n BlockChain result" where
  "sync_bal bc b = bind_result (sync_txs (ledger bc) (transactions b)) (\<lambda>l. Inr (bc\<lparr>ledger := l\<rparr>))"

section \<open>The chain on disk\<close>

definition stored_tx :: "Transaction \<Rightarrow> (string \<times> string) list result" where
  "stored_tx t =
     bind_result (base58_encode_key (src t)) (\<lambda>s.
     bind_result (base58_encode_key (dest t)) (\<lambda>d.
     bind_result (base58_encode_sig (signature t)) (\<lambda>g.
       Inr [(''src'', s), (''dest'', d), (''signature'', g), (''id'', to_string (unat (tx_id t))),
            (''amount'', to_string (unat (amount t))), (''timestamp'', to_string (unat (tx_timestamp t)))])))"

definition block_name :: "u32 \<Rightarrow> string" where
  "block_name i = ''Block'' @ to_string (unat i)"

text \<open>The field \<open>prev_hash\<close> is written from \<open>hash\<close>, as in the source.\<close>

definition write_block :: "'n yaml \<Rightarrow> 'n BlockChain \<Rightarrow> Block \<Rightarrow> 'n BlockChain result" where
  "write_block Y bc b =
     (let name = block_name (hdr_id (header b)); hdr = header b in
      bind_result (base58_encode_uuid (fingerprint (input hdr))) (\<lambda>fp.
      bind_result (base58_encode_key (public_key (input hdr))) (\<lambda>pk.
      bind_result (base58_encode_key (hash hdr)) (\<lambda>h.
      bind_result (base58_encode_key (hash hdr)) (\<lambda>ph.
      bind_result (map_result stored_tx (transactions b)) (\<lambda>txs.
        let n0 = stored_chain bc;
            n1 = y_set Y n0 [name, ''header'', ''input'', ''fingerprint''] (Y_str fp);
            n2 = y_set Y n1 [name, ''header'', ''input'', ''publickey''] (Y_str pk);
            n3 = y_set Y n2 [name, ''header'', ''input'', ''nonce''] (Y_uint (unat (nonce (input hdr))));
            n4 = y_set Y n3 [name, ''header'', ''hash''] (Y_str h);
            n5 = y_set Y n4 [name, ''header'', ''prev_hash''] (Y_str ph);
            n6 = y_set Y n5 [name, ''header'', ''difficulty''] (Y_uint (unat (difficulty hdr)));
            n7 = y_set Y n6 [name, ''header'', ''timestamp''] (Y_uint (unat (timestamp hdr)));
            n8 = y_set Y n7 [name, ''header'', ''id''] (Y_uint (unat (hdr_id hdr)));
            n9 = y_set Y n8 [name, ''transactions''] (Y_maps txs)
        in Inr (bc\<lparr>stored_chain := n9, disk := write_file Y (file_name bc) n9 (disk bc)\<rparr>)))))))"

text \<open>Reading it back; \<open>tx.id\<close> is read as a 32-bit number.\<close>

definition key_at :: "'n yaml \<Rightarrow> 'n \<Rightarrow> string list \<Rightarrow> Ed25519Key result" where
  "key_at Y n p = bind_result (as_value (y_as_string Y n p)) base58_decode_key"

definition load_tx :: "'n yaml \<Rightarrow> 'n \<Rightarrow> Transaction result" where
  "load_tx Y iter =
     bind_result (key_at Y iter [''src'']) (\<lambda>s.
     bind_result (key_at Y iter [''dest'']) (\<lambda>d.
     bind_result (as_value (y_as_uint32 Y iter [''amount''])) (\<lambda>a.
     bind_result (bind_result (as_value (y_as_string Y iter [''signature''])) base58_decode_sig) (\<lambda>g.
     bind_result (as_value (y_as_uint64 Y iter [''timestamp''])) (\<lambda>ts.
     bind_result (as_value (y_as_uint32 Y iter [''id''])) (\<lambda>i.
       Inr \<lparr>src = s, dest = d, signature = g, tx_id = ucast i, amount = a, tx_timestamp = ts\<rparr>))))))"

text \<open>\<open>header.id\<close> is not read: it keeps the value \<open>junk\<close> of the uninitialised variable.\<close>

definition load_block :: "'n yaml \<Rightarrow> u32 \<Rightarrow> 'n \<Rightarrow> string \<Rightarrow> Block result" where
  "load_block Y junk n name =
     bind_result (key_at Y n [name, ''header'', ''hash'']) (\<lambda>h.
     bind_result (key_at Y n [name, ''header'', ''prev_hash'']) (\<lambda>ph.
     bind_result (as_value (y_as_uint32 Y n [name, ''header'', ''difficulty''])) (\<lambda>d.
     bind_result (as_value (y_as_uint64 Y n [name, ''header'', ''timestamp''])) (\<lambda>ts.
     bind_result (bind_result (as_value (y_as_string Y n [name, ''header'', ''input'', ''fingerprint'']))
                    base58_decode_uuid) (\<lambda>fp.
     bind_result (key_at Y n [name, ''header'', ''input'', ''publickey'']) (\<lambda>pk.
     bind_result (as_value (y_as_uint64 Y n [name, ''header'', ''input'', ''nonce''])) (\<lambda>nc.
     bind_result (map_result (load_tx Y) (y_items Y n [name, ''transactions''])) (\<lambda>txs.
       Inr \<lparr>header = \<lparr>input = \<lparr>fingerprint = fp, public_key = pk, nonce = nc\<rparr>, hash = h, prev_hash = ph,
                      difficulty = d, timestamp = ts, hdr_id = junk\<rparr>,
            transactions = txs\<rparr>))))))))"

text \<open>
  The loop of \<open>start\<close> over the entries of the stored chain; it ends at a name without \<open>Block\<close>. Each round has
  its own uninitialised id; the model gives them all the same arbitrary value.
\<close>

fun load_blocks :: "'n yaml \<Rightarrow> u32 \<Rightarrow> 'n BlockChain \<Rightarrow> string list \<Rightarrow> 'n BlockChain result" where
  "load_blocks Y junk bc [] = Inr bc"
| "load_blocks Y junk bc (name # names) =
     (if find_str ''Block'' name = None then Inr bc
      else bind_result (load_block Y junk (stored_chain bc) name) (\<lambda>b.
           bind_result (sync_bal (bc\<lparr>blocks := blocks bc @ [b]\<rparr>) b) (\<lambda>bc'.
             load_blocks Y junk bc' names)))"

text \<open>\<open>get_genesis_block\<close> of config.cpp reads the file \<open>GENESIS_FILE\<close>, whatever its argument.\<close>

definition GENESIS_FILE :: string where
  "GENESIS_FILE = ''genesis.yaml''"

definition genesis_tx :: "'n yaml \<Rightarrow> 'n \<Rightarrow> Transaction result" where
  "genesis_tx Y iter =
     bind_result (key_at Y iter [''src'']) (\<lambda>s.
     bind_result (key_at Y iter [''dest'']) (\<lambda>d.
     bind_result (as_value (y_as_uint32 Y iter [''amount''])) (\<lambda>a.
       Inr \<lparr>src = s, dest = d, signature = zeros 64, tx_id = 0, amount = a, tx_timestamp = 0\<rparr>)))"

definition get_genesis_block :: "'n yaml \<Rightarrow> 'n files \<Rightarrow> Block result" where
  "get_genesis_block Y fs =
     bind_result (LoadFile fs GENESIS_FILE) (\<lambda>config.
     bind_result (key_at Y config [''header'', ''hash'']) (\<lambda>h.
     bind_result (key_at Y config [''header'', ''prev_hash'']) (\<lambda>ph.
     bind_result (as_value (y_as_uint32 Y config [''header'', ''difficulty''])) (\<lambda>d.
     bind_result (as_value (y_as_uint64 Y config [''header'', ''timestamp''])) (\<lambda>ts.
     bind_result (as_value (y_as_uint32 Y config [''header'', ''id''])) (\<lambda>i.
     bind_result (map_result (genesis_tx Y) (y_items Y config [''transactions''])) (\<lambda>txs.
       Inr \<lparr>header = \<lparr>input = zero_HashInput, hash = h, prev_hash = ph, difficulty = d, timestamp = ts,
                      hdr_id = i\<rparr>,
            transactions = txs\<rparr>)))))))"

definition load_genesis :: "'n yaml \<Rightarrow> 'n BlockChain \<Rightarrow> 'n BlockChain result" where
  "load_genesis Y bc =
     bind_result (get_genesis_block Y (disk bc)) (\<lambda>genesis.
       sync_bal (bc\<lparr>blocks := blocks bc @ [genesis]\<rparr>) genesis)"

text \<open>The constructor and \<open>start\<close>, without the server that \<open>start\<close> launches.\<close>

definition new_BlockChain :: "'n yaml \<Rightarrow> 'n files \<Rightarrow> string \<Rightarrow> 'n BlockChain result" where
  "new_BlockChain Y fs config_file =
     bind_result (LoadFile fs config_file) (\<lambda>config.
     bind_result (as_value (y_as_string Y config [''blockchain'', ''file''])) (\<lambda>name.
     bind_result (if name \<noteq> [] then LoadFile fs name else Inr (y_null Y)) (\<lambda>n.
       Inr \<lparr>file_name = name, blocks = [], ledger = [], stored_chain = n, disk = fs\<rparr>)))"

definition start_chain :: "'n yaml \<Rightarrow> u32 \<Rightarrow> 'n BlockChain \<Rightarrow> 'n BlockChain result" where
  "start_chain Y junk bc =
     bind_result (load_genesis Y bc) (\<lambda>bc1.
       if file_name bc1 \<noteq> [] then load_blocks Y junk bc1 (y_keys Y (stored_chain bc1))
       else Inr (bc1\<lparr>file_name := ''blockchain.yaml''\<rparr>))"

section \<open>Handlers\<close>

text \<open>
  \<open>confirm\<close> is the round trip to the pool that follows the reply: the block goes out in a
  \<open>CONFIRM_BLOCK\<close> request, and receiving the answer may raise. The exception then ends the thread of the
  request, and what the block has changed before is not part of the result here.
\<close>

definition add_block :: "alpaca \<Rightarrow> 'n yaml \<Rightarrow> (Block \<Rightarrow> unit result) \<Rightarrow> 'n BlockChain \<Rightarrow> byte list \<Rightarrow> 'n BlockChain handled" where
  "add_block A Y confirm bc data =
     (let block = de_block A data; bc1 = bc\<lparr>blocks := blocks bc @ [block]\<rparr>
      in bind_result (sync_bal bc1 block) (\<lambda>bc2.
         bind_result (write_block Y bc2 block) (\<lambda>bc3.
         bind_result (confirm block) (\<lambda>_. Inr (bc3, (P_null, STATUS_GOOD))))))"

definition get_balance :: "alpaca \<Rightarrow> 'n BlockChain \<Rightarrow> byte list \<Rightarrow> 'n BlockChain \<times> reply" where
  "get_balance A bc data =
     (let balance = (case map_of (ledger bc) (de_key A data) of None \<Rightarrow> 0 | Some v \<Rightarrow> v)
      in (bc, (P_uint32 balance, STATUS_GOOD)))"

definition last_block :: "'n BlockChain \<Rightarrow> byte list \<Rightarrow> 'n BlockChain handled" where
  "last_block bc data =
     (if blocks bc = [] then Inl (Undefined ''back of an empty vector'')
      else Inr (bc, (P_header (header (last (blocks bc))), STATUS_GOOD)))"

fun status_in_txs :: "Ed25519Key \<times> u64 \<Rightarrow> Transaction list \<Rightarrow> bool" where
  "status_in_txs key [] = False"
| "status_in_txs key (t # ts) = (if src t = fst key \<and> tx_id t = snd key then True else status_in_txs key ts)"

fun status_in_blocks :: "Ed25519Key \<times> u64 \<Rightarrow> Block list \<Rightarrow> Status" where
  "status_in_blocks key [] = UNKNOWN"
| "status_in_blocks key (b # bs) =
     (if status_in_txs key (transactions b) then CONFIRMED else status_in_blocks key bs)"

definition tx_status :: "alpaca \<Rightarrow> 'n BlockChain \<Rightarrow> byte list \<Rightarrow> 'n BlockChain \<times> reply" where
  "tx_status A bc data = (bc, (P_status (status_in_blocks (de_txkey A data) (blocks bc)), STATUS_GOOD))"

definition get_num_addr :: "'n BlockChain \<Rightarrow> byte list \<Rightarrow> 'n BlockChain \<times> reply" where
  "get_num_addr bc data = (bc, (P_int (of_nat (length (ledger bc))), STATUS_GOOD))"

definition get_total_coins :: "'n BlockChain \<Rightarrow> byte list \<Rightarrow> 'n BlockChain \<times> reply" where
  "get_total_coins bc data = (bc, (P_int (foldl (\<lambda>s e. s + snd e) 0 (ledger bc)), STATUS_GOOD))"

definition chain_request_handler ::
  "alpaca \<Rightarrow> 'n yaml \<Rightarrow> (Block \<Rightarrow> unit result) \<Rightarrow> 'n BlockChain \<Rightarrow> Message \<Rightarrow> 'n BlockChain handled" where
  "chain_request_handler A Y confirm bc req =
     (case msg_type (msg_header req) of
        QUERY_BAL \<Rightarrow> Inr (get_balance A bc (msg_data req))
      | SUBMIT_BLOCK \<Rightarrow> add_block A Y confirm bc (msg_data req)
      | QUERY_LAST_BLOCK \<Rightarrow> last_block bc (msg_data req)
      | QUERY_TX_STATUS \<Rightarrow> Inr (tx_status A bc (msg_data req))
      | QUERY_NUM_ADDRS \<Rightarrow> Inr (get_num_addr bc (msg_data req))
      | QUERY_COINS \<Rightarrow> Inr (get_total_coins bc (msg_data req))
      | _ \<Rightarrow> Inl (Runtime_error ''Unknown message type.''))"

end
