(* ===== verification/Base58_Correct.thy ===== *)
theory Base58_Correct
  imports Base58
begin

text \<open>
  Correctness of the base-58 codec: the digit buffer of the encoder never overflows and holds the
  number of the input, the limbs of the decoder hold the number of the digits, and decoding an
  encoded key, signature or fingerprint gives it back.
\<close>

section \<open>The buffer is large enough\<close>

lemma enough_digits: "256 ^ n < (58::nat) ^ (n * 138 div 100 + 1)"
proof -
  let ?m = "n * 138 div 100 + 1"
  have "69 * n < 50 * ?m"
  proof -
    define q r where "q = n * 138 div 100" and "r = n * 138 mod 100"
    have "100 * q + r = n * 138" "r < 100" unfolding q_def r_def by (simp_all only: mult_div_mod_eq)
    then show ?thesis unfolding q_def [symmetric] by presburger
  qed
  have base: "(256::nat) ^ 50 \<le> 58 ^ 69" by simp
  have "((256::nat) ^ n) ^ 50 = (256 ^ 50) ^ n" by (simp only: power_mult [symmetric] mult.commute)
  also have "\<dots> \<le> (58 ^ 69) ^ n" by (rule power_mono [OF base]) simp
  also have "\<dots> = 58 ^ (69 * n)" by (simp only: power_mult)
  also have "\<dots> < 58 ^ (50 * ?m)" using \<open>69 * n < 50 * ?m\<close> by (intro power_strict_increasing) auto
  also have "\<dots> = (58 ^ ?m) ^ 50" by (simp only: power_mult [symmetric] mult.commute)
  finally show ?thesis by (rule power_less_imp_less_base) simp
qed

section \<open>The encoder's loops\<close>

abbreviation val58 :: "byte list \<Rightarrow> nat" where
  "val58 ds \<equiv> horner 58 (map unat ds)"

text \<open>What the digits of the buffer satisfy: they are below 58, and 0 up to \<open>high\<close>.\<close>

definition buf_ok :: "byte list \<Rightarrow> int \<Rightarrow> bool" where
  "buf_ok buf high \<longleftrightarrow> (\<forall>d\<in>set buf. unat d < 58) \<and> - 1 \<le> high \<and>
     (\<forall>i<length buf. int i \<le> high \<longrightarrow> buf ! i = 0)"

lemma buf_ok_zeros: "buf_ok (zeros n) (int n - 1)"
  by (simp add: buf_ok_def zeros_def)

lemma buf_ok_zero_prefix:
  assumes "buf_ok buf high" "j \<le> high" "nat (j + 1) \<le> length buf"
  shows "take (nat (j + 1)) buf = zeros (nat (j + 1))"
  using assms by (auto simp: buf_ok_def zeros_def intro!: nth_equalityI)

lemma carry_loop_correct:
  assumes "\<forall>d\<in>set buf. unat d < 58" "- 1 \<le> j" "j < int (length buf)" "- 1 \<le> high"
    and "\<forall>i<length buf. int i \<le> high \<longrightarrow> int i \<le> j \<longrightarrow> buf ! i = 0"
    and "val58 (take (nat (j + 1)) buf) * 256 + carry < 58 ^ nat (j + 1)"
  shows "\<exists>buf' j'. carry_loop buf high j carry = Inr (buf', j') \<and> length buf' = length buf \<and>
    val58 (take (nat (j + 1)) buf') = val58 (take (nat (j + 1)) buf) * 256 + carry \<and>
    drop (nat (j + 1)) buf' = drop (nat (j + 1)) buf \<and> buf_ok buf' j' \<and> j' \<le> j"
  using assms
proof (induction buf high j carry rule: carry_loop.induct)
  case (1 buf high j carry)
  show ?case
  proof (cases "high < j \<or> carry \<noteq> 0")
    case False
    then have z: "\<forall>i<length buf. int i \<le> j \<longrightarrow> buf ! i = 0" using "1.prems"(5) by auto
    then have ok: "buf_ok buf j" using "1.prems" by (simp add: buf_ok_def)
    have "take (nat (j + 1)) buf = zeros (nat (j + 1))"
      using buf_ok_zero_prefix [OF ok, of j] "1.prems"(3) by simp
    then have "val58 (take (nat (j + 1)) buf) = 0" by (simp add: zeros_def)
    then show ?thesis using False ok by (subst carry_loop.simps) simp
  next
    case True
    have "0 \<le> j"
      using True "1.prems"(2,4,6) by (cases "j = - 1") auto
    define k where "k = nat j"
    have k: "j = int k" "k < length buf" using \<open>0 \<le> j\<close> "1.prems"(3) by (simp_all add: k_def)
    let ?d = "buf ! k"
    let ?c = "carry + 256 * unat ?d"
    let ?buf = "buf[k := of_nat (?c mod 58)]"
    let ?V = "val58 (take k buf)"
    have dig: "unat (of_nat (?c mod 58) :: byte) = ?c mod 58"
      by (simp add: unsigned_of_nat take_bit_eq_mod mod_less_divisor [THEN less_trans])
    have take_Suc: "take (Suc k) xs = take k xs @ [xs ! k]" if "length xs = length buf" for xs :: "byte list"
      using that k by (simp add: take_Suc_conv_app_nth)
    have bound: "(?V * 256 + ?c div 58) * 58 + ?c mod 58 < 58 ^ k * 58"
      using "1.prems"(6) by (simp add: k take_Suc nat_add_distrib algebra_simps)
    then have bound': "?V * 256 + ?c div 58 < 58 ^ k" by simp
    have "\<exists>buf' j'. carry_loop ?buf high (j - 1) (?c div 58) = Inr (buf', j') \<and> length buf' = length ?buf \<and>
        val58 (take (nat (j - 1 + 1)) buf') = val58 (take (nat (j - 1 + 1)) ?buf) * 256 + ?c div 58 \<and>
        drop (nat (j - 1 + 1)) buf' = drop (nat (j - 1 + 1)) ?buf \<and> buf_ok buf' j' \<and> j' \<le> j - 1"
    proof (rule "1.IH" [OF True, of ?c, unfolded k_def [symmetric]])
      show "\<forall>d\<in>set ?buf. unat d < 58"
        using "1.prems"(1) dig set_update_subset_insert [of buf k "of_nat (?c mod 58)"] by fastforce
      show "val58 (take (nat (j - 1 + 1)) ?buf) * 256 + ?c div 58 < 58 ^ nat (j - 1 + 1)"
        using bound' by (simp add: k)
    qed (use \<open>0 \<le> j\<close> "1.prems" k in auto)
    then obtain buf' j' where r: "carry_loop ?buf high (j - 1) (?c div 58) = Inr (buf', j')"
      "length buf' = length buf" "val58 (take k buf') = ?V * 256 + ?c div 58"
      "drop k buf' = drop k ?buf" "buf_ok buf' j'" "j' \<le> j - 1"
      by (auto simp: k)
    have "buf' ! k = of_nat (?c mod 58)" "drop (Suc k) buf' = drop (Suc k) buf"
      using r(2,4) k(2) by (simp_all add: Cons_nth_drop_Suc [symmetric])
    then have "val58 (take (Suc k) buf') = val58 (take (Suc k) buf) * 256 + carry"
      using r(2,3) dig mult_div_mod_eq [of 58 ?c] by (simp add: take_Suc algebra_simps)
    moreover have "carry_loop buf high j carry = Inr (buf', j')"
      using True \<open>0 \<le> j\<close> r(1) by (subst carry_loop.simps) (simp add: Let_def k)
    ultimately show ?thesis
      using r(2,5,6) \<open>drop (Suc k) buf' = drop (Suc k) buf\<close> by (simp add: k nat_add_distrib)
  qed
qed

text \<open>The whole buffer: one call multiplies its number by 256 and adds the next byte.\<close>

lemma carry_loop_buffer:
  assumes "buf_ok buf high" "val58 buf * 256 + unat b < 58 ^ length buf"
  shows "\<exists>buf' j'. carry_loop buf high (int (length buf) - 1) (unat b) = Inr (buf', j') \<and>
    length buf' = length buf \<and> val58 buf' = val58 buf * 256 + unat b \<and> buf_ok buf' j'"
  using carry_loop_correct [of buf "int (length buf) - 1" high "unat b"] assms
  by (auto simp: buf_ok_def)

lemma bytes_value_Cons: "bytes_value (b # bs) = 256 ^ length bs * unat b + bytes_value bs"
  by (simp add: bytes_value_def horner_Cons)

lemma enc_loop_correct:
  assumes "buf_ok buf high" "val58 buf * 256 ^ length bs + bytes_value bs < 58 ^ length buf"
  shows "\<exists>buf'. enc_loop buf high bs = Inr buf' \<and> length buf' = length buf \<and>
    val58 buf' = val58 buf * 256 ^ length bs + bytes_value bs \<and> (\<forall>d\<in>set buf'. unat d < 58)"
  using assms
proof (induction bs arbitrary: buf high)
  case (Cons b bs)
  have val: "val58 buf * 256 ^ length (b # bs) + bytes_value (b # bs) =
      (val58 buf * 256 + unat b) * 256 ^ length bs + bytes_value bs"
    by (simp add: bytes_value_Cons algebra_simps)
  have "val58 buf * 256 + unat b \<le> (val58 buf * 256 + unat b) * 256 ^ length bs" by simp
  then have "val58 buf * 256 + unat b < 58 ^ length buf" using Cons.prems(2) val by linarith
  from carry_loop_buffer [OF Cons.prems(1) this] obtain buf1 j1 where
    1: "carry_loop buf high (int (length buf) - 1) (unat b) = Inr (buf1, j1)" "length buf1 = length buf"
      "val58 buf1 = val58 buf * 256 + unat b" "buf_ok buf1 j1"
    by blast
  show ?case using Cons.IH [OF 1(4)] Cons.prems(2) 1 unfolding val by simp
qed (simp add: bytes_value_def buf_ok_def)

section \<open>The encoded string\<close>

lemma zcount_split:
  fixes bs :: "byte list"
  defines "z \<equiv> length (takeWhile (\<lambda>b. b = 0) bs)"
  shows "bs = zeros z @ drop z bs" "z \<le> length bs" "drop z bs \<noteq> [] \<Longrightarrow> hd (drop z bs) \<noteq> 0"
    "bytes_value (drop z bs) = bytes_value bs"
proof -
  show bs: "bs = zeros z @ drop z bs"
    using split_zeros [of bs 0] unfolding z_def zeros_def
    by (metis dropWhile_eq_drop)
  show "z \<le> length bs" unfolding z_def by (rule length_takeWhile_le)
  show "drop z bs \<noteq> [] \<Longrightarrow> hd (drop z bs) \<noteq> 0"
    unfolding z_def by (metis (mono_tags) dropWhile_eq_drop hd_dropWhile)
  have "bytes_value bs = bytes_value (zeros z @ drop z bs)" using bs by simp
  also have "\<dots> = bytes_value (drop z bs)" by (simp add: bytes_value_def zeros_def horner_append)
  finally show "bytes_value (drop z bs) = bytes_value bs" by simp
qed

text \<open>
  Encoding a byte string succeeds when the output has room for its digits: one \<open>1\<close> per leading zero
  byte, and then digits below 58, the first of them not 0, whose value is that of the bytes.
\<close>

lemma b58enc_correct:
  assumes "length bs * 138 div 100 + 1 < b58sz"
  shows "\<exists>ds. b58enc b58sz bs = Inr (Inr (replicate (length (takeWhile (\<lambda>b. b = 0) bs)) (CHR ''1'') @
      map (\<lambda>d. b58digits_ordered ! d) ds)) \<and>
    horner 58 ds = bytes_value bs \<and> (\<forall>d\<in>set ds. d < 58) \<and> (ds \<noteq> [] \<longrightarrow> hd ds \<noteq> 0)"
proof -
  define z where "z = length (takeWhile (\<lambda>b. b = 0) bs)"
  define size where "size = (length bs - z) * 138 div 100 + 1"
  note z = zcount_split [of bs, folded z_def]
  have "buf_ok (zeros size) (int size - 1)" by (rule buf_ok_zeros)
  moreover have "bytes_value (drop z bs) < 58 ^ size"
    using bytes_value_less [of "drop z bs"] enough_digits [of "length bs - z"] by (simp add: size_def)
  ultimately obtain buf where buf: "enc_loop (zeros size) (int size - 1) (drop z bs) = Inr buf"
    "length buf = size" "val58 buf = bytes_value bs" "\<forall>d\<in>set buf. unat d < 58"
    using enc_loop_correct [of "zeros size" "int size - 1" "drop z bs"] z(4)
    by (auto simp: zeros_def)
  define j where "j = length (takeWhile (\<lambda>b. b = 0) buf)"
  note j = zcount_split [of buf, folded j_def]
  have "z + size - j < b58sz"
  proof -
    have "z + (length bs - z) * 138 div 100 \<le> length bs * 138 div 100"
      using z(2) by linarith
    then show ?thesis using assms unfolding size_def by linarith
  qed
  then have "b58enc b58sz bs = Inr (Inr (replicate z (CHR ''1'') @ map (\<lambda>d. b58digits_ordered ! d) (map unat (drop j buf))))"
    unfolding b58enc_def Let_def z_def [symmetric] size_def [symmetric]
    using buf(1) by (simp add: j_def [symmetric] comp_def)
  moreover have "horner 58 (map unat (drop j buf)) = bytes_value bs"
  proof -
    have "val58 buf = val58 (zeros j @ drop j buf)" using j(1) by simp
    then show ?thesis using buf(3) by (simp add: zeros_def horner_append)
  qed
  moreover have "map unat (drop j buf) \<noteq> [] \<longrightarrow> hd (map unat (drop j buf)) \<noteq> 0"
    using j(3) by (auto simp: hd_map unat_eq_zero)
  moreover have "\<forall>d\<in>set (map unat (drop j buf)). d < 58" using buf(4) by (auto dest: in_set_dropD)
  ultimately show ?thesis unfolding z_def by blast
qed

section \<open>The decoder's loops\<close>

abbreviation val32 :: "u32 list \<Rightarrow> nat" where
  "val32 ws \<equiv> horner (2 ^ 32) (map unat ws)"

lemma unat_u32_less [simp]: "unat (w :: u32) < 4294967296"
  using unsigned_less [of w, where 'a = nat] by simp

text \<open>The masks of the inner loop split a product below 2 to the 38 into limb and carry.\<close>

lemma carry_mask: "drop_bit 32 (t AND 0x3f00000000) = take_bit 6 (drop_bit 32 t)" for t :: u64
proof -
  have "drop_bit 32 (0x3f00000000 :: u64) = mask 6" by (simp add: mask_eq_exp_minus_1)
  then show ?thesis by (simp only: take_bit_eq_mask drop_bit_and)
qed

lemma limb_mask: "t AND 0xffffffff = take_bit 32 t" for t :: u64
  by (simp add: take_bit_eq_mask mask_eq_exp_minus_1)

lemma limb_step:
  fixes w c :: u32
  defines "t \<equiv> (ucast w :: u64) * 58 + ucast c"
  assumes "unat c < 58"
  shows "unat (ucast (drop_bit 32 (t AND 0x3f00000000)) :: u32) = (58 * unat w + unat c) div 2 ^ 32"
    and "unat (ucast (t AND 0xffffffff) :: u32) = (58 * unat w + unat c) mod 2 ^ 32"
    and "(58 * unat w + unat c) div 2 ^ 32 < 58"
proof -
  have small: "58 * unat w + unat c < 58 * 4294967296"
    using assms(2) unat_u32_less [of w] by linarith
  then show div: "(58 * unat w + unat c) div 2 ^ 32 < 58" by (simp add: less_mult_imp_div_less)
  have t: "unat t = 58 * unat w + unat c"
    unfolding t_def using small
    by (simp add: unat_word_ariths unsigned_ucast_eq take_bit_eq_mod unsigned_less [THEN less_trans])
  show "unat (ucast (drop_bit 32 (t AND 0x3f00000000)) :: u32) = (58 * unat w + unat c) div 2 ^ 32"
    unfolding carry_mask unsigned_ucast_eq unsigned_take_bit_eq unat_drop_bit_eq t
    using div by (simp add: take_bit_eq_mod drop_bit_eq_div)
  show "unat (ucast (t AND 0xffffffff) :: u32) = (58 * unat w + unat c) mod 2 ^ 32"
    unfolding limb_mask unsigned_ucast_eq unsigned_take_bit_eq t by (simp add: take_bit_eq_mod)
qed

lemma limb_loop_correct:
  assumes "j \<le> length outi" "unat c < 58"
  shows "\<exists>outi' c'. limb_loop outi c j = (outi', c') \<and> length outi' = length outi \<and> drop j outi' = drop j outi \<and>
    unat c' * (2 ^ 32) ^ j + val32 (take j outi') = 58 * val32 (take j outi) + unat c"
  using assms
proof (induction j arbitrary: outi c)
  case (Suc j)
  let ?w = "outi ! j"
  let ?n = "58 * unat ?w + unat c"
  define t where "t = (ucast ?w :: u64) * 58 + ucast c"
  define c1 where "c1 = (ucast (drop_bit 32 (t AND 0x3f00000000)) :: u32)"
  define w1 where "w1 = (ucast (t AND 0xffffffff) :: u32)"
  note st = limb_step [OF Suc.prems(2), of ?w, folded t_def, folded c1_def w1_def]
  have take_Suc: "take (Suc j) xs = take j xs @ [xs ! j]" if "length xs = length outi" for xs :: "u32 list"
    using that Suc.prems(1) by (simp add: take_Suc_conv_app_nth)
  obtain outi' c' where r: "limb_loop (outi[j := w1]) c1 j = (outi', c')" "length outi' = length outi"
    "drop j outi' = drop j (outi[j := w1])"
    "unat c' * (2 ^ 32) ^ j + val32 (take j outi') = 58 * val32 (take j outi) + unat c1"
    using Suc.IH [of "outi[j := w1]" c1] Suc.prems(1) st by auto
  have w1: "outi' ! j = w1" "drop (Suc j) outi' = drop (Suc j) outi"
    using r(2,3) Suc.prems(1) by (simp_all add: Cons_nth_drop_Suc [symmetric])
  have "unat c' * (2 ^ 32) ^ Suc j + val32 (take (Suc j) outi') =
      2 ^ 32 * (unat c' * (2 ^ 32) ^ j + val32 (take j outi')) + unat w1"
    by (simp add: take_Suc [OF r(2)] w1(1) algebra_simps)
  also have "\<dots> = 58 * val32 (take (Suc j) outi) + unat c"
    using st(1,2) mult_div_mod_eq [of "2 ^ 32" ?n] by (simp only: r(4)) (simp add: take_Suc algebra_simps)
  finally have "unat c' * (2 ^ 32) ^ Suc j + val32 (take (Suc j) outi') =
      58 * val32 (take (Suc j) outi) + unat c" .
  moreover have "limb_loop outi c (Suc j) = (outi', c')"
    unfolding limb_loop.simps Let_def t_def [symmetric] c1_def [symmetric] w1_def [symmetric] by (rule r(1))
  ultimately show ?case using r(2) w1(2) by blast
qed simp

text \<open>The two digit tables are inverse to each other.\<close>

lemma digit_tables:
  "\<forall>d<58. of_char (b58digits_ordered ! d) AND (0x80 :: byte) = 0 \<and>
     b58digits_map ! of_char (b58digits_ordered ! d) = int d \<and> b58digits_ordered ! d \<noteq> CHR 0x00 \<and>
     (b58digits_ordered ! d = CHR ''1'' \<longleftrightarrow> d = 0)"
proof -
  have "list_all (\<lambda>d. of_char (b58digits_ordered ! d) AND (0x80 :: byte) = 0 \<and>
     b58digits_map ! of_char (b58digits_ordered ! d) = int d \<and> b58digits_ordered ! d \<noteq> CHR 0x00 \<and>
     (b58digits_ordered ! d = CHR ''1'' \<longleftrightarrow> d = 0)) [0..<58]"
    by code_simp
  then show ?thesis by (simp add: list_all_iff)
qed

lemma dec_loop_correct:
  assumes "\<forall>d\<in>set ds. d < 58" "0 < length outi" "val32 outi * 58 ^ length ds + horner 58 ds < B"
    and "B \<le> (2 ^ 32) ^ length outi" "\<And>ws. length ws = length outi \<Longrightarrow> val32 ws < B \<Longrightarrow> ws ! 0 AND zeromask = 0"
  shows "\<exists>outi'. dec_loop zeromask outi (map (\<lambda>d. b58digits_ordered ! d) ds) = Some outi' \<and>
    length outi' = length outi \<and> val32 outi' = val32 outi * 58 ^ length ds + horner 58 ds"
  using assms
proof (induction ds arbitrary: outi)
  case (Cons d ds)
  have d: "d < 58" using Cons.prems(1) by simp
  then have c: "unat (of_int (int d) :: u32) = d"
    by (simp add: unsigned_of_nat take_bit_eq_mod)
  obtain outi1 c1 where ll: "limb_loop outi (of_int (int d)) (length outi) = (outi1, c1)"
    "length outi1 = length outi" "unat c1 * (2 ^ 32) ^ length outi + val32 outi1 = 58 * val32 outi + d"
    using limb_loop_correct [of "length outi" outi "of_int (int d)"] c d by auto
  have val: "val32 outi * 58 ^ length (d # ds) + horner 58 (d # ds) =
      (58 * val32 outi + d) * 58 ^ length ds + horner 58 ds"
    by (simp add: horner_Cons algebra_simps)
  have "58 * val32 outi + d \<le> (58 * val32 outi + d) * 58 ^ length ds" by simp
  then have small: "58 * val32 outi + d < B" using Cons.prems(3) val by linarith
  then have less: "58 * val32 outi + d < (2 ^ 32) ^ length outi" using Cons.prems(4) by linarith
  have "unat c1 = 0"
  proof (rule ccontr)
    assume "unat c1 \<noteq> 0"
    then have "1 * (2 ^ 32) ^ length outi \<le> unat c1 * (2 ^ 32) ^ length outi" by (intro mult_le_mono1) simp
    then show False using ll(3) less by linarith
  qed
  then have "c1 = 0" "val32 outi1 = 58 * val32 outi + d" using ll(3) by (simp_all add: unat_eq_zero)
  moreover have "b58digits_map ! of_char (b58digits_ordered ! d) = int d"
    "of_char (b58digits_ordered ! d) AND (0x80 :: byte) = 0" using digit_tables d by blast+
  moreover have "outi1 ! 0 AND zeromask = 0"
    using Cons.prems(5) ll(2) small \<open>val32 outi1 = 58 * val32 outi + d\<close> by simp
  ultimately show ?case
    using Cons.IH [of outi1] Cons.prems ll(1,2) unfolding val by simp
qed simp

section \<open>Writing the limbs out\<close>

lemma unat_limb_byte: "unat (ucast (drop_bit k w AND 0xff) :: byte) = unat w div 2 ^ k mod 256" for w :: u32
proof -
  have "drop_bit k w AND 0xff = take_bit 8 (drop_bit k w)" by (simp add: take_bit_eq_mask mask_eq_exp_minus_1)
  then show ?thesis
    by (simp only: unsigned_ucast_eq unsigned_take_bit_eq unat_drop_bit_eq)
      (simp add: take_bit_eq_mod drop_bit_eq_div)
qed

lemma four_digits:
  fixes n :: nat
  assumes "n = 256 * a + r0" "a = 256 * b + r1" "b = 256 * c + r2"
  shows "16777216 * c + 65536 * r2 + 256 * r1 + r0 = n"
  using assms by simp

lemma bytes_value_limb: "bytes_value (limb_bytes w) = unat w"
proof -
  define n where "n = unat w"
  have n: "n < 4294967296" unfolding n_def by simp
  have "bytes_value (limb_bytes w) =
      16777216 * (n div 16777216 mod 256) + 65536 * (n div 65536 mod 256) + 256 * (n div 256 mod 256) + n mod 256"
    using unat_limb_byte [of 0 w]
    by (simp add: bytes_value_def limb_bytes_def horner_Cons unat_limb_byte n_def del: drop_bit_0)
  also have "\<dots> = n"
  proof -
    have "n div 256 div 256 div 256 < 256" using n by (simp add: div_mult2_eq [symmetric] less_mult_imp_div_less)
    then have "n div 65536 = n div 256 div 256" "n div 16777216 mod 256 = n div 256 div 256 div 256"
      by (simp_all add: div_mult2_eq [symmetric])
    then show ?thesis
      using four_digits [of n "n div 256" "n mod 256" "n div 256 div 256" "n div 256 mod 256"
          "n div 256 div 256 div 256" "n div 256 div 256 mod 256"]
      by simp
  qed
  finally show ?thesis by (simp add: n_def)
qed

lemma bytes_value_append: "bytes_value (as @ bs) = 256 ^ length bs * bytes_value as + bytes_value bs"
  by (simp add: bytes_value_def horner_append)

lemma length_limbs: "length (concat (map limb_bytes ws)) = 4 * length ws"
  by (induction ws) (simp_all add: limb_bytes_def)

lemma bytes_value_limbs: "bytes_value (concat (map limb_bytes ws)) = val32 ws"
proof (induction ws rule: rev_induct)
  case (snoc w ws)
  have "length (limb_bytes w) = 4" by (simp add: limb_bytes_def)
  then show ?case using snoc by (simp add: bytes_value_append bytes_value_limb)
qed (simp add: bytes_value_def)

text \<open>An output whose size is not a multiple of 4 has an incomplete first limb, and the mask keeps it small.\<close>

lemma first_limb:
  assumes "length ws = Suc m" "val32 ws < 256 ^ (4 * m + k)"
  shows "unat (ws ! 0) < 256 ^ k"
proof -
  obtain w vs where ws: "ws = w # vs" "length vs = m" using assms(1) by (cases ws) auto
  have e: "(2 ^ 32) ^ m = (256 :: nat) ^ (4 * m)" by (simp add: power_mult)
  have "256 ^ (4 * m) * unat w < 256 ^ (4 * m) * (256 :: nat) ^ k"
    using assms(2) unfolding ws(1) list.map horner_Cons length_map ws(2) power_add e
    by (rule order.strict_trans1 [OF le_add1])
  then show ?thesis by (simp add: ws)
qed

lemma masked_limb:
  fixes w :: u32
  assumes "unat w < 256 ^ k"
  shows "w AND push_bit (k * 8) (- 1) = 0"
proof -
  have "(2 :: nat) ^ (8 * k) = 256 ^ k" by (simp add: power_mult)
  then have "unat w < 2 ^ (k * 8)" using assms by (simp only: mult.commute)
  then have "take_bit (k * 8) w = w" by (simp add: word_unat_eq_iff unsigned_take_bit_eq take_bit_nat_eq_self)
  then have "bit w n \<Longrightarrow> n < k * 8" for n by (metis bit_take_bit_iff)
  then show ?thesis by (intro bit_word_eqI) (auto simp: bit_simps)
qed

lemma limb_parts:
  fixes w :: u32
  shows "unat (ucast (drop_bit 16 (w AND 0xff0000)) :: byte) = unat w div 2 ^ 16 mod 256"
    "unat (ucast (drop_bit 8 (w AND 0xff00)) :: byte) = unat w div 2 ^ 8 mod 256"
    "unat (ucast (w AND 0xff) :: byte) = unat w mod 256"
proof -
  have "drop_bit 16 (w AND 0xff0000) = drop_bit 16 w AND 0xff" "drop_bit 8 (w AND 0xff00) = drop_bit 8 w AND 0xff"
    by (simp_all add: drop_bit_and)
  then show "unat (ucast (drop_bit 16 (w AND 0xff0000)) :: byte) = unat w div 2 ^ 16 mod 256"
    "unat (ucast (drop_bit 8 (w AND 0xff00)) :: byte) = unat w div 2 ^ 8 mod 256"
    "unat (ucast (w AND 0xff) :: byte) = unat w mod 256"
    using unat_limb_byte [of 16 w] unat_limb_byte [of 8 w] unat_limb_byte [of 0 w] by simp_all
qed

lemma write_limbs_value:
  assumes "length outi = (n + 3) div 4" "0 < n" "val32 outi < 256 ^ n"
  shows "length (write_limbs (n mod 4) outi) = n \<and> bytes_value (write_limbs (n mod 4) outi) = val32 outi"
proof (cases "n mod 4 = 0")
  case True
  then have "4 * length outi = n" using assms(1) by presburger
  with True show ?thesis by (simp add: write_limbs_def Let_def length_limbs bytes_value_limbs)
next
  case False
  define m k where "m = n div 4" and "k = n mod 4"
  have n: "n = 4 * m + k" "k < 4" "k \<noteq> 0" using False by (simp_all add: m_def k_def)
  then have len: "length outi = Suc m" using assms(1) by presburger
  then obtain w vs where outi: "outi = w # vs" "length vs = m" by (cases outi) auto
  define u where "u = unat w"
  have u: "u < 256 ^ k" using first_limb [OF len] assms(3) n(1) by (simp add: outi u_def)
  have val: "val32 outi = 256 ^ (4 * m) * u + val32 vs"
    unfolding outi list.map horner_Cons length_map outi(2) u_def by (simp add: power_mult)
  note parts = limb_parts [of w, folded u_def]
  have whole: "bytes_value (bs @ concat (map limb_bytes vs)) = val32 outi" if "bytes_value bs = u" for bs
    unfolding val using that by (simp add: bytes_value_append bytes_value_limbs length_limbs outi(2))
  have "k = 1 \<or> k = 2 \<or> k = 3" using n(2,3) by linarith
  then show ?thesis
  proof (elim disjE)
    assume k: "k = 1"
    with u parts have "bytes_value [ucast (w AND 0xff)] = u" by (simp add: bytes_value_def horner_Cons)
    from whole [OF this] show ?thesis using n(1)
      unfolding k_def [symmetric] k by (simp add: write_limbs_def Let_def outi length_limbs)
  next
    assume k: "k = 2"
    with u have "u div 256 < 256" by (simp add: less_mult_imp_div_less)
    with parts have "bytes_value [ucast (drop_bit 8 (w AND 0xff00)), ucast (w AND 0xff)] = u"
      by (simp add: bytes_value_def horner_Cons)
    from whole [OF this] show ?thesis using n(1)
      unfolding k_def [symmetric] k by (simp add: write_limbs_def Let_def outi length_limbs)
  next
    assume k: "k = 3"
    with u have "u div 256 div 256 < 256" by (simp add: less_mult_imp_div_less div_mult2_eq [symmetric])
    moreover have "u div 65536 = u div 256 div 256" by (simp add: div_mult2_eq [symmetric])
    ultimately have "bytes_value [ucast (drop_bit 16 (w AND 0xff0000)), ucast (drop_bit 8 (w AND 0xff00)), ucast (w AND 0xff)] = u"
      using parts four_digits [of u "u div 256" "u mod 256" "u div 256 div 256" "u div 256 mod 256" 0 "u div 256 div 256"]
      by (simp add: bytes_value_def horner_Cons)
    from whole [OF this] show ?thesis using n(1)
      unfolding k_def [symmetric] k by (simp add: write_limbs_def Let_def outi length_limbs)
  qed
qed

section \<open>Decoding an encoded string\<close>

text \<open>
  The decoder of an output of \<open>n\<close> bytes right-aligns a shorter number in it and reports how many bytes it
  has with its leading zeros.
\<close>

lemma b58tobin_digits:
  assumes "0 < n" "\<forall>d\<in>set ds. d < 58" "ds \<noteq> [] \<longrightarrow> hd ds \<noteq> 0" "length bs \<le> n"
    and "z = length (takeWhile (\<lambda>b. b = 0) bs)" "horner 58 ds = bytes_value bs"
  shows "b58tobin n (replicate z (CHR ''1'') @ map (\<lambda>d. b58digits_ordered ! d) ds) = Some (zeros (n - length bs) @ bs, length bs)"
proof -
  let ?digits = "map (\<lambda>d. b58digits_ordered ! d) ds" and ?bin = "zeros (n - length bs) @ bs"
  let ?str = "replicate z (CHR ''1'') @ ?digits"
  have nonzero: "\<forall>ch\<in>set ?str. ch \<noteq> CHR 0x00"
    using assms(2) digit_tables by auto
  then have cstr: "takeWhile (\<lambda>ch. ch \<noteq> CHR 0x00) ?str = ?str" by (simp only: takeWhile_eq_all_conv)
  have hd1: "takeWhile (\<lambda>ch. ch = CHR ''1'') ?digits = []"
    using assms(2,3) digit_tables by (cases ds) auto
  then have zc: "takeWhile (\<lambda>ch. ch = CHR ''1'') ?str = replicate z (CHR ''1'')"
    by (simp add: takeWhile_append)
  define m where "m = (n + 3) div 4"
  define zeromask :: u32 where "zeromask = (if n mod 4 \<noteq> 0 then push_bit (n mod 4 * 8) (- 1) else 0)"
  have m: "0 < m" "n \<le> 4 * m" using assms(1) unfolding m_def by presburger+
  have whole: "bytes_value ?bin = horner 58 ds" by (simp add: assms(6) bytes_value_append) (simp add: bytes_value_def zeros_def)
  have len: "length ?bin = n" using assms(4) by (simp add: zeros_def)
  have less: "horner 58 ds < 256 ^ n" using bytes_value_less [of ?bin] unfolding whole len .
  have bound: "(256::nat) ^ n \<le> (2 ^ 32) ^ m"
    using power_increasing [OF m(2), of "256 :: nat"] by (simp add: power_mult)
  have masked: "ws ! 0 AND zeromask = 0" if "length ws = m" "val32 ws < 256 ^ n" for ws
  proof (cases "n mod 4 = 0")
    case False
    then have "m = Suc (n div 4)" "n = 4 * (n div 4) + n mod 4" unfolding m_def by presburger+
    then show ?thesis
      using first_limb [of ws "n div 4" "n mod 4"] masked_limb that False by (simp add: zeromask_def)
  qed (simp add: zeromask_def)
  obtain outi where outi: "dec_loop zeromask (replicate m 0) ?digits = Some outi" "length outi = m"
    "val32 outi = horner 58 ds"
    using dec_loop_correct [of ds "replicate m 0" "256 ^ n" zeromask] assms(2) m(1) less bound masked by auto
  have "length (write_limbs (n mod 4) outi) = n \<and> bytes_value (write_limbs (n mod 4) outi) = val32 outi"
    by (rule write_limbs_value) (use outi less assms(1) in \<open>simp_all add: m_def\<close>)
  then have bin: "write_limbs (n mod 4) outi = ?bin"
    using outi(3) len whole by (intro bytes_value_inj) simp_all
  have tw: "takeWhile (\<lambda>b. b = 0) ?bin = zeros (n - length bs) @ takeWhile (\<lambda>b. b = 0) bs"
    by (simp add: zeros_def takeWhile_append)
  have "\<not> n + length (takeWhile (\<lambda>b. b = 0) bs) - length bs < length (takeWhile (\<lambda>b. b = 0) bs)"
    using assms(4) by linarith
  moreover have "length (takeWhile (\<lambda>b. b = 0) bs) \<le> length bs" by (rule length_takeWhile_le)
  ultimately show ?thesis
    unfolding b58tobin_def Let_def cstr zc m_def [symmetric] zeromask_def [symmetric]
    using assms(1,4) outi(1) bin tw assms(5) by (simp add: zeros_def)
qed

text \<open>
  Encoding and decoding: for byte strings of every length and outputs with room for them, the decoder gives
  back the bytes and their number.
\<close>

lemma b58_roundtrip:
  assumes "0 < n" "length bs \<le> n" "length bs * 138 div 100 + 1 < b58sz"
  shows "\<exists>str. b58enc b58sz bs = Inr (Inr str) \<and> b58tobin n str = Some (zeros (n - length bs) @ bs, length bs)"
  using b58enc_correct [OF assms(3)] b58tobin_digits [OF assms(1) _ _ assms(2) refl] by blast

text \<open>The wrappers.\<close>

lemma base58_roundtrip:
  assumes "0 < length bs" "length bs \<le> 91"
  shows "\<exists>str. base58_encode what bs = Inr str \<and> base58_decode what' (length bs) str = Inr bs"
proof -
  have "length bs * 138 div 100 + 1 < 128" using assms(2) by linarith
  from b58_roundtrip [OF assms(1) order_refl this] show ?thesis
    by (auto simp: base58_encode_def base58_decode_def zeros_def)
qed

section \<open>Sizes of what the decoder writes\<close>

lemma length_limb_loop: "length (fst (limb_loop outi c j)) = length outi"
  by (induction outi c j rule: limb_loop.induct) (simp_all add: Let_def)

lemma length_dec_loop: "dec_loop zeromask outi str = Some outi' \<Longrightarrow> length outi' = length outi"
proof (induction str arbitrary: outi)
  case (Cons ch str)
  obtain outi1 c where "limb_loop outi (of_int (b58digits_map ! of_char ch)) (length outi) = (outi1, c)" by fastforce
  moreover from this have "length outi1 = length outi" by (metis fst_conv length_limb_loop)
  ultimately show ?case using Cons by (simp split: if_splits)
qed simp

lemma length_write_limbs: "0 < n \<Longrightarrow> length outi = (n + 3) div 4 \<Longrightarrow> length (write_limbs (n mod 4) outi) = n"
proof -
  assume n: "0 < n" "length outi = (n + 3) div 4"
  have "n mod 4 = 0 \<or> n mod 4 = 1 \<or> n mod 4 = 2 \<or> n mod 4 = 3" by presburger
  with n show ?thesis by (elim disjE) (simp_all add: write_limbs_def Let_def length_limbs, presburger+)
qed

lemma length_b58tobin:
  assumes "b58tobin n str = Some (d, res)"
  shows "length d = n"
proof -
  from assms obtain zeromask ds outi where "0 < n" "dec_loop zeromask (replicate ((n + 3) div 4) 0) ds = Some outi"
    "d = write_limbs (n mod 4) outi"
    unfolding b58tobin_def Let_def by (auto split: if_splits option.splits simp del: mod_0_imp_dvd)
  then show ?thesis using length_write_limbs length_dec_loop by fastforce
qed

lemma length_decode: "base58_decode what n str = Inr bs \<Longrightarrow> length bs = n"
  by (auto simp: base58_decode_def dest: length_b58tobin split: option.splits)

section \<open>Properties\<close>

text \<open>
  C29. The digit buffer of the encoder is always large enough: for byte strings of every length and
  every output size, \<open>b58enc\<close> never writes left of its buffer and returns.
\<close>

theorem b58enc_stays_in_buffer: "\<exists>r. b58enc b58sz bs = Inr r"
proof -
  define z where "z = length (takeWhile (\<lambda>b. b = 0) bs)"
  define size where "size = (length bs - z) * 138 div 100 + 1"
  have "bytes_value (drop z bs) < 58 ^ size"
    using bytes_value_less [of "drop z bs"] enough_digits [of "length bs - z"] by (simp add: size_def)
  then obtain buf where "enc_loop (zeros size) (int size - 1) (drop z bs) = Inr buf"
    using enc_loop_correct [OF buf_ok_zeros, of size "drop z bs"] by (auto simp: zeros_def)
  then show ?thesis
    unfolding b58enc_def Let_def z_def [symmetric] size_def [symmetric] by simp
qed

text \<open>
  C28. Bytes survive the text form: with room for the digits, encoding byte strings of any length and decoding
  the text into an output of any size that can hold them gives back the bytes, right-aligned, and their
  number; so encoding keys, signatures and fingerprints never raises, and decoding the string gives back
  the same bytes.
\<close>

theorem base58_keys_roundtrip:
  assumes "length key = 32" "length sig = 64" "length uuid = 16"
    and "0 < n" "length bs \<le> n" "length bs * 138 div 100 + 1 < b58sz"
  shows "(\<exists>str. base58_encode_key key = Inr str \<and> base58_decode_key str = Inr key) \<and>
    (\<exists>str. base58_encode_sig sig = Inr str \<and> base58_decode_sig str = Inr sig) \<and>
    (\<exists>str. base58_encode_uuid uuid = Inr str \<and> base58_decode_uuid str = Inr uuid) \<and>
    (\<exists>str. b58enc b58sz bs = Inr (Inr str) \<and> b58tobin n str = Some (zeros (n - length bs) @ bs, length bs))"
  unfolding base58_wrapper_defs
  using base58_roundtrip [of key] base58_roundtrip [of sig] base58_roundtrip [of uuid] assms(1-3) b58_roundtrip [OF assms(4-6)] by simp

theorem base58_keys_roundtrip_witness:
  "(\<exists>str. base58_encode_key (zeros 31 @ [7]) = Inr str \<and> base58_decode_key str = Inr (zeros 31 @ [7])) \<and>
   (\<exists>str. b58enc 9 [0, 7, 255] = Inr (Inr str) \<and> b58tobin 5 str = Some (zeros 2 @ [0, 7, 255], 3))"
  using base58_keys_roundtrip [of "zeros 31 @ [7]" "zeros 64" "zeros 16" 5 "[0, 7, 255]" 9] by (simp add: numeral_3_eq_3 numeral_2_eq_2)

lemma encode_zero_key: "base58_encode_key zero_key = Inr (replicate 32 (CHR ''1''))"
proof -
  have tw: "takeWhile (\<lambda>b. b = 0) (zeros n) = zeros n" for n
    by (simp add: zeros_def takeWhile_eq_all_conv)
  show ?thesis
    unfolding base58_encode_key_def base58_encode_def b58enc_def Let_def tw
    by (simp add: zeros_def)
qed

text \<open>
  The text of a key is injective, so the test against 32 times \<open>1\<close> recognises the zero key.
\<close>

lemma encode_key_inj:
  assumes "length k = 32" "length k' = 32" "base58_encode_key k = base58_encode_key k'"
  shows "k = k'"
proof -
  show ?thesis
    using base58_roundtrip [of k "''key.''" "''key.''"] base58_roundtrip [of k' "''key.''" "''key.''"] assms
    by (auto simp: base58_encode_key_def)
qed

lemma encode_key_zero_iff:
  "length k = 32 \<Longrightarrow> base58_encode_key k = Inr (replicate 32 (CHR ''1'')) \<longleftrightarrow> k = zero_key"
  using encode_key_inj [of k zero_key] encode_zero_key by auto

lemma encode_key_total: "length k = 32 \<Longrightarrow> \<exists>str. base58_encode_key k = Inr str"
  using base58_roundtrip [of k] by (auto simp: base58_encode_key_def)

text \<open>
  The comparison with 32 times the character \<open>1\<close> that the blockchain makes on the text of a source
  key holds for the zero key of reward transactions and for no other key.
\<close>

lemma zero_key_text_exact:
  assumes "length key = 32"
  shows "base58_encode_key key = Inr ''11111111111111111111111111111111'' \<longleftrightarrow> key = zero_key"
  using encode_key_zero_iff [OF assms] by (simp add: numeral_eq_Suc)

lemma zero_key_text_exact_witness:
  "base58_encode_key zero_key = Inr ''11111111111111111111111111111111'' \<and>
   base58_encode_key (zeros 31 @ [1]) \<noteq> Inr ''11111111111111111111111111111111''"
  using zero_key_text_exact [of zero_key] zero_key_text_exact [of "zeros 31 @ [1]"]
  by (simp add: zeros_def numeral_eq_Suc)

text \<open>
  Decoding does not check the length that \<open>b58tobin\<close> reports: the text of one digit is accepted as
  a key, and so is its form with 31 leading \<open>1\<close>, so two texts name the same key.
\<close>

lemma decode_key_accepts_short_text:
  "base58_decode_key ''2'' = Inr (zeros 31 @ [1]) \<and>
   base58_decode_key ''11111111111111111111111111111112'' = Inr (zeros 31 @ [1])"
  by code_simp

end
