(* ===== verification/BlockChain_Correct.thy ===== *)
theory BlockChain_Correct
  imports BlockChain Base58_Correct Samples
begin

text \<open>
  Correctness of the blockchain node: what one transaction does to the balances and to their sum, the
  invariant that the ledger is the replay of the blocks, and what the queries answer.
\<close>

section \<open>Balances\<close>

definition bal :: "Ledger \<Rightarrow> Ed25519Key \<Rightarrow> u32" where
  "bal l k = (case map_of l k of None \<Rightarrow> 0 | Some v \<Rightarrow> v)"

text \<open>The coins in circulation, as \<open>get_total_coins\<close> adds them up.\<close>

definition coins :: "Ledger \<Rightarrow> u32" where
  "coins l = umap.total (\<lambda>v. v) l"

lemma foldl_coins: "foldl (\<lambda>s e. s + snd e) c l = c + coins l" for c :: u32
  by (induction l arbitrary: c) (simp_all add: coins_def umap.total_def)

text \<open>A transfer from an address that is not in the ledger to itself.\<close>

definition fresh_self :: "Ledger \<Rightarrow> Transaction \<Rightarrow> bool" where
  "fresh_self l t \<longleftrightarrow> src t = dest t \<and> src t \<noteq> zero_key \<and> src t \<notin> dom (map_of l)"

definition is_reward :: "Transaction \<Rightarrow> bool" where
  "is_reward t \<longleftrightarrow> src t = zero_key"

definition debited :: "Ledger \<Rightarrow> Transaction \<Rightarrow> bool" where
  "debited l t \<longleftrightarrow> \<not> is_reward t \<and> \<not> fresh_self l t"

lemma umap_emplace_fresh: "map_of m k = None \<Longrightarrow> map_of (umap_emplace k v m) = (map_of m)(k \<mapsto> v)"
  by (simp add: umap_emplace_def)

lemma umap_emplace_present: "map_of m k \<noteq> None \<Longrightarrow> umap_emplace k v m = m"
  by (auto simp: umap_emplace_def)

text \<open>Crediting the destination, debiting the source, as the code does them on a ledger.\<close>

definition credit :: "Ledger \<Rightarrow> Transaction \<Rightarrow> Ledger" where
  "credit l t = (case map_of l (dest t) of
      Some v \<Rightarrow> umap_assign (dest t) (v + amount t) l | None \<Rightarrow> umap_emplace (dest t) (amount t) l)"

lemma map_of_credit: "map_of (credit l t) = (map_of l)(dest t \<mapsto> bal l (dest t) + amount t)"
  by (auto simp: credit_def bal_def map_of_umap_assign umap_emplace_fresh split: option.splits)

lemma invar_credit: "umap_invar l \<Longrightarrow> umap_invar (credit l t)"
  by (auto simp: credit_def split: option.splits intro: umap.invar_assign umap.invar_emplace)

lemma sync_one_cases:
  assumes "length (src t) = 32"
  shows "sync_one l t = Inr (if is_reward t then credit l t
    else if src t \<in> dom (map_of l) then umap_assign (src t) (bal (credit l t) (src t) - amount t) (credit l t)
    else umap_emplace (src t) (- amount t) (credit l t))"
proof -
  obtain str where str: "base58_encode_key (src t) = Inr str" using encode_key_total [OF assms] by blast
  have rep: "replicate 32 (CHR ''1'') = ''11111111111111111111111111111111''" by (simp add: numeral_eq_Suc)
  have "str = ''11111111111111111111111111111111'' \<longleftrightarrow> src t = zero_key"
    using encode_key_zero_iff [OF assms] str unfolding rep by simp
  moreover have "the (map_of (credit l t) (src t)) = bal (credit l t) (src t)" if "src t \<in> dom (map_of l)"
    using that by (auto simp: map_of_credit bal_def)
  ultimately show ?thesis
    by (auto simp: sync_one_def Let_def str is_reward_def credit_def [symmetric] domIff)
qed

lemma sync_one_effect:
  assumes "length (src t) = 32" "umap_invar l"
  obtains l' where "sync_one l t = Inr l'" "umap_invar l'"
    and "dom (map_of l') = dom (map_of l) \<union> {dest t} \<union> (if is_reward t then {} else {src t})"
    and "\<And>k. bal l' k = bal l k + (if k = dest t then amount t else 0) - (if k = src t \<and> debited l t then amount t else 0)"
proof -
  let ?c = "credit l t"
  have c: "umap_invar ?c" using assms(2) by (rule invar_credit)
  consider (reward) "is_reward t" | (known) "\<not> is_reward t" "src t \<in> dom (map_of l)"
    | (unknown) "\<not> is_reward t" "src t \<notin> dom (map_of l)" by blast
  then show thesis
  proof cases
    case reward
    then have "sync_one l t = Inr ?c" using assms(1) by (simp add: sync_one_cases)
    then show thesis
      by (rule that [OF _ c]) (use reward in \<open>auto simp: map_of_credit bal_def debited_def\<close>)
  next
    case known
    let ?l = "umap_assign (src t) (bal ?c (src t) - amount t) ?c"
    have "sync_one l t = Inr ?l" using known assms(1) by (simp add: sync_one_cases)
    then show thesis
      by (rule that [OF _ umap.invar_assign [OF c]])
        (use known in \<open>auto simp: map_of_umap_assign map_of_credit bal_def debited_def fresh_self_def\<close>)
  next
    case unknown
    let ?l = "umap_emplace (src t) (- amount t) ?c"
    have sync: "sync_one l t = Inr ?l" using unknown assms(1) by (simp add: sync_one_cases)
    show thesis
    proof (cases "src t = dest t")
      case True
      then have "?l = ?c" by (simp add: umap_emplace_present map_of_credit)
      then show thesis using sync
        by (intro that [OF _ c]) (use unknown True in \<open>auto simp: map_of_credit bal_def debited_def fresh_self_def is_reward_def\<close>)
    next
      case False
      then have "map_of ?c (src t) = None" using unknown by (auto simp: map_of_credit)
      then have m: "map_of ?l = (map_of ?c)(src t \<mapsto> - amount t)" by (rule umap_emplace_fresh)
      show thesis using sync
        by (intro that [OF _ umap.invar_emplace [OF c]])
          (use unknown False m in \<open>auto simp: map_of_credit bal_def debited_def fresh_self_def\<close>)
    qed
  qed
qed

lemma coins_eq_sum:
  assumes "umap_invar l" "finite K" "dom (map_of l) \<subseteq> K"
  shows "coins l = (\<Sum>k\<in>K. bal l k)"
proof -
  have "coins l = (\<Sum>k\<in>dom (map_of l). bal l k)"
    unfolding coins_def umap.total_eq_sum [OF assms(1)]
    by (rule sum.cong) (auto simp: bal_def)
  also have "\<dots> = (\<Sum>k\<in>K. bal l k)"
    using assms(2,3) by (intro sum.mono_neutral_left) (auto simp: bal_def split: option.splits)
  finally show ?thesis .
qed

text \<open>Only rewards and fresh self-transfers create coins; every other transaction conserves the sum.\<close>

lemma sync_one_coins:
  assumes "length (src t) = 32" "umap_invar l" "sync_one l t = Inr l'"
  shows "coins l' = coins l + (if debited l t then 0 else amount t)"
proof -
  obtain l'' where e: "sync_one l t = Inr l''" "umap_invar l''"
    "dom (map_of l'') = dom (map_of l) \<union> {dest t} \<union> (if is_reward t then {} else {src t})"
    "\<And>k. bal l'' k = bal l k + (if k = dest t then amount t else 0) - (if k = src t \<and> debited l t then amount t else 0)"
    using sync_one_effect [OF assms(1,2)] by blast
  have l: "l'' = l'" using e(1) assms(3) by simp
  let ?K = "dom (map_of l')"
  have fin: "finite ?K" using umap.finite_dom [OF e(2)] l by simp
  have K: "dest t \<in> ?K" "debited l t \<Longrightarrow> src t \<in> ?K" "dom (map_of l) \<subseteq> ?K"
    using e(3) l by (auto simp: debited_def)
  have "coins l' = (\<Sum>k\<in>?K. bal l k) + (\<Sum>k\<in>?K. if k = dest t then amount t else 0)
      - (\<Sum>k\<in>?K. if k = src t \<and> debited l t then amount t else 0)"
    using e(2,4) fin l by (simp add: coins_eq_sum [of l' ?K] sum.distrib sum_subtractf)
  also have "(\<Sum>k\<in>?K. if k = dest t then amount t else 0) = amount t" using fin K(1) by simp
  also have "(\<Sum>k\<in>?K. if k = src t \<and> debited l t then amount t else 0) = (if debited l t then amount t else 0)"
    using fin K(2) by simp
  also have "(\<Sum>k\<in>?K. bal l k) = coins l" using coins_eq_sum [OF assms(2) fin K(3)] by simp
  finally show ?thesis by simp
qed

section \<open>Lists of transactions\<close>

definition received :: "Ed25519Key \<Rightarrow> Transaction list \<Rightarrow> u32" where
  "received k ts = (\<Sum>t\<leftarrow>ts. if dest t = k then amount t else 0)"

definition spent :: "Ed25519Key \<Rightarrow> Transaction list \<Rightarrow> u32" where
  "spent k ts = (\<Sum>t\<leftarrow>ts. if src t = k \<and> \<not> is_reward t then amount t else 0)"

definition rewarded :: "Transaction list \<Rightarrow> u32" where
  "rewarded ts = (\<Sum>t\<leftarrow>ts. if is_reward t then amount t else 0)"

definition addresses :: "Transaction list \<Rightarrow> Ed25519Key set" where
  "addresses ts = (\<Union>t\<in>set ts. insert (dest t) (if is_reward t then {} else {src t}))"

lemma received_Cons: "received k (t # ts) = (if k = dest t then amount t else 0) + received k ts"
  by (simp add: received_def)

lemma spent_Cons: "spent k (t # ts) = (if k = src t \<and> \<not> is_reward t then amount t else 0) + spent k ts"
  by (simp add: spent_def)

lemma rewarded_Cons: "rewarded (t # ts) = (if is_reward t then amount t else 0) + rewarded ts"
  by (simp add: rewarded_def)

text \<open>No transaction, rewards apart, goes from an address to itself.\<close>

definition no_self :: "Transaction list \<Rightarrow> bool" where
  "no_self ts \<longleftrightarrow> (\<forall>t\<in>set ts. src t = dest t \<longrightarrow> is_reward t)"

lemma no_self_debited: "no_self ts \<Longrightarrow> t \<in> set ts \<Longrightarrow> debited l t \<longleftrightarrow> \<not> is_reward t"
  by (auto simp: no_self_def debited_def fresh_self_def)

lemma sync_txs_append: "sync_txs l (xs @ ys) = bind_result (sync_txs l xs) (\<lambda>l'. sync_txs l' ys)"
  by (induction xs arbitrary: l) (auto simp: bind_result_def split: sum.splits)

lemma sync_txs_effect:
  assumes "\<forall>t\<in>set ts. length (src t) = 32" "umap_invar l"
  shows "\<exists>l'. sync_txs l ts = Inr l' \<and> umap_invar l' \<and> dom (map_of l') = dom (map_of l) \<union> addresses ts \<and>
    (no_self ts \<longrightarrow> coins l' = coins l + rewarded ts \<and> (\<forall>k. bal l' k = bal l k + received k ts - spent k ts))"
  using assms
proof (induction ts arbitrary: l)
  case Nil
  then show ?case by (simp add: addresses_def rewarded_def received_def spent_def)
next
  case (Cons t ts)
  obtain l1 where 1: "sync_one l t = Inr l1" "umap_invar l1"
    "dom (map_of l1) = dom (map_of l) \<union> {dest t} \<union> (if is_reward t then {} else {src t})"
    "\<And>k. bal l1 k = bal l k + (if k = dest t then amount t else 0) - (if k = src t \<and> debited l t then amount t else 0)"
    using sync_one_effect [of t l] Cons.prems by auto
  obtain l2 where 2: "sync_txs l1 ts = Inr l2" "umap_invar l2" "dom (map_of l2) = dom (map_of l1) \<union> addresses ts"
    "no_self ts \<longrightarrow> coins l2 = coins l1 + rewarded ts \<and> (\<forall>k. bal l2 k = bal l1 k + received k ts - spent k ts)"
    using Cons.IH [OF _ 1(2)] Cons.prems(1) by auto
  have c1: "coins l1 = coins l + (if debited l t then 0 else amount t)"
    by (rule sync_one_coins [OF _ Cons.prems(2) 1(1)]) (use Cons.prems(1) in simp)
  have "coins l2 = coins l + rewarded (t # ts) \<and> (\<forall>k. bal l2 k = bal l k + received k (t # ts) - spent k (t # ts))"
    if ns: "no_self (t # ts)"
  proof -
    have d: "no_self ts" "debited l t \<longleftrightarrow> \<not> is_reward t"
      using ns no_self_debited [OF ns, of t l] by (simp_all add: no_self_def)
    have bal2: "bal l2 k = bal l k + received k (t # ts) - spent k (t # ts)" for k
    proof -
      have "bal l2 k = bal l1 k + received k ts - spent k ts" using 2(4) d(1) by simp
      then show ?thesis unfolding 1(4) d(2) received_Cons spent_Cons by (simp only: algebra_simps)
    qed
    show ?thesis using 2(4) c1 d bal2 by (simp add: rewarded_Cons)
  qed
  moreover have "dom (map_of l2) = dom (map_of l) \<union> addresses (t # ts)"
    using 1(3) 2(3) by (auto simp: addresses_def)
  ultimately show ?case using 1(1) 2(1,2) by simp
qed

section \<open>Well-formed chains\<close>

text \<open>The arrays of a block have the lengths of their types.\<close>

definition header_wf :: "BlockHeader \<Rightarrow> bool" where
  "header_wf h \<longleftrightarrow> length (fingerprint (input h)) = 16 \<and> length (public_key (input h)) = 32 \<and>
     length (hash h) = 32 \<and> length (prev_hash h) = 32"

definition block_wf :: "Block \<Rightarrow> bool" where
  "block_wf b \<longleftrightarrow> header_wf (header b) \<and> (\<forall>t\<in>set (transactions b). tx_wf t)"

definition decodes_arrays :: "alpaca \<Rightarrow> bool" where
  "decodes_arrays A \<longleftrightarrow> (\<forall>data. block_wf (de_block A data))"

definition all_txs :: "'n BlockChain \<Rightarrow> Transaction list" where
  "all_txs bc = concat (map transactions (blocks bc))"

text \<open>The ledger is what replaying all transactions of all blocks from the empty ledger gives.\<close>

definition chain_wf :: "'n BlockChain \<Rightarrow> bool" where
  "chain_wf bc \<longleftrightarrow> blocks bc \<noteq> [] \<and> (\<forall>b\<in>set (blocks bc). block_wf b) \<and>
     sync_txs [] (all_txs bc) = Inr (ledger bc)"

lemma all_txs_wf: "\<forall>b\<in>set (blocks bc). block_wf b \<Longrightarrow> \<forall>t\<in>set (all_txs bc). length (src t) = 32"
  by (auto simp: all_txs_def block_wf_def tx_wf_def)

lemma chain_ledger:
  assumes "chain_wf bc"
  shows "umap_invar (ledger bc)" "dom (map_of (ledger bc)) = addresses (all_txs bc)"
    and "no_self (all_txs bc) \<Longrightarrow> coins (ledger bc) = rewarded (all_txs bc)"
    and "no_self (all_txs bc) \<Longrightarrow> bal (ledger bc) k = received k (all_txs bc) - spent k (all_txs bc)"
proof -
  have empty: "umap_invar []" "coins [] = 0" "bal [] k = 0" "dom (map_of []) = {}" for k
    by (simp_all add: umap_invar_def coins_def umap.total_def bal_def)
  obtain l where "sync_txs [] (all_txs bc) = Inr l" "umap_invar l" "dom (map_of l) = addresses (all_txs bc)"
    "no_self (all_txs bc) \<longrightarrow> coins l = rewarded (all_txs bc) \<and>
       (\<forall>k. bal l k = received k (all_txs bc) - spent k (all_txs bc))"
    using sync_txs_effect [of "all_txs bc" "[]"] all_txs_wf [of bc] assms empty
    by (auto simp: chain_wf_def)
  moreover from this(1) have "l = ledger bc" using assms by (simp add: chain_wf_def)
  ultimately show "umap_invar (ledger bc)" "dom (map_of (ledger bc)) = addresses (all_txs bc)"
    and "no_self (all_txs bc) \<Longrightarrow> coins (ledger bc) = rewarded (all_txs bc)"
    and "no_self (all_txs bc) \<Longrightarrow> bal (ledger bc) k = received k (all_txs bc) - spent k (all_txs bc)"
    by simp_all
qed

text \<open>Appending a block and replaying it.\<close>

lemma sync_bal_wf:
  assumes "blocks bc = [] \<and> ledger bc = [] \<or> chain_wf bc" "block_wf b"
  obtains bc' where "sync_bal (bc\<lparr>blocks := blocks bc @ [b]\<rparr>) b = Inr bc'" "chain_wf bc'"
    "blocks bc' = blocks bc @ [b]" "file_name bc' = file_name bc" "stored_chain bc' = stored_chain bc" "disk bc' = disk bc"
proof -
  have replay: "sync_txs [] (all_txs bc) = Inr (ledger bc)" and inv: "umap_invar (ledger bc)"
    and wf: "\<forall>b\<in>set (blocks bc). block_wf b"
    using assms(1) chain_ledger(1) [of bc] by (auto simp: chain_wf_def all_txs_def umap_invar_def)
  obtain l where l: "sync_txs (ledger bc) (transactions b) = Inr l"
    using sync_txs_effect [OF _ inv, of "transactions b"] assms(2) by (auto simp: block_wf_def tx_wf_def)
  let ?bc = "bc\<lparr>blocks := blocks bc @ [b], ledger := l\<rparr>"
  have "all_txs ?bc = all_txs bc @ transactions b" by (simp add: all_txs_def)
  then have "chain_wf ?bc" using replay l wf assms(2) by (simp add: chain_wf_def sync_txs_append)
  with l show thesis by (intro that [of ?bc]) (simp_all add: sync_bal_def)
qed

section \<open>Handlers\<close>

lemma base58_encode_total:
  "0 < length bs \<Longrightarrow> length bs mod 4 = 0 \<Longrightarrow> length bs \<le> 91 \<Longrightarrow> \<exists>str. base58_encode what bs = Inr str"
  using base58_roundtrip [of bs what what] by meson

lemma encode_total:
  "length k = 32 \<Longrightarrow> \<exists>str. base58_encode_key k = Inr str"
  "length g = 64 \<Longrightarrow> \<exists>str. base58_encode_sig g = Inr str"
  "length u = 16 \<Longrightarrow> \<exists>str. base58_encode_uuid u = Inr str"
  unfolding base58_wrapper_defs by (rule base58_encode_total; simp)+

lemma stored_tx_total: "tx_wf t \<Longrightarrow> \<exists>m. stored_tx t = Inr m"
  using encode_total(1) [of "src t"] encode_total(1) [of "dest t"] encode_total(2) [of "signature t"]
  by (auto simp: stored_tx_def tx_wf_def)

lemma map_result_total: "\<forall>x\<in>set xs. \<exists>y. f x = Inr y \<Longrightarrow> \<exists>ys. map_result f xs = Inr ys"
  by (induction xs) auto

lemma write_block_frame:
  assumes "block_wf b"
  obtains bc' where "write_block Y bc b = Inr bc'" "blocks bc' = blocks bc" "ledger bc' = ledger bc"
    "file_name bc' = file_name bc"
proof -
  let ?h = "header b"
  obtain fp pk h txs where "base58_encode_uuid (fingerprint (input ?h)) = Inr fp"
    "base58_encode_key (public_key (input ?h)) = Inr pk" "base58_encode_key (hash ?h) = Inr h"
    "map_result stored_tx (transactions b) = Inr txs"
    using assms encode_total map_result_total [of "transactions b" stored_tx] stored_tx_total
    unfolding block_wf_def header_wf_def by metis
  then have "\<exists>bc'. write_block Y bc b = Inr bc' \<and> blocks bc' = blocks bc \<and> ledger bc' = ledger bc \<and>
      file_name bc' = file_name bc"
    by (simp add: write_block_def Let_def)
  then show thesis using that by blast
qed

lemma chain_wf_frame: "chain_wf bc \<Longrightarrow> blocks bc' = blocks bc \<Longrightarrow> ledger bc' = ledger bc \<Longrightarrow> chain_wf bc'"
  by (simp add: chain_wf_def all_txs_def)

lemma add_block_wf:
  assumes "chain_wf bc" "block_wf (de_block A data)"
  obtains bc' where "chain_wf bc'" "blocks bc' = blocks bc @ [de_block A data]"
    "add_block A Y confirm bc data =
       bind_result (confirm (de_block A data)) (\<lambda>_. Inr (bc', (P_null, STATUS_GOOD)))"
proof -
  let ?b = "de_block A data"
  obtain bc1 where 1: "sync_bal (bc\<lparr>blocks := blocks bc @ [?b]\<rparr>) ?b = Inr bc1" "chain_wf bc1"
    "blocks bc1 = blocks bc @ [?b]"
    using sync_bal_wf [of bc ?b] assms by blast
  obtain bc2 where 2: "write_block Y bc1 ?b = Inr bc2" "blocks bc2 = blocks bc1" "ledger bc2 = ledger bc1"
    using write_block_frame [OF assms(2)] by blast
  show thesis
    using 1 2 by (intro that [of bc2]) (auto simp: add_block_def Let_def intro: chain_wf_frame)
qed

text \<open>Every request leaves the state alone, or appends the submitted block.\<close>

lemma chain_handler_step:
  assumes "chain_wf bc" "decodes_arrays A" "chain_request_handler A Y confirm bc req = Inr (bc', r)"
  shows "chain_wf bc' \<and> blocks bc' = blocks bc @
    (if msg_type (msg_header req) = SUBMIT_BLOCK then [de_block A (msg_data req)] else [])"
proof (cases "msg_type (msg_header req) = SUBMIT_BLOCK")
  case True
  obtain bc2 where "chain_wf bc2" "blocks bc2 = blocks bc @ [de_block A (msg_data req)]"
    "add_block A Y confirm bc (msg_data req) =
       bind_result (confirm (de_block A (msg_data req))) (\<lambda>_. Inr (bc2, (P_null, STATUS_GOOD)))"
    using add_block_wf [OF assms(1)] assms(2) unfolding decodes_arrays_def by blast
  then show ?thesis using True assms(3) by (simp add: chain_request_handler_def bind_result_eq_Inr)
next
  case False
  then have "bc' = bc"
    using assms(3) by (auto simp: chain_request_handler_def get_balance_def last_block_def tx_status_def
        get_num_addr_def get_total_coins_def split: MessageType.splits if_splits)
  then show ?thesis using False assms(1) by simp
qed

definition chain_requests :: "MessageType set" where
  "chain_requests = {QUERY_BAL, SUBMIT_BLOCK, QUERY_LAST_BLOCK, QUERY_TX_STATUS, QUERY_NUM_ADDRS, QUERY_COINS}"

text \<open>The node in an environment whose decoder returns whole arrays.\<close>

definition chain_ok :: "alpaca \<Rightarrow> 'n BlockChain \<Rightarrow> bool" where
  "chain_ok A bc \<longleftrightarrow> decodes_arrays A \<and> chain_wf bc"

interpretation chain: message_server "chain_request_handler A Y confirm" "chain_ok A" for A Y confirm
  by unfold_locales (auto simp: chain_ok_def dest: chain_handler_step)

interpretation chain: answering_server "chain_request_handler A Y (\<lambda>b. Inr (pool b))" "chain_ok A" chain_requests
  "Runtime_error ''Unknown message type.''" for A Y pool
proof unfold_locales
  show "\<exists>s' r. chain_request_handler A Y (\<lambda>b. Inr (pool b)) s req = Inr (s', r)"
    if "chain_ok A s" "msg_type (msg_header req) \<in> chain_requests" for s req
  proof (cases "msg_type (msg_header req) = SUBMIT_BLOCK")
    case True
    have ok: "chain_wf s" "block_wf (de_block A (msg_data req))"
      using that(1) by (simp_all add: chain_ok_def decodes_arrays_def)
    obtain bc2 where "add_block A Y (\<lambda>b. Inr (pool b)) s (msg_data req) = Inr (bc2, (P_null, STATUS_GOOD))"
      using add_block_wf [OF ok, of Y "\<lambda>b. Inr (pool b)"] unfolding bind_result_Inr by blast
    then show ?thesis using True by (simp add: chain_request_handler_def)
  next
    case False
    then show ?thesis
      using that by (auto simp: chain_requests_def chain_request_handler_def last_block_def get_balance_def
          tx_status_def get_num_addr_def get_total_coins_def chain_ok_def chain_wf_def)
  qed
  show "chain_request_handler A Y (\<lambda>b. Inr (pool b)) s req = Inl (Runtime_error ''Unknown message type.'')"
    if "msg_type (msg_header req) \<notin> chain_requests" for s req
    using that by (cases "msg_type (msg_header req)") (auto simp: chain_requests_def chain_request_handler_def)
qed

lemma chain_serve_blocks:
  assumes "chain_ok A bc" "serve (chain_request_handler A Y confirm) bc reqs = Inr (bc', rs)"
  shows "blocks bc' = blocks bc @ map (\<lambda>m. de_block A (msg_data m)) (filter (\<lambda>m. msg_type (msg_header m) = SUBMIT_BLOCK) reqs)"
  using assms
proof (induction reqs arbitrary: bc rs)
  case (Cons m reqs)
  from Cons.prems(2) obtain bc1 r rs1 where 1: "chain_request_handler A Y confirm bc m = Inr (bc1, r)"
    "serve (chain_request_handler A Y confirm) bc1 reqs = Inr (bc', rs1)"
    by (auto simp: bind_result_eq_Inr)
  have "chain_ok A bc1" by (rule chain.handler_invar [OF Cons.prems(1) 1(1)])
  from Cons.IH [OF this 1(2)] chain_handler_step [OF _ _ 1(1)] Cons.prems(1) show ?case
    by (auto simp: chain_ok_def)
qed simp

section \<open>Starting the node\<close>

lemma key_at_length: "key_at Y n p = Inr k \<Longrightarrow> length k = 32"
  by (auto simp: key_at_def bind_result_eq_Inr base58_decode_key_def intro: length_decode)

lemma map_result_set: "map_result f xs = Inr ys \<Longrightarrow> y \<in> set ys \<Longrightarrow> \<exists>x\<in>set xs. f x = Inr y"
  by (induction xs arbitrary: ys) (auto simp: bind_result_eq_Inr)

lemma genesis_tx_wf: "genesis_tx Y iter = Inr t \<Longrightarrow> tx_wf t"
  by (auto simp: genesis_tx_def bind_result_eq_Inr tx_wf_def dest: key_at_length)

lemma load_tx_wf: "load_tx Y iter = Inr t \<Longrightarrow> tx_wf t"
  by (auto simp: load_tx_def bind_result_eq_Inr tx_wf_def base58_decode_sig_def dest: key_at_length
      intro: length_decode)

lemma txs_wf:
  "map_result (genesis_tx Y) xs = Inr ts \<Longrightarrow> t \<in> set ts \<Longrightarrow> tx_wf t"
  "map_result (load_tx Y) xs = Inr ts \<Longrightarrow> t \<in> set ts \<Longrightarrow> tx_wf t"
  by (auto dest!: map_result_set intro: genesis_tx_wf load_tx_wf)

lemma genesis_block_wf: "get_genesis_block Y fs = Inr b \<Longrightarrow> block_wf b"
  by (auto simp: get_genesis_block_def bind_result_eq_Inr block_wf_def header_wf_def zero_HashInput_def
      dest: key_at_length intro: txs_wf)

lemma load_block_wf: "load_block Y junk n name = Inr b \<Longrightarrow> block_wf b"
  by (auto simp: load_block_def bind_result_eq_Inr block_wf_def header_wf_def base58_decode_uuid_def
      dest: key_at_length intro: length_decode txs_wf)

lemma load_blocks_wf: "load_blocks Y junk bc names = Inr bc' \<Longrightarrow> chain_wf bc \<Longrightarrow> chain_wf bc'"
proof (induction Y junk bc names rule: load_blocks.induct)
  case (2 Y junk bc name names)
  show ?case
  proof (cases "find_str ''Block'' name = None")
    case False
    then obtain b bc1 where b: "load_block Y junk (stored_chain bc) name = Inr b"
      and bc1: "sync_bal (bc\<lparr>blocks := blocks bc @ [b]\<rparr>) b = Inr bc1" "load_blocks Y junk bc1 names = Inr bc'"
      using "2.prems"(1) by (auto simp: bind_result_eq_Inr)
    have "chain_wf bc1" using sync_bal_wf [OF _ load_block_wf [OF b], of bc] "2.prems"(2) bc1(1) by auto
    then show ?thesis using "2.IH" False b bc1 by blast
  qed (use "2.prems" in simp)
qed simp

lemma start_chain_wf:
  assumes "new_BlockChain Y fs config_file = Inr bc0" "start_chain Y junk bc0 = Inr bc"
  shows "chain_wf bc"
proof -
  have empty: "blocks bc0 = []" "ledger bc0 = []"
    using assms(1) by (auto simp: new_BlockChain_def bind_result_eq_Inr)
  obtain g bc1 where g: "get_genesis_block Y (disk bc0) = Inr g"
    and bc1: "sync_bal (bc0\<lparr>blocks := blocks bc0 @ [g]\<rparr>) g = Inr bc1"
    and bc: "(if file_name bc1 \<noteq> [] then load_blocks Y junk bc1 (y_keys Y (stored_chain bc1))
      else Inr (bc1\<lparr>file_name := ''blockchain.yaml''\<rparr>)) = Inr bc"
    using assms(2) by (auto simp: start_chain_def load_genesis_def bind_result_eq_Inr)
  have wf1: "chain_wf bc1"
    using sync_bal_wf [OF _ genesis_block_wf [OF g], of bc0] empty bc1 by auto
  show ?thesis
  proof (cases "file_name bc1 = []")
    case True
    then show ?thesis using bc wf1 by (auto intro: chain_wf_frame)
  next
    case False
    then show ?thesis using bc wf1 load_blocks_wf by auto
  qed
qed

section \<open>The files of a node\<close>

text \<open>Answering requests, a node writes its chain file and no other.\<close>

definition same_but_chain_file :: "'n BlockChain \<Rightarrow> 'n BlockChain \<Rightarrow> bool" where
  "same_but_chain_file bc bc' \<longleftrightarrow>
     file_name bc' = file_name bc \<and> (\<forall>f. f \<noteq> file_name bc \<longrightarrow> disk bc' f = disk bc f)"

lemma write_block_files: "write_block Y bc b = Inr bc' \<Longrightarrow> same_but_chain_file bc bc'"
  by (auto simp: write_block_def bind_result_eq_Inr Let_def write_file_def same_but_chain_file_def)

lemma sync_bal_files: "sync_bal bc b = Inr bc' \<Longrightarrow> file_name bc' = file_name bc \<and> disk bc' = disk bc"
  by (auto simp: sync_bal_def bind_result_eq_Inr)

lemma chain_handler_files:
  assumes "chain_request_handler A Y confirm bc req = Inr (bc', r)"
  shows "same_but_chain_file bc bc'"
proof (cases "msg_type (msg_header req) = SUBMIT_BLOCK")
  case True
  then have "add_block A Y confirm bc (msg_data req) = Inr (bc', r)" using assms by (simp add: chain_request_handler_def)
  then obtain bc1 where "sync_bal (bc\<lparr>blocks := blocks bc @ [de_block A (msg_data req)]\<rparr>) (de_block A (msg_data req)) = Inr bc1"
    "write_block Y bc1 (de_block A (msg_data req)) = Inr bc'"
    by (auto simp: add_block_def Let_def bind_result_eq_Inr)
  then show ?thesis using sync_bal_files write_block_files by (fastforce simp: same_but_chain_file_def)
next
  case False
  then have "bc' = bc"
    using assms by (auto simp: chain_request_handler_def get_balance_def last_block_def tx_status_def
        get_num_addr_def get_total_coins_def split: MessageType.splits if_splits)
  then show ?thesis by (simp add: same_but_chain_file_def)
qed

lemma chain_serve_files:
  "serve (chain_request_handler A Y confirm) bc reqs = Inr (bc', rs) \<Longrightarrow> same_but_chain_file bc bc'"
proof (induction reqs arbitrary: bc rs)
  case (Cons m reqs)
  from Cons.prems obtain bc1 r rs1 where 1: "chain_request_handler A Y confirm bc m = Inr (bc1, r)"
    "serve (chain_request_handler A Y confirm) bc1 reqs = Inr (bc', rs1)"
    by (auto simp: bind_result_eq_Inr)
  from chain_handler_files [OF 1(1)] Cons.IH [OF 1(2)] show ?case by (simp add: same_but_chain_file_def)
qed (simp add: same_but_chain_file_def)

text \<open>The chain file is the one the configuration names, or \<open>blockchain.yaml\<close>; starting reads files only.\<close>

definition chain_file :: "'n yaml \<Rightarrow> string \<Rightarrow> 'n files \<Rightarrow> string" where
  "chain_file Y config_file fs =
     (case bind_result (LoadFile fs config_file) (\<lambda>config. as_value (y_as_string Y config [''blockchain'', ''file''])) of
        Inl e \<Rightarrow> ''blockchain.yaml''
      | Inr name \<Rightarrow> if name = [] then ''blockchain.yaml'' else name)"

lemma load_blocks_files:
  "load_blocks Y junk bc names = Inr bc' \<Longrightarrow> file_name bc' = file_name bc \<and> disk bc' = disk bc"
proof (induction names arbitrary: bc)
  case (Cons name names)
  then show ?case by (fastforce simp: bind_result_eq_Inr dest!: sync_bal_files split: if_splits)
qed simp

lemma started_chain_files:
  assumes "new_BlockChain Y fs config_file = Inr bc0" "start_chain Y junk bc0 = Inr bc"
  shows "file_name bc = chain_file Y config_file fs \<and> disk bc = fs"
proof -
  obtain config where "LoadFile fs config_file = Inr config"
    "as_value (y_as_string Y config [''blockchain'', ''file'']) = Inr (file_name bc0)" "disk bc0 = fs"
    using assms(1) by (auto simp: new_BlockChain_def bind_result_eq_Inr)
  moreover obtain bc1 where "file_name bc1 = file_name bc0" "disk bc1 = disk bc0"
    "(if file_name bc1 \<noteq> [] then load_blocks Y junk bc1 (y_keys Y (stored_chain bc1))
      else Inr (bc1\<lparr>file_name := ''blockchain.yaml''\<rparr>)) = Inr bc"
    using assms(2) by (auto simp: start_chain_def load_genesis_def bind_result_eq_Inr dest!: sync_bal_files)
  ultimately show ?thesis by (auto simp: chain_file_def bind_result_eq_Inr dest!: load_blocks_files split: if_splits)
qed

end
