(* ===== verification/BlockChain_Properties.thy ===== *)
theory BlockChain_Properties
  imports BlockChain_Correct
begin

text \<open>
  The properties of the blockchain node, with the genesis file of the repository as the concrete start.
\<close>

section \<open>The genesis file\<close>

text \<open>
  The document of genesis.yaml and, of dsc-config.yaml and dsc-key.yaml, the settings that the nodes read
  when they start; the blockchain node starts without a chain.
\<close>

definition genesis_node :: snode where
  "genesis_node =
     [([''header'', ''hash''], Y_str ''69''), ([''header'', ''prev_hash''], Y_str ''69''),
      ([''header'', ''difficulty''], Y_uint 69), ([''header'', ''timestamp''], Y_uint 69),
      ([''header'', ''id''], Y_uint 0),
      ([''transactions''], Y_maps (map (\<lambda>a. [(''src'', ''1111111111111111111111111111169''),
         (''dest'', ''1111111111111111111111111111169''), (''amount'', to_string a)]) [51, 52, 53]))]"

definition genesis_files :: "snode files" where
  "genesis_files = [GENESIS_FILE \<mapsto> genesis_node, ''dsc-config.yaml'' \<mapsto>
     [([''blockchain'', ''file''], Y_str []), ([''blockchain'', ''address''], Y_str ''tcp://127.0.0.1:10004''),
      ([''metronome'', ''address''], Y_str ''tcp://127.0.0.1:10003''),
      ([''validator'', ''address''], Y_str ''tcp://127.0.0.1:10002''), ([''validator'', ''consensus''], Y_str ''pow''),
      ([''tx_pool'', ''address''], Y_str ''tcp://127.0.0.1:10001''),
      ([''wallet'', ''public_key''], Y_str ''AKb6B2s59CSyig1UmuR5xWxVEwK1aRADHMkwkfgFgNby'')],
     ''dsc-key.yaml'' \<mapsto> [([''wallet'', ''private_key''], Y_str ''6MwAfwHiYDb1RH6uipNG9ZqRAbEnudcdF5w22Eddx4gp'')]]"

text \<open>The key that the three transactions name; the hash of the header has the same bytes.\<close>

definition genesis_key :: Ed25519Key where
  "genesis_key = zeros 30 @ [1, 42]"

definition genesis_transfer :: "u32 \<Rightarrow> Transaction" where
  "genesis_transfer a =
     \<lparr>src = genesis_key, dest = genesis_key, signature = zeros 64, tx_id = 0, amount = a, tx_timestamp = 0\<rparr>"

definition genesis_block :: Block where
  "genesis_block =
     \<lparr>header = \<lparr>input = zero_HashInput, hash = genesis_key, prev_hash = genesis_key, difficulty = 69,
                timestamp = 69, hdr_id = 0\<rparr>,
      transactions = map genesis_transfer [51, 52, 53]\<rparr>"

lemma decode_69:
  "base58_decode_key ''69'' = Inr genesis_key"
  "base58_decode_key ''1111111111111111111111111111169'' = Inr genesis_key"
  by code_simp+

lemma genesis_key_facts [simp]: "length genesis_key = 32" "genesis_key \<noteq> zero_key"
  by (simp_all add: genesis_key_def zeros_def numeral_eq_Suc)

lemma genesis_loaded: "get_genesis_block sample_yaml genesis_files = Inr genesis_block"
proof -
  have item: "genesis_tx sample_yaml [([''src''], Y_str ''1111111111111111111111111111169''),
       ([''dest''], Y_str ''1111111111111111111111111111169''), ([''amount''], Y_str (to_string a))] =
      Inr (genesis_transfer (of_nat a))" if "a < 100" for a
    using that by (simp add: genesis_tx_def key_at_def decode_69 parse_to_string genesis_transfer_def)
  have "LoadFile genesis_files GENESIS_FILE = Inr genesis_node"
    by (simp add: LoadFile_def genesis_files_def GENESIS_FILE_def)
  then show ?thesis
    by (simp add: get_genesis_block_def key_at_def decode_69 item genesis_block_def genesis_node_def
        parse_uint_def)
qed

lemma genesis_block_ok: "block_wf genesis_block"
  by (rule genesis_block_wf [OF genesis_loaded])

text \<open>The node that starts from these files.\<close>

definition genesis_node_state :: "snode BlockChain" where
  "genesis_node_state = \<lparr>file_name = [], blocks = [], ledger = [], stored_chain = [], disk = genesis_files\<rparr>"

lemma genesis_new: "new_BlockChain sample_yaml genesis_files ''dsc-config.yaml'' = Inr genesis_node_state"
  by (simp add: new_BlockChain_def LoadFile_def genesis_files_def genesis_node_state_def GENESIS_FILE_def)

lemma genesis_start:
  "\<exists>bc. start_chain sample_yaml junk genesis_node_state = Inr bc \<and> chain_wf bc \<and> blocks bc = [genesis_block]"
proof -
  obtain bc where "sync_bal (genesis_node_state\<lparr>blocks := blocks genesis_node_state @ [genesis_block]\<rparr>) genesis_block = Inr bc"
    "chain_wf bc" "blocks bc = blocks genesis_node_state @ [genesis_block]" "file_name bc = file_name genesis_node_state"
    using sync_bal_wf [of genesis_node_state genesis_block] genesis_block_ok
    by (auto simp: genesis_node_state_def)
  moreover from this(2) have "chain_wf (bc\<lparr>file_name := ''blockchain.yaml''\<rparr>)" by (rule chain_wf_frame) simp_all
  ultimately show ?thesis
    by (simp add: start_chain_def load_genesis_def genesis_loaded genesis_node_state_def)
qed

text \<open>A block with a reward and a transfer, for the runs below.\<close>

definition reward_block :: Block where
  "reward_block = sample_block [create_reward_transaction 0 \<lparr>priv_key = sample_key 1, pub_key = sample_key 1\<rparr>,
     sample_tx 1 7 20]"

lemma reward_block_ok: "block_wf reward_block"
  by (simp add: reward_block_def sample_block_def sample_header_def block_wf_def header_wf_def tx_wf_def
      create_reward_transaction_def sample_tx_def sample_key_def zero_HashInput_def)

lemma reward_alpaca: "decodes_arrays (sample_alpaca t reward_block)"
  by (simp add: decodes_arrays_def reward_block_ok)

section \<open>Properties\<close>

text \<open>
  C4. In every run of the node, from its start on any configuration and chain file through any sequence
  of answered requests, the chain is extended by the submitted blocks in order and nothing else, and
  the ledger is the result of replaying all transactions of all blocks from the empty ledger.
\<close>

theorem chain_ledger_is_replay:
  assumes "decodes_arrays A" "new_BlockChain Y fs config_file = Inr bc0" "start_chain Y junk bc0 = Inr bc"
    and "serve (chain_request_handler A Y confirm) bc reqs = Inr (bc', rs)"
  shows "blocks bc' = blocks bc @ map (\<lambda>m. de_block A (msg_data m)) (filter (\<lambda>m. msg_type (msg_header m) = SUBMIT_BLOCK) reqs)
    \<and> sync_txs [] (concat (map transactions (blocks bc'))) = Inr (ledger bc')"
proof -
  have ok: "chain_ok A bc" using assms(1) start_chain_wf [OF assms(2,3)] by (simp add: chain_ok_def)
  have "chain_ok A bc'" by (rule chain.serve_invar [OF ok assms(4)])
  then show ?thesis
    using chain_serve_blocks [OF ok assms(4)] by (simp add: chain_ok_def chain_wf_def all_txs_def)
qed

theorem chain_ledger_is_replay_witness:
  "\<exists>bc'. blocks bc' = [genesis_block, reward_block] \<and>
     sync_txs [] (concat (map transactions [genesis_block, reward_block])) = Inr (ledger (bc' :: snode BlockChain))"
proof -
  let ?A = "sample_alpaca (sample_tx 1 7 20) reward_block"
  obtain bc where bc: "start_chain sample_yaml 0 genesis_node_state = Inr bc" "chain_wf bc" "blocks bc = [genesis_block]"
    using genesis_start by blast
  have "\<exists>bc' rs. serve (chain_request_handler ?A sample_yaml (\<lambda>b. Inr ())) bc [request SUBMIT_BLOCK []] = Inr (bc', rs)"
    by (rule chain.supported_requests_served)
      (use bc(2) reward_alpaca in \<open>auto simp: chain_ok_def chain_requests_def\<close>)
  then obtain bc' rs where run:
    "serve (chain_request_handler ?A sample_yaml (\<lambda>b. Inr ())) bc [request SUBMIT_BLOCK []] = Inr (bc', rs)"
    by blast
  have r: "blocks bc' = [genesis_block, reward_block]"
    "sync_txs [] (concat (map transactions (blocks bc'))) = Inr (ledger bc')"
    using chain_ledger_is_replay [OF reward_alpaca genesis_new bc(1) run] bc(3) by (simp, blast)
  show ?thesis using r(2) unfolding r(1) by (intro exI [of _ bc'] conjI r(1))
qed

text \<open>
  C6. While no address sends to itself, the balance that the node reports for a key is, modulo 2 to the
  32, the sum of what the blocks' transactions sent to it less what it sent, rewards having no sender;
  and the coins it reports are the sum of all rewards.
\<close>

theorem balances_and_coins_exact:
  assumes "chain_wf bc" "no_self (all_txs bc)"
  shows "get_balance A bc data =
      (bc, (P_uint32 (received (de_key A data) (all_txs bc) - spent (de_key A data) (all_txs bc)), STATUS_GOOD))
    \<and> get_total_coins bc data = (bc, (P_int (rewarded (all_txs bc)), STATUS_GOOD))"
  using chain_ledger(3,4) [OF assms(1)] assms(2)
  by (simp add: get_balance_def get_total_coins_def foldl_coins bal_def [symmetric])

lemma reward_chain:
  "\<exists>bc :: snode BlockChain. chain_wf bc \<and> blocks bc = [reward_block] \<and> file_name bc = ''blockchain.yaml'' \<and> disk bc = Map.empty"
proof -
  let ?bc = "\<lparr>file_name = ''blockchain.yaml'', blocks = [], ledger = [], stored_chain = [] :: snode, disk = Map.empty\<rparr>"
  obtain bc where "chain_wf bc" "blocks bc = blocks ?bc @ [reward_block]" "file_name bc = file_name ?bc" "disk bc = disk ?bc"
    using sync_bal_wf [of ?bc reward_block] reward_block_ok by auto
  then show ?thesis by (intro exI [of _ bc]) simp
qed

lemma reward_block_txs:
  "no_self (transactions reward_block)"
  "rewarded (transactions reward_block) = 50"
  "received (sample_key 1) (transactions reward_block) = 50" "spent (sample_key 1) (transactions reward_block) = 20"
  "addresses (transactions reward_block) = {sample_key 1, sample_key 9}"
  by (auto simp: reward_block_def sample_block_def create_reward_transaction_def sample_tx_def no_self_def
      is_reward_def rewarded_def received_def spent_def addresses_def MINER_REWARD_def)

theorem balances_and_coins_exact_witness:
  "\<exists>bc :: snode BlockChain. get_balance (sample_alpaca (sample_tx 1 7 20) reward_block) bc [] = (bc, (P_uint32 30, STATUS_GOOD))
    \<and> get_total_coins bc [] = (bc, (P_int 50, STATUS_GOOD))"
proof -
  obtain bc :: "snode BlockChain" where bc: "chain_wf bc" "blocks bc = [reward_block]" using reward_chain by blast
  have txs: "all_txs bc = transactions reward_block" by (simp add: all_txs_def bc)
  show ?thesis
    using balances_and_coins_exact [OF bc(1), where A = "sample_alpaca (sample_tx 1 7 20) reward_block" and data = "[]"]
    by (intro exI [of _ bc]) (simp add: txs reward_block_txs sample_tx_def)
qed

text \<open>
  The number of addresses the node reports is the number of distinct keys that occur in the chain
  as a destination or as the source of a transaction other than a reward.
\<close>

lemma address_count_exact:
  assumes "chain_wf bc"
  shows "get_num_addr bc data = (bc, (P_int (of_nat (card (addresses (all_txs bc)))), STATUS_GOOD))"
  using chain_ledger(1,2) [OF assms] umap.size_entries [of "ledger bc"] by (simp add: get_num_addr_def)

lemma address_count_exact_witness:
  "\<exists>bc :: snode BlockChain. get_num_addr bc [] = (bc, (P_int 2, STATUS_GOOD))"
proof -
  obtain bc :: "snode BlockChain" where bc: "chain_wf bc" "blocks bc = [reward_block]" using reward_chain by blast
  have txs: "all_txs bc = transactions reward_block" by (simp add: all_txs_def bc)
  show ?thesis
    using address_count_exact [OF bc(1), of "[]"] by (intro exI [of _ bc]) (simp add: txs reward_block_txs)
qed

lemma status_in_txs_iff: "status_in_txs key ts \<longleftrightarrow> (\<exists>t\<in>set ts. tx_key t = key)"
  by (induction key ts rule: status_in_txs.induct) (auto simp: tx_key_def)

lemma status_in_blocks_eq:
  "status_in_blocks key bs = (if \<exists>b\<in>set bs. \<exists>t\<in>set (transactions b). tx_key t = key then CONFIRMED else UNKNOWN)"
  by (induction key bs rule: status_in_blocks.induct) (auto simp: status_in_txs_iff)

text \<open>
  C11. The transactions of a submitted block are reported CONFIRMED from then on: whatever requests come
  before and after, a status query that names the source and id of one of them is answered CONFIRMED;
  and a query for a key that no block holds is answered UNKNOWN.
\<close>

theorem submitted_transactions_stay_confirmed:
  assumes "chain_ok A bc" "serve (chain_request_handler A Y confirm) bc reqs = Inr (bc', rs)"
    and "req \<in> set reqs" "msg_type (msg_header req) = SUBMIT_BLOCK" "t \<in> set (transactions (de_block A (msg_data req)))"
  shows "(de_txkey A query = (src t, tx_id t) \<longrightarrow> tx_status A bc' query = (bc', (P_status CONFIRMED, STATUS_GOOD))) \<and>
    (de_txkey A query \<notin> tx_key ` set (all_txs bc') \<longrightarrow> tx_status A bc' query = (bc', (P_status UNKNOWN, STATUS_GOOD)))"
proof (intro conjI)
  have "de_block A (msg_data req) \<in> set (blocks bc')"
    using chain_serve_blocks [OF assms(1,2)] assms(3,4) by auto
  then show "de_txkey A query = (src t, tx_id t) \<longrightarrow> tx_status A bc' query = (bc', (P_status CONFIRMED, STATUS_GOOD))"
    using assms(5) by (auto simp: tx_status_def status_in_blocks_eq tx_key_def)
  show "de_txkey A query \<notin> tx_key ` set (all_txs bc') \<longrightarrow> tx_status A bc' query = (bc', (P_status UNKNOWN, STATUS_GOOD))"
    unfolding tx_status_def status_in_blocks_eq all_txs_def by (auto intro: rev_image_eqI)
qed

theorem submitted_transactions_stay_confirmed_witness:
  "\<exists>bc :: snode BlockChain. tx_status (sample_alpaca (sample_tx 1 7 20) reward_block) bc [] = (bc, (P_status CONFIRMED, STATUS_GOOD))"
proof -
  let ?A = "sample_alpaca (sample_tx 1 7 20) reward_block" and ?reqs = "[request SUBMIT_BLOCK []]"
  obtain bc :: "snode BlockChain" where bc: "chain_wf bc" using reward_chain by blast
  then have ok: "chain_ok ?A bc" using reward_alpaca by (simp add: chain_ok_def)
  have "\<exists>bc' rs. serve (chain_request_handler ?A sample_yaml (\<lambda>b. Inr ())) bc ?reqs = Inr (bc', rs)"
    by (rule chain.supported_requests_served) (use ok in \<open>auto simp: chain_requests_def\<close>)
  then obtain bc' rs where run: "serve (chain_request_handler ?A sample_yaml (\<lambda>b. Inr ())) bc ?reqs = Inr (bc', rs)"
    by blast
  from submitted_transactions_stay_confirmed [OF ok run, of "request SUBMIT_BLOCK []" "sample_tx 1 7 20" "[]"]
  show ?thesis by (intro exI [of _ bc']) (simp add: reward_block_def sample_block_def tx_key_def)
qed

text \<open>
  A transfer from an address that is not yet in the ledger to itself creates coins: the address is
  credited and never debited, so its balance and the sum of all balances grow by the amount. Later
  transfers from it to itself change no balance. (The genesis file has three such transfers.)
\<close>

lemma self_transfer_mints:
  assumes "umap_invar l" "length k = 32" "k \<noteq> zero_key" "k \<notin> dom (map_of l)" "src t = k" "dest t = k"
    and "src t' = k" "dest t' = k"
  shows "\<exists>l'. sync_one l t = Inr l' \<and> bal l' k = amount t \<and> coins l' = coins l + amount t \<and>
    (\<exists>l''. sync_one l' t' = Inr l'' \<and> bal l'' = bal l' \<and> coins l'' = coins l')"
proof -
  have len: "length (src t) = 32" "length (src t') = 32" using assms by simp_all
  obtain l' where 1: "sync_one l t = Inr l'" "umap_invar l'"
    "dom (map_of l') = dom (map_of l) \<union> {dest t} \<union> (if is_reward t then {} else {src t})"
    "\<And>j. bal l' j = bal l j + (if j = dest t then amount t else 0) - (if j = src t \<and> debited l t then amount t else 0)"
    using sync_one_effect [OF len(1) assms(1)] by blast
  obtain l'' where 2: "sync_one l' t' = Inr l''" "umap_invar l''"
    "dom (map_of l'') = dom (map_of l') \<union> {dest t'} \<union> (if is_reward t' then {} else {src t'})"
    "\<And>j. bal l'' j = bal l' j + (if j = dest t' then amount t' else 0) - (if j = src t' \<and> debited l' t' then amount t' else 0)"
    using sync_one_effect [OF len(2) 1(2)] by blast
  have d: "\<not> debited l t" "debited l' t'"
    using assms 1(3) by (auto simp: debited_def fresh_self_def is_reward_def)
  have "bal l' k = amount t" using 1(4) [of k] d(1) assms(4,6) by (simp add: bal_def domIff)
  moreover have "bal l'' = bal l'" using 2(4) d(2) assms(7,8) by (intro ext) simp
  ultimately show ?thesis
    using 1(1) 2(1) sync_one_coins [OF len(1) assms(1) 1(1)] sync_one_coins [OF len(2) 1(2) 2(1)] d by simp
qed

lemma self_transfer_mints_witness:
  "\<exists>l. sync_txs [] (map genesis_transfer [51, 52]) = Inr l \<and> coins l = 51"
proof -
  obtain l' l'' where "sync_one [] (genesis_transfer 51) = Inr l'" "coins l' = coins [] + 51"
    "sync_one l' (genesis_transfer 52) = Inr l''" "coins l'' = coins l'"
    using self_transfer_mints [of "[]" genesis_key "genesis_transfer 51" "genesis_transfer 52"]
    by (auto simp: umap_invar_def genesis_transfer_def)
  then show ?thesis by (simp add: coins_def umap.total_def)
qed

text \<open>
  A transfer is never refused: a source that is not in the ledger and sends a positive amount to
  another address ends with the balance 2 to the 32 less the amount, and the sum of all balances stays
  the same modulo 2 to the 32.
\<close>

lemma unknown_sender_gets_huge_balance:
  assumes "umap_invar l" "length (src t) = 32" "src t \<noteq> zero_key" "src t \<notin> dom (map_of l)" "src t \<noteq> dest t" "amount t \<noteq> 0"
  shows "\<exists>l'. sync_one l t = Inr l' \<and> unat (bal l' (src t)) = 2 ^ 32 - unat (amount t) \<and> coins l' = coins l"
proof -
  obtain l' where 1: "sync_one l t = Inr l'" "umap_invar l'"
    "dom (map_of l') = dom (map_of l) \<union> {dest t} \<union> (if is_reward t then {} else {src t})"
    "\<And>j. bal l' j = bal l j + (if j = dest t then amount t else 0) - (if j = src t \<and> debited l t then amount t else 0)"
    using sync_one_effect [OF assms(2,1)] by blast
  have d: "debited l t" using assms by (auto simp: debited_def fresh_self_def is_reward_def)
  have "bal l' (src t) = - amount t"
    using 1(4) [of "src t"] d assms(4,5) by (simp add: bal_def domIff)
  moreover have "unat (- amount t) = 2 ^ 32 - unat (amount t)"
  proof -
    have "0 < unat (amount t)" using assms(6) by (simp add: unat_gt_0)
    then show ?thesis using unat_sub_if' [of 0 "amount t"] by simp
  qed
  ultimately show ?thesis using 1(1) sync_one_coins [OF assms(2,1) 1(1)] d by simp
qed

lemma unknown_sender_gets_huge_balance_witness:
  "\<exists>l'. sync_one [] (sample_tx 1 7 1) = Inr l' \<and> unat (bal l' (sample_key 1)) = 4294967295"
  using unknown_sender_gets_huge_balance [of "[]" "sample_tx 1 7 1"]
  by (auto simp: sample_tx_def umap_invar_def)

end
