(* ===== verification/Metronome.thy ===== *)
theory Metronome
  imports Server
begin

text \<open>
  The metronome of src/metronome.cpp: it accepts at most one block per id, keeps the difficulty, and
  submits an empty block when a block time has passed without one. Its main loop runs beside the
  handlers; the step relation interleaves them at the points where \<open>block_mutex\<close> is free.
\<close>

section \<open>State and operations\<close>

text \<open>\<open>active_validators\<close> is an \<open>int\<close>, kept by its bits.\<close>

record Metronome =
  sleeping :: bool
  prev_solved_time :: u64
  curr_solved_time :: u64
  met_difficulty :: u32
  met_last_block :: BlockHeader
  active_validators :: u32

text \<open>
  The constructor: \<open>lb\<close> is the answer of the blockchain node, \<open>prev\<close> and \<open>cur\<close> are the values of the
  two times, which it does not set.
\<close>

definition new_Metronome :: "u64 \<Rightarrow> u64 \<Rightarrow> BlockHeader \<Rightarrow> Metronome" where
  "new_Metronome prev cur lb =
     \<lparr>sleeping = True, prev_solved_time = prev, curr_solved_time = cur, met_difficulty = MIN_DIFFICULTY,
      met_last_block = lb, active_validators = 0\<rparr>"

text \<open>
  \<open>int solved_time = curr_solved_time - prev_solved_time\<close> keeps the low 32 bits of the difference, as a
  signed number.
\<close>

definition solved_time :: "Metronome \<Rightarrow> int" where
  "solved_time m = sint (ucast (curr_solved_time m - prev_solved_time m) :: u32)"

definition update_difficulty :: "Metronome \<Rightarrow> bool \<Rightarrow> Metronome" where
  "update_difficulty m timed_out =
     (if timed_out
      then if met_difficulty m \<le> MIN_DIFFICULTY then m
           else m\<lparr>met_difficulty := met_difficulty m - 1\<rparr>
      else if solved_time m < int BLOCK_TIME div 2 * 1000000
           then m\<lparr>met_difficulty := met_difficulty m + 1\<rparr>
           else m)"

text \<open>
  \<open>submit_block\<close> sends the block to the blockchain node; \<open>chain\<close> is the type of the message that comes
  back, or the exception that receiving it raises.
\<close>

definition submit_block :: "(Block \<Rightarrow> MessageType result) \<Rightarrow> Block \<Rightarrow> int result" where
  "submit_block chain b = bind_result (chain b) (\<lambda>ty. Inr (if ty = STATUS_GOOD then 0 else - 1))"

definition accept_block :: "Metronome \<Rightarrow> BlockHeader \<Rightarrow> Metronome" where
  "accept_block m hdr =
     m\<lparr>prev_solved_time := curr_solved_time m, curr_solved_time := timestamp hdr, met_last_block := hdr\<rparr>"

text \<open>\<open>now\<close> is \<open>get_timestamp()\<close>, \<open>rnd\<close> are the bytes \<open>rand() % 255\<close>.\<close>

definition empty_block :: "Metronome \<Rightarrow> u64 \<Rightarrow> Blake3Hash \<Rightarrow> Block" where
  "empty_block m now rnd =
     \<lparr>header = \<lparr>input = zero_HashInput, hash = rnd, prev_hash = hash (met_last_block m),
                difficulty = met_difficulty m, timestamp = now, hdr_id = hdr_id (met_last_block m) + 1\<rparr>,
      transactions = []\<rparr>"

definition submit_empty_block ::
  "(Block \<Rightarrow> MessageType result) \<Rightarrow> u64 \<Rightarrow> Blake3Hash \<Rightarrow> Metronome \<Rightarrow> Metronome result" where
  "submit_empty_block chain now rnd m =
     (let b = empty_block m now rnd
      in bind_result (submit_block chain b) (\<lambda>r.
           if r < 0 then Inr m else Inr (accept_block m (header b))))"

definition handle_block ::
  "alpaca \<Rightarrow> (Block \<Rightarrow> MessageType result) \<Rightarrow> Metronome \<Rightarrow> byte list \<Rightarrow> Metronome handled" where
  "handle_block A chain m data =
     (let block = de_block A data
      in if hdr_id (header block) \<noteq> hdr_id (met_last_block m) + 1 then Inr (m, (P_null, STATUS_BAD))
         else bind_result (submit_block chain block) (\<lambda>r.
           if r < 0 then Inr (m, (P_null, STATUS_BAD))
           else Inr ((accept_block m (header block))\<lparr>sleeping := False\<rparr>, (P_null, STATUS_GOOD))))"

definition get_difficulty :: "Metronome \<Rightarrow> byte list \<Rightarrow> Metronome \<times> reply" where
  "get_difficulty m data = (m, (P_uint32 (met_difficulty m), STATUS_GOOD))"

definition register_validator :: "Metronome \<Rightarrow> byte list \<Rightarrow> Metronome \<times> reply" where
  "register_validator m data =
     (m\<lparr>active_validators := active_validators m + 1\<rparr>, (P_null, STATUS_GOOD))"

definition query_validators :: "Metronome \<Rightarrow> byte list \<Rightarrow> Metronome \<times> reply" where
  "query_validators m data = (m, (P_int (active_validators m), STATUS_GOOD))"

definition met_request_handler ::
  "alpaca \<Rightarrow> (Block \<Rightarrow> MessageType result) \<Rightarrow> Metronome \<Rightarrow> Message \<Rightarrow> Metronome handled" where
  "met_request_handler A chain m req =
     (case msg_type (msg_header req) of
        SUBMIT_BLOCK \<Rightarrow> handle_block A chain m (msg_data req)
      | QUERY_DIFFICULTY \<Rightarrow> Inr (get_difficulty m (msg_data req))
      | REGISTER_VALIDATOR \<Rightarrow> Inr (register_validator m (msg_data req))
      | QUERY_NUM_VALIDATORS \<Rightarrow> Inr (query_validators m (msg_data req))
      | _ \<Rightarrow> Inl (Runtime_error ''Unknown message type.''))"

section \<open>The main loop beside the handlers\<close>

text \<open>
  Where the main loop is: before it takes the lock, waiting on the condition variable until a deadline
  (in microseconds), between the wait and \<open>update_difficulty\<close>, and before \<open>submit_empty_block\<close>.
\<close>

datatype phase = Top | In_wait nat | Update bool | Submit_empty

text \<open>
  The metronome, its main loop and the headers of the blockchain node, which gets exactly the blocks
  it answers STATUS_GOOD for.
\<close>

record met_system =
  met :: Metronome
  phase_of :: phase
  chain_headers :: "BlockHeader list"

text \<open>
  Events: the main loop enters the wait, is woken (notified or spuriously), times out at a time,
  updates the difficulty, submits an empty block; a handler handles a submitted block, or another
  request. \<open>accept\<close> says whether the blockchain node answers STATUS_GOOD.
\<close>

datatype met_event =
    Enter | Wake | Timeout nat | Update_difficulty
  | Submit_empty_block u64 Blake3Hash bool | Handle_block Block bool | Register

text \<open>The end of a block time, as a number: the source adds in \<open>std::chrono\<close> integers, which these sums do not reach.\<close>

definition deadline :: "Metronome \<Rightarrow> nat" where
  "deadline m = unat (timestamp (met_last_block m)) + BLOCK_TIME * 1000000"

definition answer :: "bool \<Rightarrow> Block \<Rightarrow> MessageType result" where
  "answer accept b = Inr (if accept then STATUS_GOOD else STATUS_BAD)"

text \<open>The handler applied to a decoded block.\<close>

definition handled_block :: "bool \<Rightarrow> Metronome \<Rightarrow> Block \<Rightarrow> Metronome" where
  "handled_block accept m b =
     (if hdr_id (header b) = hdr_id (met_last_block m) + 1 \<and> accept
      then (accept_block m (header b))\<lparr>sleeping := False\<rparr> else m)"

lemma handle_block_handled:
  "\<exists>r. handle_block A (answer accept) m data = Inr (handled_block accept m (de_block A data), r)"
  by (simp add: handle_block_def handled_block_def submit_block_def answer_def Let_def)

inductive met_step :: "met_system \<Rightarrow> met_event \<Rightarrow> met_system \<Rightarrow> bool" where
  enter_wait: "phase_of s = Top \<Longrightarrow> sleeping (met s) \<Longrightarrow>
     met_step s Enter (s\<lparr>phase_of := In_wait (deadline (met s))\<rparr>)"
| enter_solved: "phase_of s = Top \<Longrightarrow> \<not> sleeping (met s) \<Longrightarrow>
     met_step s Enter (s\<lparr>met := (met s)\<lparr>sleeping := True\<rparr>, phase_of := Update False\<rparr>)"
| wake_again: "phase_of s = In_wait t \<Longrightarrow> sleeping (met s) \<Longrightarrow> met_step s Wake s"
| wake_solved: "phase_of s = In_wait t \<Longrightarrow> \<not> sleeping (met s) \<Longrightarrow>
     met_step s Wake (s\<lparr>met := (met s)\<lparr>sleeping := True\<rparr>, phase_of := Update False\<rparr>)"
| timeout: "phase_of s = In_wait t \<Longrightarrow> t \<le> now \<Longrightarrow>
     met_step s (Timeout now) (s\<lparr>met := (met s)\<lparr>sleeping := True\<rparr>, phase_of := Update True\<rparr>)"
| update: "phase_of s = Update b \<Longrightarrow>
     met_step s Update_difficulty
       (s\<lparr>met := update_difficulty (met s) b, phase_of := (if b then Submit_empty else Top)\<rparr>)"
| submit: "phase_of s = Submit_empty \<Longrightarrow> submit_empty_block (answer accept) now rnd (met s) = Inr m' \<Longrightarrow>
     met_step s (Submit_empty_block now rnd accept)
       (s\<lparr>met := m', phase_of := Top,
          chain_headers := chain_headers s @ (if accept then [header (empty_block (met s) now rnd)] else [])\<rparr>)"
| handle: "met_step s (Handle_block b accept)
       (s\<lparr>met := handled_block accept (met s) b,
          chain_headers := chain_headers s @
            (if hdr_id (header b) = hdr_id (met_last_block (met s)) + 1 \<and> accept then [header b] else [])\<rparr>)"
| register: "met_step s Register (s\<lparr>met := fst (register_validator (met s) [])\<rparr>)"

inductive met_run :: "met_system \<Rightarrow> met_event list \<Rightarrow> met_system \<Rightarrow> bool" where
  run_nil: "met_run s [] s"
| run_step: "met_run s es t \<Longrightarrow> met_step t e u \<Longrightarrow> met_run s (es @ [e]) u"

inductive_simps met_step_simps:
  "met_step s Enter t" "met_step s Wake t" "met_step s (Timeout now) t" "met_step s Update_difficulty t"
  "met_step s (Submit_empty_block now rnd accept) t" "met_step s (Handle_block b accept) t" "met_step s Register t"

inductive_cases met_stepE: "met_step s e t"

text \<open>The start: the last block of the chain is the one the constructor was given.\<close>

definition met_start :: "u64 \<Rightarrow> u64 \<Rightarrow> BlockHeader list \<Rightarrow> met_system" where
  "met_start prev cur hs = \<lparr>met = new_Metronome prev cur (last hs), phase_of = Top, chain_headers = hs\<rparr>"

section \<open>Single operations\<close>

lemma accept_block_sel [simp]:
  "met_last_block (accept_block m h) = h" "curr_solved_time (accept_block m h) = timestamp h"
  "prev_solved_time (accept_block m h) = curr_solved_time m" "met_difficulty (accept_block m h) = met_difficulty m"
  "active_validators (accept_block m h) = active_validators m" "sleeping (accept_block m h) = sleeping m"
  by (simp_all add: accept_block_def)

lemma update_difficulty_frame [frame_simps]:
  "met_last_block (update_difficulty m b) = met_last_block m"
  "active_validators (update_difficulty m b) = active_validators m" "sleeping (update_difficulty m b) = sleeping m"
  "prev_solved_time (update_difficulty m b) = prev_solved_time m"
  "curr_solved_time (update_difficulty m b) = curr_solved_time m"
  by (simp_all add: update_difficulty_def)

lemma update_difficulty_timed_out [frame_simps]:
  "met_difficulty (update_difficulty m True) =
     (if met_difficulty m \<le> MIN_DIFFICULTY then met_difficulty m else met_difficulty m - 1)"
  by (simp add: update_difficulty_def)

lemma submit_empty_block_answer:
  "submit_empty_block (answer accept) now rnd m =
     Inr (if accept then accept_block m (header (empty_block m now rnd)) else m)"
  by (simp add: submit_empty_block_def submit_block_def answer_def)

lemma empty_block_sel [simp]:
  "hdr_id (header (empty_block m now rnd)) = hdr_id (met_last_block m) + 1"
  "prev_hash (header (empty_block m now rnd)) = hash (met_last_block m)"
  "difficulty (header (empty_block m now rnd)) = met_difficulty m"
  "timestamp (header (empty_block m now rnd)) = now" "transactions (empty_block m now rnd) = []"
  by (simp_all add: empty_block_def)

lemma handled_block_frame [frame_simps]:
  "met_difficulty (handled_block accept m b) = met_difficulty m"
  "active_validators (handled_block accept m b) = active_validators m"
  by (simp_all add: handled_block_def)

text \<open>The difficulty moves by at most one, downwards only above the minimum.\<close>

lemma update_difficulty_bounds:
  assumes "MIN_DIFFICULTY \<le> met_difficulty m" "unat (met_difficulty m) < 2 ^ 32 - 1"
  shows "MIN_DIFFICULTY \<le> met_difficulty (update_difficulty m b)"
    and "unat (met_difficulty (update_difficulty m b)) \<le> unat (met_difficulty m) + 1"
proof -
  have up: "unat (met_difficulty m + 1) = unat (met_difficulty m) + 1"
    using assms(2) by (simp add: unat_word_ariths)
  have down: "unat (met_difficulty m - 1) = unat (met_difficulty m) - 1" if "20 < unat (met_difficulty m)"
    using that by (subst unat_sub) (simp_all add: word_le_nat_alt)
  show "MIN_DIFFICULTY \<le> met_difficulty (update_difficulty m b)"
    using assms(1) up down by (auto simp: update_difficulty_def MIN_DIFFICULTY_def word_le_nat_alt word_less_nat_alt)
  show "unat (met_difficulty (update_difficulty m b)) \<le> unat (met_difficulty m) + 1"
    using up down by (auto simp: update_difficulty_def MIN_DIFFICULTY_def word_le_nat_alt)
qed

section \<open>Invariants of the interleaving\<close>

text \<open>The chain is linked by ids, and its last header is the last block the metronome knows.\<close>

definition met_linked :: "met_system \<Rightarrow> bool" where
  "met_linked s \<longleftrightarrow> chain_headers s \<noteq> [] \<and> last (chain_headers s) = met_last_block (met s) \<and>
     (\<forall>i < length (chain_headers s). hdr_id (chain_headers s ! i) = hdr_id (hd (chain_headers s)) + of_nat i)"

lemma linked_append:
  assumes "hs \<noteq> []" "\<forall>i < length hs. hdr_id (hs ! i) = hdr_id (hd hs) + of_nat i" "hdr_id h = hdr_id (last hs) + 1"
  shows "\<forall>i < length (hs @ [h]). hdr_id ((hs @ [h]) ! i) = hdr_id (hd (hs @ [h])) + of_nat i"
proof -
  have "hdr_id (last hs) = hdr_id (hd hs) + of_nat (length hs - 1)"
    using assms(1,2) by (simp add: last_conv_nth)
  moreover have "of_nat (length hs) = of_nat (length hs - 1) + (1 :: u32)"
    using assms(1) by (cases hs) (simp_all add: add.commute)
  ultimately show ?thesis using assms by (auto simp: nth_append less_Suc_eq)
qed

lemma met_step_linked: "met_step s e t \<Longrightarrow> met_linked s \<Longrightarrow> met_linked t"
proof (induction rule: met_step.induct)
  case (submit s accept now rnd m')
  then show ?case
    using linked_append [of "chain_headers s" "header (empty_block (met s) now rnd)"]
    by (cases accept) (auto simp: met_linked_def submit_empty_block_answer)
next
  case (handle s b accept)
  then show ?case
    using linked_append [of "chain_headers s" "header b"]
    by (cases "hdr_id (header b) = hdr_id (met_last_block (met s)) + 1 \<and> accept")
      (auto simp: met_linked_def handled_block_def)
qed (auto simp: met_linked_def frame_simps register_validator_def)

lemma met_run_linked: "met_run s es t \<Longrightarrow> met_linked s \<Longrightarrow> met_linked t"
  by (induction rule: met_run.induct) (auto dest: met_step_linked)

lemma met_run_extends: "met_run s es t \<Longrightarrow> \<exists>hs. chain_headers t = chain_headers s @ hs"
  by (induction rule: met_run.induct) (fastforce elim!: met_stepE)+

lemma met_step_difficulty:
  assumes "met_step s e t" "MIN_DIFFICULTY \<le> met_difficulty (met s)" "unat (met_difficulty (met s)) < 2 ^ 32 - 1"
  shows "MIN_DIFFICULTY \<le> met_difficulty (met t) \<and> unat (met_difficulty (met t)) \<le> unat (met_difficulty (met s)) + 1"
  using assms
proof (induction rule: met_step.induct)
  case (update s b)
  then show ?case using update_difficulty_bounds [of "met s" b] by simp
qed (auto simp: frame_simps submit_empty_block_answer register_validator_def)

lemma met_run_difficulty:
  "met_run s es t \<Longrightarrow> met_difficulty (met s) = MIN_DIFFICULTY \<Longrightarrow> length es < 2 ^ 32 - 21 \<Longrightarrow>
   MIN_DIFFICULTY \<le> met_difficulty (met t) \<and> unat (met_difficulty (met t)) \<le> 20 + length es"
proof (induction rule: met_run.induct)
  case (run_step s es t e u)
  then show ?case using met_step_difficulty [OF run_step.hyps(2)] by fastforce
qed (simp add: MIN_DIFFICULTY_def)

section \<open>The steps as a function\<close>

text \<open>An event leads to at most one state; the function computes it, for evaluating runs.\<close>

definition solved_wakeup :: "met_system \<Rightarrow> met_system" where
  "solved_wakeup s = s\<lparr>met := (met s)\<lparr>sleeping := True\<rparr>, phase_of := Update False\<rparr>"

fun met_exec :: "met_system \<Rightarrow> met_event \<Rightarrow> met_system option" where
  "met_exec s Enter =
     (if phase_of s = Top
      then Some (if sleeping (met s) then s\<lparr>phase_of := In_wait (deadline (met s))\<rparr> else solved_wakeup s)
      else None)"
| "met_exec s Wake =
     (case phase_of s of In_wait t \<Rightarrow> Some (if sleeping (met s) then s else solved_wakeup s) | _ \<Rightarrow> None)"
| "met_exec s (Timeout now) =
     (case phase_of s of
        In_wait t \<Rightarrow> if t \<le> now then Some (s\<lparr>met := (met s)\<lparr>sleeping := True\<rparr>, phase_of := Update True\<rparr>) else None
      | _ \<Rightarrow> None)"
| "met_exec s Update_difficulty =
     (case phase_of s of
        Update b \<Rightarrow> Some (s\<lparr>met := update_difficulty (met s) b, phase_of := (if b then Submit_empty else Top)\<rparr>)
      | _ \<Rightarrow> None)"
| "met_exec s (Submit_empty_block now rnd accept) =
     (if phase_of s = Submit_empty
      then let h = header (empty_block (met s) now rnd) in
           Some (s\<lparr>met := (if accept then accept_block (met s) h else met s), phase_of := Top,
                   chain_headers := chain_headers s @ (if accept then [h] else [])\<rparr>)
      else None)"
| "met_exec s (Handle_block b accept) =
     Some (s\<lparr>met := handled_block accept (met s) b,
             chain_headers := chain_headers s @
               (if hdr_id (header b) = hdr_id (met_last_block (met s)) + 1 \<and> accept then [header b] else [])\<rparr>)"
| "met_exec s Register = Some (s\<lparr>met := fst (register_validator (met s) [])\<rparr>)"

lemma met_exec_step: "met_exec s e = Some t \<longleftrightarrow> met_step s e t"
  by (cases e) (auto simp: met_step_simps solved_wakeup_def submit_empty_block_answer Let_def split: phase.splits)

lemma met_step_deterministic: "met_step s e t \<Longrightarrow> met_step s e u \<Longrightarrow> t = u"
  by (simp add: met_exec_step [symmetric])

fun met_execs :: "met_system \<Rightarrow> met_event list \<Rightarrow> met_system option" where
  "met_execs s [] = Some s"
| "met_execs s (e # es) = Option.bind (met_exec s e) (\<lambda>t. met_execs t es)"

lemma met_run_Cons: "met_run t es u \<Longrightarrow> met_step s e t \<Longrightarrow> met_run s (e # es) u"
proof (induction rule: met_run.induct)
  case (run_nil t)
  then show ?case using met_run.run_step [OF met_run.run_nil, of s e t] by simp
next
  case (run_step t es v e' w)
  then show ?case using met_run.run_step [of s "e # es" v e' w] by simp
qed

lemma met_execs_run: "met_execs s es = Some t \<Longrightarrow> met_run s es t"
proof (induction es arbitrary: s)
  case (Cons e es)
  then obtain u where "met_exec s e = Some u" "met_execs u es = Some t" by (auto simp: bind_eq_Some_conv)
  then show ?case using Cons.IH met_run_Cons met_exec_step by blast
qed (simp add: met_run.run_nil)

end
