(* ===== verification/Metronome_Correct.thy ===== *)
theory Metronome_Correct
  imports Metronome Samples
begin

text \<open>
  The metronome as a server, and its properties: single blocks per id, the linked chain and the bounds
  of the difficulty in every interleaving, and what a missed deadline leads to.
\<close>

section \<open>The handlers as a server\<close>

definition met_requests :: "MessageType set" where
  "met_requests = {SUBMIT_BLOCK, QUERY_DIFFICULTY, REGISTER_VALIDATOR, QUERY_NUM_VALIDATORS}"

definition above_minimum :: "Metronome \<Rightarrow> bool" where
  "above_minimum m \<longleftrightarrow> MIN_DIFFICULTY \<le> met_difficulty m"

lemma handle_block_difficulty:
  "handle_block A chain m data = Inr (m', r) \<Longrightarrow> met_difficulty m' = met_difficulty m"
  by (auto simp: handle_block_def Let_def bind_result_eq_Inr split: if_splits)

lemma met_handler_difficulty:
  "met_request_handler A chain m req = Inr (m', r) \<Longrightarrow> met_difficulty m' = met_difficulty m"
  by (auto simp: met_request_handler_def get_difficulty_def register_validator_def query_validators_def
      split: MessageType.splits dest: handle_block_difficulty)

interpretation metronome: started_server "met_request_handler A chain" above_minimum "new_Metronome prev cur lb"
  for A chain prev cur lb
  by unfold_locales (auto simp: above_minimum_def new_Metronome_def dest: met_handler_difficulty)

interpretation metronome: answering_server "met_request_handler A (\<lambda>b. Inr (chain b))" above_minimum met_requests
  "Runtime_error ''Unknown message type.''" for A chain
proof unfold_locales
  show "\<exists>s' r. met_request_handler A (\<lambda>b. Inr (chain b)) s req = Inr (s', r)"
    if "msg_type (msg_header req) \<in> met_requests" for s req
    using that by (auto simp: met_requests_def met_request_handler_def handle_block_def submit_block_def
        Let_def get_difficulty_def register_validator_def query_validators_def)
  show "met_request_handler A (\<lambda>b. Inr (chain b)) s req = Inl (Runtime_error ''Unknown message type.'')"
    if "msg_type (msg_header req) \<notin> met_requests" for s req
    using that by (cases "msg_type (msg_header req)") (auto simp: met_requests_def met_request_handler_def)
qed

section \<open>Small runs\<close>

lemma met_linked_start: "met_linked (met_start prev cur [h])"
  by (simp add: met_linked_def met_start_def new_Metronome_def)

section \<open>Properties\<close>

text \<open>
  C15. In every interleaving of the main loop with the handlers, the headers that the blockchain node
  got are linked by consecutive ids (modulo 2 to the 32) and end with the block the metronome takes as
  the last one; the chain is only ever extended.
\<close>

theorem metronome_chain_linked:
  assumes "met_run (met_start prev cur [h]) es s"
  shows "\<exists>hs. chain_headers s = h # hs \<and> met_last_block (met s) = last (h # hs) \<and>
    (\<forall>i < length (h # hs). hdr_id ((h # hs) ! i) = hdr_id h + of_nat i)"
proof -
  obtain hs where hs: "chain_headers s = h # hs"
    using met_run_extends [OF assms] by (auto simp: met_start_def)
  moreover have "met_linked s" by (rule met_run_linked [OF assms met_linked_start])
  ultimately show ?thesis by (auto simp: met_linked_def)
qed

text \<open>A run in which a validator's block is accepted and then a deadline is missed.\<close>

definition sample_run :: "met_event list" where
  "sample_run = [Enter, Handle_block \<lparr>header = sample_header 5, transactions = []\<rparr> True, Wake, Update_difficulty,
     Enter, Timeout 9000000, Update_difficulty, Submit_empty_block 9000001 (sample_key 3) True]"

lemma sample_run_reachable: "\<exists>s. met_run (met_start 0 0 [sample_header 4]) sample_run s \<and> length (chain_headers s) = 3"
proof -
  have "\<exists>s. met_execs (met_start 0 0 [sample_header 4]) sample_run = Some s \<and> length (chain_headers s) = 3"
    by (simp add: sample_run_def met_start_def new_Metronome_def handled_block_def sample_header_def deadline_def
        BLOCK_TIME_def frame_simps solved_wakeup_def Let_def)
  then show ?thesis using met_execs_run by blast
qed

theorem metronome_chain_linked_witness:
  "\<exists>s hs. met_run (met_start 0 0 [sample_header 4]) sample_run s \<and> chain_headers s = sample_header 4 # hs \<and>
     length hs = 2 \<and> hdr_id (hs ! 1) = 6"
proof -
  obtain s where s: "met_run (met_start 0 0 [sample_header 4]) sample_run s" "length (chain_headers s) = 3"
    using sample_run_reachable by blast
  obtain hs where "chain_headers s = sample_header 4 # hs"
    "\<forall>i < length (sample_header 4 # hs). hdr_id ((sample_header 4 # hs) ! i) = hdr_id (sample_header 4) + of_nat i"
    using metronome_chain_linked [OF s(1)] by blast
  moreover have "length hs = 2" using s(2) calculation(1) by simp
  ultimately have "hdr_id (hs ! 1) = 6" by (auto simp: sample_header_def dest: spec [of _ 2])
  then show ?thesis using s(1) \<open>chain_headers s = _\<close> \<open>length hs = 2\<close> by blast
qed

text \<open>
  C16. In every run of fewer than 2 to the 32 less 21 events the difficulty stays at least 20, and it is
  at most 20 plus the number of events, so it does not wrap around.
\<close>

theorem difficulty_stays_in_bounds:
  assumes "met_run (met_start prev cur hs) es s" "length es < 2 ^ 32 - 21"
  shows "20 \<le> unat (met_difficulty (met s)) \<and> unat (met_difficulty (met s)) \<le> 20 + length es"
proof -
  have "met_difficulty (met (met_start prev cur hs)) = MIN_DIFFICULTY" by (simp add: met_start_def new_Metronome_def)
  from met_run_difficulty [OF assms(1) this assms(2)] show ?thesis
    by (simp add: MIN_DIFFICULTY_def word_le_nat_alt)
qed

theorem difficulty_stays_in_bounds_witness:
  "\<exists>s. met_run (met_start 0 0 [sample_header 4]) sample_run s \<and> 20 \<le> unat (met_difficulty (met s)) \<and>
     unat (met_difficulty (met s)) \<le> 28"
proof -
  obtain s where s: "met_run (met_start 0 0 [sample_header 4]) sample_run s" using sample_run_reachable by blast
  have "length sample_run = 8" by (simp add: sample_run_def)
  with difficulty_stays_in_bounds [OF s] s show ?thesis by auto
qed

text \<open>
  One block per id: once a submitted block was answered STATUS_GOOD, every other block with the same
  id is answered STATUS_BAD without asking the blockchain node, and the state stays as it is.
\<close>

lemma second_block_with_same_id_rejected:
  assumes "handle_block A chain m data = Inr (m', (P_null, STATUS_GOOD))"
    and "hdr_id (header (de_block A data')) = hdr_id (header (de_block A data))"
  shows "handle_block A chain' m' data' = Inr (m', (P_null, STATUS_BAD))"
proof -
  have "hdr_id (met_last_block m') = hdr_id (header (de_block A data))"
    using assms(1) by (auto simp: handle_block_def Let_def bind_result_eq_Inr split: if_splits)
  then show ?thesis using assms(2) by (simp add: handle_block_def)
qed

lemma second_block_with_same_id_rejected_witness:
  "handle_block (sample_alpaca (sample_tx 1 7 20) (sample_block [])) (\<lambda>b. Inl (Runtime_error ''no answer''))
     ((accept_block (new_Metronome 0 0 (sample_header 0)) (sample_header 1))\<lparr>sleeping := False\<rparr>) [] =
   Inr ((accept_block (new_Metronome 0 0 (sample_header 0)) (sample_header 1))\<lparr>sleeping := False\<rparr>, (P_null, STATUS_BAD))"
proof -
  let ?A = "sample_alpaca (sample_tx 1 7 20) (sample_block [])"
  have "handle_block ?A (\<lambda>b. Inr STATUS_GOOD) (new_Metronome 0 0 (sample_header 0)) [] =
      Inr ((accept_block (new_Metronome 0 0 (sample_header 0)) (sample_header 1))\<lparr>sleeping := False\<rparr>, (P_null, STATUS_GOOD))"
    by (simp add: handle_block_def submit_block_def new_Metronome_def sample_block_def sample_header_def)
  from second_block_with_same_id_rejected [OF this refl] show ?thesis .
qed

text \<open>
  C17. When the deadline passes, the main loop submits an empty block that continues the chain: from
  every state in which it waits, whatever the handlers did before, the timeout, the update of the
  difficulty and the submission can be taken in this order; if the blockchain node accepts, the chain
  ends with one more block, with the next id, the hash of the last block as previous hash and the
  lowered difficulty.
\<close>

theorem missed_deadline_gives_empty_block:
  assumes "phase_of s = In_wait t" "t \<le> now"
  shows "\<exists>s' h. met_run s [Timeout now, Update_difficulty, Submit_empty_block now' rnd True] s' \<and>
    phase_of s' = Top \<and> chain_headers s' = chain_headers s @ [h] \<and>
    hdr_id h = hdr_id (met_last_block (met s)) + 1 \<and> prev_hash h = hash (met_last_block (met s)) \<and>
    difficulty h = (if met_difficulty (met s) \<le> MIN_DIFFICULTY then met_difficulty (met s) else met_difficulty (met s) - 1)"
proof -
  let ?m = "update_difficulty ((met s)\<lparr>sleeping := True\<rparr>) True"
  let ?h = "header (empty_block ?m now' rnd)"
  have "met_execs s [Timeout now, Update_difficulty, Submit_empty_block now' rnd True] =
      Some (s\<lparr>met := accept_block ?m ?h, phase_of := Top, chain_headers := chain_headers s @ [?h]\<rparr>)"
    using assms by (simp add: Let_def)
  from met_execs_run [OF this] show ?thesis
    by (rule_tac exI, rule_tac x = ?h in exI, intro conjI, assumption) (simp_all add: frame_simps not_less)
qed

theorem missed_deadline_gives_empty_block_witness:
  "\<exists>s' h. met_run \<lparr>met = new_Metronome 0 0 (sample_header 4), phase_of = In_wait 7000000, chain_headers = [sample_header 4]\<rparr>
       [Timeout 7000001, Update_difficulty, Submit_empty_block 7000002 (sample_key 3) True] s' \<and>
     chain_headers s' = [sample_header 4, h] \<and> hdr_id h = 5"
  using missed_deadline_gives_empty_block [of "\<lparr>met = new_Metronome 0 0 (sample_header 4), phase_of = In_wait 7000000,
      chain_headers = [sample_header 4]\<rparr>" 7000000 7000001 7000002 "sample_key 3"]
  by (auto simp: new_Metronome_def sample_header_def)

text \<open>
  A block that arrives together with the deadline is counted as missing: if a handler accepts a
  block while the main loop waits and the wait ends by its timeout, the main loop treats the round as
  timed out although the block is there, lowers the difficulty and puts an empty block right behind it.
\<close>

lemma block_at_deadline_counts_as_missed:
  assumes "phase_of s = In_wait t" "t \<le> now" "hdr_id (header b) = hdr_id (met_last_block (met s)) + 1"
  shows "\<exists>s' h. met_run s [Handle_block b True, Timeout now, Update_difficulty, Submit_empty_block now' rnd True] s' \<and>
    chain_headers s' = chain_headers s @ [header b, h] \<and> hdr_id h = hdr_id (header b) + 1 \<and>
    (MIN_DIFFICULTY < met_difficulty (met s) \<longrightarrow> met_difficulty (met s') = met_difficulty (met s) - 1)"
proof -
  let ?m1 = "(accept_block (met s) (header b))\<lparr>sleeping := False\<rparr>"
  let ?m = "update_difficulty (?m1\<lparr>sleeping := True\<rparr>) True"
  let ?h = "header (empty_block ?m now' rnd)"
  have "met_execs s [Handle_block b True, Timeout now, Update_difficulty, Submit_empty_block now' rnd True] =
      Some (s\<lparr>met := accept_block ?m ?h, phase_of := Top, chain_headers := chain_headers s @ [header b, ?h]\<rparr>)"
    using assms by (simp add: handled_block_def Let_def)
  from met_execs_run [OF this] show ?thesis
    by (rule_tac exI, rule_tac x = ?h in exI, intro conjI, assumption) (simp_all add: frame_simps not_less)
qed

lemma block_at_deadline_counts_as_missed_witness:
  "\<exists>s' h. met_run \<lparr>met = (new_Metronome 0 0 (sample_header 4))\<lparr>met_difficulty := 30\<rparr>, phase_of = In_wait 7000000,
         chain_headers = [sample_header 4]\<rparr>
       [Handle_block \<lparr>header = sample_header 5, transactions = []\<rparr> True, Timeout 7000001, Update_difficulty,
        Submit_empty_block 7000002 (sample_key 3) True] s' \<and>
     chain_headers s' = [sample_header 4, sample_header 5, h] \<and> met_difficulty (met s') = 29"
  using block_at_deadline_counts_as_missed [of "\<lparr>met = (new_Metronome 0 0 (sample_header 4))\<lparr>met_difficulty := 30\<rparr>,
      phase_of = In_wait 7000000, chain_headers = [sample_header 4]\<rparr>" 7000000 7000001
      "\<lparr>header = sample_header 5, transactions = []\<rparr>" 7000002 "sample_key 3"]
  by (auto simp: new_Metronome_def sample_header_def MIN_DIFFICULTY_def)

text \<open>
  After a solved round the difficulty rises exactly when the difference of the two times, in
  microseconds, is below 3000000 or, because it is cut to a signed 32-bit number, at least 2 to the 31
  (about 36 minutes): with a difference below 2 to the 32, a very slow block raises the difficulty.
\<close>

lemma difficulty_rises_iff_fast_or_truncated:
  assumes "unat (curr_solved_time m - prev_solved_time m) < 2 ^ 32"
  shows "met_difficulty (update_difficulty m False) =
    (if unat (curr_solved_time m - prev_solved_time m) < 3000000 \<or>
        2 ^ 31 \<le> unat (curr_solved_time m - prev_solved_time m)
     then met_difficulty m + 1 else met_difficulty m)"
proof -
  define d where "d = curr_solved_time m - prev_solved_time m"
  have u: "unat (ucast d :: u32) = unat d"
    using assms by (simp add: d_def unsigned_ucast_eq take_bit_eq_mod unat_mod_distrib)
  define n where "n = unat d"
  have "sint (ucast d :: u32) = (if n < 2 ^ 31 then int n else int n - 2 ^ 32)"
    unfolding sint_u32 u n_def ..
  moreover have "n < 2 ^ 32" using assms by (simp add: n_def d_def)
  ultimately show ?thesis
    unfolding d_def [symmetric] n_def [symmetric]
    by (auto simp: update_difficulty_def solved_time_def d_def [symmetric] BLOCK_TIME_def)
qed

lemma difficulty_rises_iff_fast_or_truncated_witness:
  "met_difficulty (update_difficulty (new_Metronome 0 2147483648 (sample_header 4)) False) = 21"
  using difficulty_rises_iff_fast_or_truncated [of "new_Metronome 0 2147483648 (sample_header 4)"]
  by (simp add: new_Metronome_def MIN_DIFFICULTY_def)

text \<open>
  The number of validators is never reset: in every run it is, modulo 2 to the 32, the number of all
  registrations since the start, however many blocks were accepted in between.
\<close>

lemma validators_never_reset:
  assumes "met_run (met_start prev cur hs) es s"
  shows "active_validators (met s) = of_nat (length (filter (\<lambda>e. e = Register) es))"
proof -
  have "active_validators (met t) = active_validators (met s0) + of_nat (length (filter (\<lambda>e. e = Register) es))"
    if "met_run s0 es t" for s0 t
    using that
  proof (induction rule: met_run.induct)
    case (run_step s es t e u)
    then show ?case
      by (auto elim!: met_stepE simp: frame_simps submit_empty_block_answer register_validator_def)
  qed simp
  from this [OF assms] show ?thesis by (simp add: met_start_def new_Metronome_def)
qed

lemma validators_never_reset_witness:
  "\<exists>s. met_run (met_start 0 0 [sample_header 4]) ([Register] @ sample_run @ [Register]) s \<and> active_validators (met s) = 2"
proof -
  have "\<exists>s. met_execs (met_start 0 0 [sample_header 4]) ([Register] @ sample_run @ [Register]) = Some s"
    by (simp add: sample_run_def met_start_def new_Metronome_def handled_block_def sample_header_def deadline_def
        BLOCK_TIME_def frame_simps solved_wakeup_def Let_def register_validator_def)
  then obtain s where s: "met_run (met_start 0 0 [sample_header 4]) ([Register] @ sample_run @ [Register]) s"
    using met_execs_run by blast
  from validators_never_reset [OF s] s show ?thesis by (auto simp: sample_run_def)
qed

end
