(* ===== verification/Codec.thy ===== *)
theory Codec
  imports BlockChain_Properties
begin

text \<open>
  A serializer for evaluation that really encodes: transactions, keys and blocks as their fields one
  after another, integers little-endian. It shows that what the composed system assumes of alpaca can
  hold; nothing of the model depends on it.
\<close>

definition read_word :: "nat \<Rightarrow> byte list \<Rightarrow> 'a::len word" where
  "read_word n bs = of_nat (le_value (take n bs))"

lemma read_le_bytes:
  fixes w :: "'a::len word"
  shows "LENGTH('a) \<le> 8 * n \<Longrightarrow> read_word n (le_bytes n w @ rest) = w"
  by (simp add: read_word_def le_value_le_bytes)

definition dec_tx :: "byte list \<Rightarrow> Transaction" where
  "dec_tx bs =
     \<lparr>src = take 32 bs, dest = take 32 (drop 32 bs), signature = take 64 (drop 64 bs),
      tx_id = read_word 8 (drop 128 bs), amount = read_word 4 (drop 136 bs),
      tx_timestamp = read_word 8 (drop 144 bs)\<rparr>"

lemma dec_tx_bytes: "tx_wf t \<Longrightarrow> dec_tx (tx_bytes (zeros 4) t) = t"
proof -
  assume wf: "tx_wf t"
  have ts: "read_word 8 (le_bytes 8 (tx_timestamp t)) = tx_timestamp t"
    using read_le_bytes [of 8 "tx_timestamp t" "[]"] by simp
  show ?thesis
    using wf by (simp add: dec_tx_def tx_bytes_def tx_wf_def read_le_bytes ts)
qed

definition enc_header :: "BlockHeader \<Rightarrow> byte list" where
  "enc_header h =
     fingerprint (input h) @ public_key (input h) @ le_bytes 8 (nonce (input h)) @ hash h @ prev_hash h
       @ le_bytes 4 (difficulty h) @ le_bytes 8 (timestamp h) @ le_bytes 4 (hdr_id h)"

definition dec_header :: "byte list \<Rightarrow> BlockHeader" where
  "dec_header bs =
     \<lparr>input = \<lparr>fingerprint = take 16 bs, public_key = take 32 (drop 16 bs), nonce = read_word 8 (drop 48 bs)\<rparr>,
      hash = take 32 (drop 56 bs), prev_hash = take 32 (drop 88 bs), difficulty = read_word 4 (drop 120 bs),
      timestamp = read_word 8 (drop 124 bs), hdr_id = read_word 4 (drop 132 bs)\<rparr>"

lemma length_enc_header [length_facts]: "header_wf h \<Longrightarrow> length (enc_header h) = 136"
  by (simp add: enc_header_def header_wf_def)

lemma dec_enc_header: "header_wf h \<Longrightarrow> dec_header (enc_header h @ rest) = h"
  by (simp add: dec_header_def enc_header_def header_wf_def read_le_bytes)

function dec_txs :: "byte list \<Rightarrow> Transaction list" where
  "dec_txs bs = (if length bs < 152 then [] else dec_tx (take 152 bs) # dec_txs (drop 152 bs))"
  by pat_completeness auto
termination by (relation "measure length") auto

declare dec_txs.simps [simp del]

lemma dec_enc_txs: "\<forall>t\<in>set ts. tx_wf t \<Longrightarrow> dec_txs (concat (map (tx_bytes (zeros 4)) ts)) = ts"
proof (induction ts)
  case (Cons t ts)
  have "length (tx_bytes (zeros 4) t) = 152"
    using Cons.prems length_tx_bytes [of t "zeros 4"] by (simp add: sizeof_Transaction_def)
  then show ?case using Cons dec_tx_bytes by (subst dec_txs.simps) simp
qed (subst dec_txs.simps, simp)

definition enc_block :: "Block \<Rightarrow> byte list" where
  "enc_block b = enc_header (header b) @ concat (map (tx_bytes (zeros 4)) (transactions b))"

definition dec_block :: "byte list \<Rightarrow> Block" where
  "dec_block bs = \<lparr>header = dec_header bs, transactions = dec_txs (drop 136 bs)\<rparr>"

lemma dec_enc_block: "block_wf b \<Longrightarrow> dec_block (enc_block b) = b"
  by (simp add: dec_block_def enc_block_def block_wf_def dec_enc_header length_enc_header dec_enc_txs)

text \<open>Bytes that decode to fields of other lengths, which the C++ types exclude, give a fixed value.\<close>

definition codec_alpaca :: alpaca where
  "codec_alpaca =
     (sample_alpaca (sample_tx 1 7 20) reward_block)
       \<lparr>ser_payload := (\<lambda>p. case p of P_tx t \<Rightarrow> tx_bytes (zeros 4) t | P_block b \<Rightarrow> enc_block b
            | P_header h \<Rightarrow> enc_header h | P_txkey k \<Rightarrow> fst k @ le_bytes 8 (snd k)
            | P_uint32 x \<Rightarrow> le_bytes 4 x | P_int x \<Rightarrow> le_bytes 4 x | _ \<Rightarrow> []),
        de_uint32 := read_word 4,
        de_tx := (\<lambda>bs. let t = dec_tx bs in if tx_wf t then t else sample_tx 1 7 20),
        de_txkey := (\<lambda>bs. (take 32 bs, read_word 8 (drop 32 bs))),
        de_block_header := dec_header, de_block := (\<lambda>bs. let b = dec_block bs in if block_wf b then b else reward_block)\<rparr>"

lemma codec_sel:
  "tx_wf t \<Longrightarrow> de_tx codec_alpaca (ser_payload codec_alpaca (P_tx t)) = t"
  "block_wf b \<Longrightarrow> de_block codec_alpaca (ser_payload codec_alpaca (P_block b)) = b"
  "length k = 32 \<Longrightarrow> de_txkey codec_alpaca (ser_payload codec_alpaca (P_txkey (k, i))) = (k, i)"
  "header_wf h \<Longrightarrow> de_block_header codec_alpaca (ser_payload codec_alpaca (P_header h)) = h"
  "de_uint32 codec_alpaca (ser_payload codec_alpaca (P_uint32 x)) = x"
  "de_uint32 codec_alpaca (ser_payload codec_alpaca (P_int x)) = x"
proof -
  have "read_word 8 (le_bytes 8 i) = i" using read_le_bytes [of 8 i "[]"] by simp
  then show "length k = 32 \<Longrightarrow> de_txkey codec_alpaca (ser_payload codec_alpaca (P_txkey (k, i))) = (k, i)"
    by (simp add: codec_alpaca_def)
  show "header_wf h \<Longrightarrow> de_block_header codec_alpaca (ser_payload codec_alpaca (P_header h)) = h"
    using dec_enc_header [of h "[]"] by (simp add: codec_alpaca_def)
  have "read_word 4 (le_bytes 4 x) = x" using read_le_bytes [of 4 x "[]"] by simp
  then show "de_uint32 codec_alpaca (ser_payload codec_alpaca (P_uint32 x)) = x"
    "de_uint32 codec_alpaca (ser_payload codec_alpaca (P_int x)) = x"
    by (simp_all add: codec_alpaca_def)
qed (simp_all add: codec_alpaca_def dec_tx_bytes dec_enc_block)

lemma codec_arrays: "decodes_arrays codec_alpaca"
  by (simp add: decodes_arrays_def codec_alpaca_def Let_def reward_block_ok)

end
