(* ===== verification/Network.thy ===== *)
theory Network
  imports TxPool_Correct BlockChain_Properties Metronome_Correct Codec
begin

text \<open>
  The nodes together: the transaction pool, the blockchain node and the metronome as the handlers of
  src/tx_pool.cpp, src/blockchain.cpp and src/metronome.cpp drive one another. Wallets post transactions,
  validators pop them and submit blocks to the metronome, which passes a block with the next id on to
  the blockchain node, which answers and then has the pool confirm it.
\<close>

section \<open>State and steps\<close>

text \<open>
  \<open>in_flight\<close> is the block whose \<open>CONFIRM_BLOCK\<close> request is on its way to the pool; \<open>blockmutex\<close> is held
  until the pool has answered, so no other block is added before. \<open>posted\<close> records the keys of the
  transactions that the pool accepted, with their repetitions: the pool does not look whether it has
  seen a key before.
\<close>

record 'n network =
  pool :: TxPool
  chain :: "'n BlockChain"
  metro :: Metronome
  in_flight :: "Block option"
  posted :: "(Ed25519Key \<times> u64) multiset"

text \<open>What a node decodes from a block another node sent.\<close>

definition received_block :: "alpaca \<Rightarrow> Block \<Rightarrow> Block" where
  "received_block A b = de_block A (ser_payload A (P_block b))"

text \<open>
  Each step is one handler run under its lock, and the exchange of messages inside it. Wallets post
  what they like, also a transaction with a key they have used before.
\<close>

inductive net_step :: "alpaca \<Rightarrow> 'n yaml \<Rightarrow> openssl \<Rightarrow> 'n network \<Rightarrow> 'n network \<Rightarrow> bool" for A Y ossl where
  post: "add_transaction A ossl pad (pool s) data = (p', (P_null, STATUS_GOOD)) \<Longrightarrow>
     net_step A Y ossl s (s\<lparr>pool := p', posted := add_mset (tx_key (de_tx A data)) (posted s)\<rparr>)"
| post_bad: "add_transaction A ossl pad (pool s) data = (p', (P_null, STATUS_BAD)) \<Longrightarrow>
     net_step A Y ossl s (s\<lparr>pool := p'\<rparr>)"
| pop: "pop_transactions (pool s) data = (p', r) \<Longrightarrow> net_step A Y ossl s (s\<lparr>pool := p'\<rparr>)"
| submit: "in_flight s = None \<Longrightarrow> hdr_id (header (de_block A data)) = hdr_id (met_last_block (metro s)) + 1 \<Longrightarrow>
     add_block A Y (\<lambda>_. Inr ()) (chain s) (ser_payload A (P_block (de_block A data))) = Inr (c', (P_null, ty)) \<Longrightarrow>
     handle_block A (\<lambda>_. Inr ty) (metro s) data = Inr (m', r) \<Longrightarrow>
     net_step A Y ossl s
       (s\<lparr>chain := c', metro := m', in_flight := Some (received_block A (de_block A data))\<rparr>)"
| reject: "hdr_id (header (de_block A data)) \<noteq> hdr_id (met_last_block (metro s)) + 1 \<Longrightarrow>
     handle_block A reply (metro s) data = Inr (m', r) \<Longrightarrow> net_step A Y ossl s (s\<lparr>metro := m'\<rparr>)"
| empty: "in_flight s = None \<Longrightarrow> length rnd = 32 \<Longrightarrow>
     add_block A Y (\<lambda>_. Inr ()) (chain s) (ser_payload A (P_block (empty_block (metro s) now rnd))) =
       Inr (c', (P_null, ty)) \<Longrightarrow>
     submit_empty_block (\<lambda>_. Inr ty) now rnd (metro s) = Inr m' \<Longrightarrow>
     net_step A Y ossl s
       (s\<lparr>chain := c', metro := m', in_flight := Some (received_block A (empty_block (metro s) now rnd))\<rparr>)"
| difficulty: "net_step A Y ossl s (s\<lparr>metro := update_difficulty (metro s) b\<rparr>)"
| confirm: "in_flight s = Some b \<Longrightarrow>
     confirm_transactions A (pool s) (ser_payload A (P_block b)) = (p', r) \<Longrightarrow>
     net_step A Y ossl s (s\<lparr>pool := p', in_flight := None\<rparr>)"

definition net_run :: "alpaca \<Rightarrow> 'n yaml \<Rightarrow> openssl \<Rightarrow> 'n network \<Rightarrow> 'n network \<Rightarrow> bool" where
  "net_run A Y ossl = (net_step A Y ossl)\<^sup>*\<^sup>*"

text \<open>
  The start: an empty pool, a blockchain node that has started, and a metronome that has asked it for
  its last block.
\<close>

definition net_start :: "'n BlockChain \<Rightarrow> u64 \<Rightarrow> u64 \<Rightarrow> 'n network" where
  "net_start bc prev cur =
     \<lparr>pool = empty_pool, chain = bc, metro = new_Metronome prev cur (header (last (blocks bc))),
      in_flight = None, posted = {#}\<rparr>"

text \<open>What the nodes rely on: decoding gives arrays of the right lengths, and a sent block arrives.\<close>

definition faithful :: "alpaca \<Rightarrow> bool" where
  "faithful A \<longleftrightarrow> decodes_arrays A \<and> (\<forall>b. block_wf b \<longrightarrow> received_block A b = b)"

lemma codec_faithful: "faithful codec_alpaca"
  by (simp add: faithful_def codec_arrays received_block_def codec_sel)

section \<open>The invariant\<close>

definition chain_keys :: "'n BlockChain \<Rightarrow> (Ed25519Key \<times> u64) set" where
  "chain_keys bc = keys_of (all_txs bc)"

text \<open>The keys waiting in the pool, with their repetitions, and whether each was accepted once.\<close>

definition queued :: "TxPool \<Rightarrow> (Ed25519Key \<times> u64) multiset" where
  "queued p = mset (map tx_key (submitted_queue p @ unconfirmed_queue p))"

definition posted_once :: "(Ed25519Key \<times> u64) multiset \<Rightarrow> bool" where
  "posted_once ks \<longleftrightarrow> (\<forall>k. count ks k \<le> 1)"

definition net_inv :: "'n network \<Rightarrow> bool" where
  "net_inv s \<longleftrightarrow> pool_wf (pool s) \<and> (posted_once (posted s) \<longrightarrow> pool_exact (pool s)) \<and> chain_wf (chain s) \<and>
     met_last_block (metro s) = header (last (blocks (chain s))) \<and>
     (\<forall>b. in_flight s = Some b \<longrightarrow> b \<in> set (blocks (chain s))) \<and>
     queued (pool s) \<subseteq># posted s \<and>
     set_mset (posted s) \<subseteq> submitted_keys (pool s) \<union> unconfirmed_keys (pool s) \<union> chain_keys (chain s)"

lemma set_queued [simp]: "set_mset (queued p) = keys_of (submitted_queue p) \<union> keys_of (unconfirmed_queue p)"
  by (simp add: queued_def)

lemma queued_posted: "net_inv s \<Longrightarrow> keys_of (submitted_queue (pool s)) \<union> keys_of (unconfirmed_queue (pool s)) \<subseteq> set_mset (posted s)"
  by (metis net_inv_def set_mset_mono set_queued)

lemma chain_keys_add: "blocks bc' = blocks bc @ [b] \<Longrightarrow> chain_keys bc' = chain_keys bc \<union> keys_of (transactions b)"
  by (simp add: chain_keys_def all_txs_def)

lemma block_keys_in_chain: "b \<in> set (blocks bc) \<Longrightarrow> keys_of (transactions b) \<subseteq> chain_keys bc"
  by (auto simp: chain_keys_def all_txs_def keys_of_def simp del: image_keys_of)

text \<open>Adding a block that was sent, as the chain node does it.\<close>

lemma add_sent_block:
  assumes "faithful A" "chain_wf bc" "block_wf b"
    and "add_block A Y (\<lambda>_. Inr ()) bc (ser_payload A (P_block b)) = Inr (c', (P_null, ty))"
  shows "ty = STATUS_GOOD \<and> chain_wf c' \<and> blocks c' = blocks bc @ [b] \<and> received_block A b = b"
proof -
  have b: "de_block A (ser_payload A (P_block b)) = b" "received_block A b = b"
    using assms(1,3) by (simp_all add: faithful_def received_block_def)
  then obtain bc' where "chain_wf bc'" "blocks bc' = blocks bc @ [b]"
    "add_block A Y (\<lambda>_. Inr ()) bc (ser_payload A (P_block b)) = Inr (bc', (P_null, STATUS_GOOD))"
    using add_block_wf [OF assms(2), of A "ser_payload A (P_block b)" Y "\<lambda>_. Inr ()"] assms(3) by auto
  then show ?thesis using assms(4) b(2) by simp
qed

text \<open>Popping moves keys, posting adds one, confirming removes at most one copy of each key of the block.\<close>

lemma pop_queued:
  assumes "pop_transactions p data = (p', r)"
  shows "queued p' = queued p"
proof -
  have "submitted_queue p' = drop (BLOCK_SIZE - 1) (submitted_queue p)" "unconfirmed_queue p' = unconfirmed_queue p @ popped p"
    using assms by (auto simp: pop_transactions_eq)
  moreover have "mset (submitted_queue p) = mset (popped p) + mset (drop (BLOCK_SIZE - 1) (submitted_queue p))"
    by (metis mset_append popped_split)
  ultimately show ?thesis by (simp add: queued_def)
qed

lemma post_queued:
  assumes "add_transaction A ossl pad p data = (p', (P_null, STATUS_GOOD))"
  shows "queued p' = add_mset (tx_key (de_tx A data)) (queued p)"
  using assms by (auto simp: queued_def add_transaction_def Let_def split: if_splits)

lemma confirm_queued:
  assumes "confirm_transactions A p data = (p', r)"
  obtains d where "queued p = queued p' + mset (map tx_key d)" "distinct (map tx_key d)"
    "keys_of d \<subseteq> keys_of (transactions (de_block A data))"
    "submitted_keys p \<union> unconfirmed_keys p \<subseteq> submitted_keys p' \<union> unconfirmed_keys p' \<union> keys_of d"
proof -
  obtain r' u d where st: "settle (keys_of (transactions (de_block A data))) (unconfirmed_queue p) = (r', u, d)"
    by (metis prod_cases3)
  note s = confirm_transactions_settle [OF st] settle_dropped [OF st] settle_mset [OF st]
  have "queued p = queued p' + mset (map tx_key d)"
    using s assms by (auto simp: queued_def)
  moreover have "submitted_keys p \<union> unconfirmed_keys p \<subseteq> submitted_keys p' \<union> unconfirmed_keys p' \<union> keys_of d"
    using s(1) assms by auto
  ultimately show thesis using s(2) by (intro that) auto
qed

section \<open>Every step keeps the invariant\<close>

lemma last_header_wf: "chain_wf bc \<Longrightarrow> header_wf (header (last (blocks bc)))"
  by (simp add: chain_wf_def block_wf_def)

lemma empty_block_wf:
  "header_wf (met_last_block m) \<Longrightarrow> length rnd = 32 \<Longrightarrow> block_wf (empty_block m now rnd)"
  by (simp add: empty_block_def block_wf_def header_wf_def zero_HashInput_def)

text \<open>The two ways a block gets into the chain: the metronome passes it on, and the chain node stores it.\<close>

lemma net_inv_add:
  assumes "net_inv s" "faithful A" "block_wf b"
    and "add_block A Y (\<lambda>_. Inr ()) (chain s) (ser_payload A (P_block b)) = Inr (c', (P_null, ty))"
    and "met_last_block m' = header b"
  shows "net_inv (s\<lparr>chain := c', metro := m', in_flight := Some (received_block A b)\<rparr>)"
proof -
  have c: "chain_wf c'" "blocks c' = blocks (chain s) @ [b]" "received_block A b = b"
    using add_sent_block [OF assms(2) _ assms(3,4)] assms(1) by (auto simp: net_inv_def)
  show ?thesis
    using assms(1,5) c chain_keys_add [OF c(2)] by (auto simp: net_inv_def)
qed

lemma handle_block_last:
  assumes "handle_block A reply m data = Inr (m', r)"
  shows "hdr_id (header (de_block A data)) \<noteq> hdr_id (met_last_block m) + 1 \<Longrightarrow> m' = m"
    and "hdr_id (header (de_block A data)) = hdr_id (met_last_block m) + 1 \<Longrightarrow> reply (de_block A data) = Inr STATUS_GOOD \<Longrightarrow>
      met_last_block m' = header (de_block A data)"
  using assms by (auto simp: handle_block_def submit_block_def Let_def)

lemma submit_empty_last:
  "submit_empty_block (\<lambda>_. Inr STATUS_GOOD) now rnd m = Inr m' \<Longrightarrow> met_last_block m' = header (empty_block m now rnd)"
  by (auto simp: submit_empty_block_def submit_block_def Let_def)

lemma add_block_good: "add_block A Y (\<lambda>_. Inr ()) bc data = Inr (c', (P_null, ty)) \<Longrightarrow> ty = STATUS_GOOD"
  by (auto simp: add_block_def Let_def bind_result_eq_Inr)

lemma net_step_inv:
  assumes "net_step A Y ossl s t" "faithful A" "net_inv s"
  shows "net_inv t"
  using assms(1)
proof (cases rule: net_step.cases)
  case (post pad data p')
  let ?k = "tx_key (de_tx A data)"
  have p': "p' = fst (add_transaction A ossl pad (pool s) data)" using post(2) by simp
  have wf: "pool_wf p'" using add_transaction_wf assms(3) unfolding p' by (simp add: net_inv_def)
  have ex: "pool_exact p'" if once: "posted_once (posted t)"
  proof -
    have c: "count (posted s) k + (if k = ?k then 1 else 0) \<le> 1" for k
      using spec [OF once [unfolded posted_once_def post(1)], of k] by (simp split: if_splits)
    have "posted_once (posted s)" unfolding posted_once_def using add_leD1 [OF c] by blast
    moreover have "?k \<notin># posted s" using c [of ?k] by (simp add: not_in_iff)
    ultimately show ?thesis
      using add_transaction_exact [of "pool s" A data ossl pad] queued_posted [OF assms(3)] assms(3)
      unfolding p' by (auto simp: net_inv_def)
  qed
  have "submitted_keys p' = insert ?k (submitted_keys (pool s))" "unconfirmed_keys p' = unconfirmed_keys (pool s)"
    using post(2) by (auto simp: add_transaction_def Let_def pool_key_defs split: if_splits)
  then show ?thesis using assms(3) wf ex post_queued [OF post(2)] unfolding post(1) by (auto simp: net_inv_def)
next
  case (post_bad pad data p')
  then have "p' = pool s" by (auto simp: add_transaction_def Let_def split: if_splits)
  then show ?thesis using post_bad(1) assms(3) by simp
next
  case (pop data p' r)
  have p': "p' = fst (pop_transactions (pool s) data)" using pop(2) by simp
  have "submitted_keys p' \<union> unconfirmed_keys p' = submitted_keys (pool s) \<union> unconfirmed_keys (pool s) \<union> keys_of (popped (pool s))"
    using pop_transactions_keys unfolding p' by auto
  then show ?thesis
    using pop_transactions_exact [of "pool s" data] pop_transactions_wf [of "pool s" data] pop_queued [OF pop(2)] assms(3)
    unfolding pop(1) net_inv_def p' by auto
next
  case (submit data c' ty m' r)
  have "block_wf (de_block A data)" using assms(2) by (simp add: faithful_def decodes_arrays_def)
  moreover have "met_last_block m' = header (de_block A data)"
    using handle_block_last(2) [OF submit(5)] submit(3) add_block_good [OF submit(4)] by simp
  ultimately show ?thesis unfolding submit(1) using net_inv_add [OF assms(3,2) _ submit(4)] by blast
next
  case (reject data reply m' r)
  then have "m' = metro s" using handle_block_last(1) [OF reject(3)] by simp
  then show ?thesis using reject(1) assms(3) by simp
next
  case (empty rnd now c' ty m')
  have "block_wf (empty_block (metro s) now rnd)"
    using assms(3) last_header_wf [of "chain s"] empty(3) by (intro empty_block_wf) (auto simp: net_inv_def)
  moreover have "met_last_block m' = header (empty_block (metro s) now rnd)"
    using empty(5) add_block_good [OF empty(4)] submit_empty_last by blast
  ultimately show ?thesis unfolding empty(1) using net_inv_add [OF assms(3,2) _ empty(4)] by blast
next
  case (difficulty b)
  then show ?thesis using assms(3) by (simp add: net_inv_def frame_simps)
next
  case (confirm b p' r)
  have p': "p' = fst (confirm_transactions A (pool s) (ser_payload A (P_block b)))" using confirm(3) by simp
  have "de_block A (ser_payload A (P_block b)) = b"
    using assms(2,3) confirm(2) by (simp add: net_inv_def chain_wf_def faithful_def received_block_def)
  then obtain d where d: "queued (pool s) = queued p' + mset (map tx_key d)" "keys_of d \<subseteq> keys_of (transactions b)"
    "submitted_keys (pool s) \<union> unconfirmed_keys (pool s) \<subseteq> submitted_keys p' \<union> unconfirmed_keys p' \<union> keys_of d"
    by (metis confirm_queued [OF confirm(3)])
  have "keys_of d \<subseteq> chain_keys (chain s)"
    using d(2) block_keys_in_chain assms(3) confirm(2) by (fastforce simp: net_inv_def)
  moreover have "queued p' \<subseteq># posted s" using assms(3) unfolding net_inv_def d(1) by (metis mset_subset_eq_add_left subset_mset.order_trans)
  moreover have "pool_wf p'" "pool_exact (pool s) \<Longrightarrow> pool_exact p'"
    using confirm_transactions_wf confirm_transactions_exact assms(3) unfolding p' by (simp_all add: net_inv_def)
  moreover have "set_mset (posted s) \<subseteq> submitted_keys p' \<union> unconfirmed_keys p' \<union> chain_keys (chain s)"
    using assms(3) d(3) calculation(1) unfolding net_inv_def by blast
  ultimately show ?thesis
    using assms(3) unfolding confirm(1) net_inv_def by simp
qed

lemma net_run_inv: "net_run A Y ossl s t \<Longrightarrow> faithful A \<Longrightarrow> net_inv s \<Longrightarrow> net_inv t"
  unfolding net_run_def by (induction rule: rtranclp_induct) (auto intro: net_step_inv)

lemma net_start_inv: "chain_wf bc \<Longrightarrow> net_inv (net_start bc prev cur)"
  using empty_pool_exact empty_pool_wf by (simp add: net_inv_def net_start_def new_Metronome_def empty_pool_def queued_def)

text \<open>The ids of the blocks added since the start.\<close>

fun ids_from :: "u32 \<Rightarrow> Block list \<Rightarrow> bool" where
  "ids_from i [] = True"
| "ids_from i (b # bs) = (hdr_id (header b) = i + 1 \<and> ids_from (i + 1) bs)"

lemma ids_from_append:
  "ids_from i (bs @ [b]) \<longleftrightarrow>
     ids_from i bs \<and> hdr_id (header b) = (if bs = [] then i else hdr_id (header (last bs))) + 1"
  by (induction i bs rule: ids_from.induct) auto

definition extends :: "'n BlockChain \<Rightarrow> 'n network \<Rightarrow> bool" where
  "extends bc s \<longleftrightarrow> (\<exists>bs. blocks (chain s) = blocks bc @ bs \<and> ids_from (hdr_id (header (last (blocks bc)))) bs)"

lemma extends_append:
  assumes "extends bc s" "blocks (chain t) = blocks (chain s) @ [b]"
    and "hdr_id (header b) = hdr_id (header (last (blocks (chain s)))) + 1"
  shows "extends bc t"
proof -
  obtain bs where bs: "blocks (chain s) = blocks bc @ bs" "ids_from (hdr_id (header (last (blocks bc)))) bs"
    using assms(1) by (auto simp: extends_def)
  then have "ids_from (hdr_id (header (last (blocks bc)))) (bs @ [b])"
    using assms(3) by (simp add: ids_from_append)
  then show ?thesis unfolding extends_def using assms(2) bs(1) by (intro exI [of _ "bs @ [b]"]) simp
qed

lemma net_step_extends:
  assumes "net_step A Y ossl s t" "faithful A" "net_inv s" "extends bc s"
  shows "extends bc t"
  using assms(1)
proof (cases rule: net_step.cases)
  case (submit data c' ty m' r)
  have b: "block_wf (de_block A data)" "chain_wf (chain s)"
    using assms(2,3) by (simp_all add: faithful_def decodes_arrays_def net_inv_def)
  show ?thesis
    using add_sent_block [OF assms(2) b(2,1) submit(4)] submit(3) assms(3) unfolding submit(1)
    by (intro extends_append [OF assms(4), where b = "de_block A data"]) (simp_all add: net_inv_def)
next
  case (empty rnd now c' ty m')
  have b: "block_wf (empty_block (metro s) now rnd)" "chain_wf (chain s)"
    using assms(3) last_header_wf [of "chain s"] empty(3) by (auto simp: net_inv_def intro: empty_block_wf)
  show ?thesis
    using add_sent_block [OF assms(2) b(2,1) empty(4)] assms(3) unfolding empty(1)
    by (intro extends_append [OF assms(4), where b = "empty_block (metro s) now rnd"]) (simp_all add: net_inv_def)
qed (use assms(4) in \<open>simp_all add: extends_def\<close>)

lemma net_run_extends:
  assumes "net_run A Y ossl s t" "faithful A" "net_inv s" "extends bc s"
  shows "extends bc t"
proof -
  from assms(1) have "net_inv t \<and> extends bc t"
    unfolding net_run_def
    by (induction rule: rtranclp_induct) (auto intro: assms(3,4) net_step_inv [OF _ assms(2)] net_step_extends [OF _ assms(2)])
  then show ?thesis ..
qed

section \<open>Every accepted copy is accounted for\<close>

text \<open>
  The blocks that hold a key. A block after the first \<open>n\<close> takes at most one copy of each of its keys
  out of the pool, once it is confirmed; the block in flight has not yet taken its copies.
\<close>

definition holders :: "Ed25519Key \<times> u64 \<Rightarrow> Block list \<Rightarrow> nat" where
  "holders k bs = length (filter (\<lambda>b. k \<in> tx_key ` set (transactions b)) bs)"

definition accounted :: "nat \<Rightarrow> 'n network \<Rightarrow> bool" where
  "accounted n s \<longleftrightarrow> n \<le> length (blocks (chain s)) \<and>
     (\<forall>k. count (posted s) k + (case in_flight s of None \<Rightarrow> 0 | Some b \<Rightarrow> holders k [b])
          \<le> count (queued (pool s)) k + holders k (drop n (blocks (chain s))))"

lemma holders_append: "holders k (bs @ cs) = holders k bs + holders k cs"
  by (simp add: holders_def)

lemma accounted_add:
  assumes "accounted n s" "in_flight s = None" "blocks c' = blocks (chain s) @ [b]"
  shows "accounted n (s\<lparr>chain := c', metro := m', in_flight := Some b\<rparr>)"
  using assms by (simp add: accounted_def holders_append)

lemma net_step_accounted:
  assumes "net_step A Y ossl s t" "faithful A" "net_inv s" "accounted n s"
  shows "accounted n t"
  using assms(1)
proof (cases rule: net_step.cases)
  case (post pad data p')
  then show ?thesis using assms(4) post_queued [OF post(2)] by (simp add: accounted_def)
next
  case (post_bad pad data p')
  then have "p' = pool s" by (auto simp: add_transaction_def Let_def split: if_splits)
  then show ?thesis using post_bad(1) assms(4) by simp
next
  case (pop data p' r)
  then show ?thesis using assms(4) pop_queued [OF pop(2)] by (simp add: accounted_def)
next
  case (submit data c' ty m' r)
  have b: "block_wf (de_block A data)" "chain_wf (chain s)"
    using assms(2,3) by (simp_all add: faithful_def decodes_arrays_def net_inv_def)
  show ?thesis
    using add_sent_block [OF assms(2) b(2,1) submit(4)] accounted_add [OF assms(4) submit(2)] unfolding submit(1) by simp
next
  case (empty rnd now c' ty m')
  have b: "block_wf (empty_block (metro s) now rnd)" "chain_wf (chain s)"
    using assms(3) last_header_wf [of "chain s"] empty(3) by (auto simp: net_inv_def intro: empty_block_wf)
  show ?thesis
    using add_sent_block [OF assms(2) b(2,1) empty(4)] accounted_add [OF assms(4) empty(2)] unfolding empty(1) by simp
next
  case (confirm b p' r)
  have "de_block A (ser_payload A (P_block b)) = b"
    using assms(2,3) confirm(2) by (simp add: net_inv_def chain_wf_def faithful_def received_block_def)
  then obtain d where d: "queued (pool s) = queued p' + mset (map tx_key d)" "distinct (map tx_key d)"
    "keys_of d \<subseteq> keys_of (transactions b)"
    by (metis confirm_queued [OF confirm(3)])
  have le: "count (mset (map tx_key d)) k \<le> holders k [b]" for k
    using d(2,3) distinct_count_atmost_1 [of "map tx_key d"] by (cases k) (auto simp: holders_def)
  have "count (posted s) k \<le> count (queued p') k + holders k (drop n (blocks (chain s)))" for k
  proof -
    have "count (posted s) k + holders k [b] \<le> count (queued (pool s)) k + holders k (drop n (blocks (chain s)))"
      using assms(4) confirm(2) by (cases k) (simp add: accounted_def)
    moreover have "count (queued (pool s)) k = count (queued p') k + count (mset (map tx_key d)) k" by (simp only: d(1) count_union)
    ultimately show ?thesis using le [of k] by linarith
  qed
  then show ?thesis using assms(4) by (simp add: confirm(1) accounted_def)
qed (use assms(4) in \<open>simp_all add: accounted_def\<close>)

lemma net_run_accounted:
  assumes "net_run A Y ossl s t" "faithful A" "net_inv s" "accounted n s"
  shows "accounted n t"
proof -
  from assms(1) have "net_inv t \<and> accounted n t"
    unfolding net_run_def
    by (induction rule: rtranclp_induct) (auto intro: assms(3,4) net_step_inv [OF _ assms(2)] net_step_accounted [OF _ assms(2)])
  then show ?thesis ..
qed

section \<open>A concrete run\<close>

text \<open>
  A wallet posts a transaction, a validator pops it and submits a block that holds it, and the pool
  confirms the block; every message is encoded and decoded by \<open>codec_alpaca\<close>.
\<close>

definition run_tx :: Transaction where "run_tx = sample_tx 1 7 20"

definition run_block :: Block where "run_block = sample_block [run_tx]"

lemma run_wf: "tx_wf run_tx" "block_wf run_block"
  by (simp_all add: run_tx_def run_block_def sample_block_def sample_header_def block_wf_def header_wf_def tx_wf_def
      sample_tx_def zero_HashInput_def)

lemma net_stepI: "net_run A Y ossl s t \<Longrightarrow> net_step A Y ossl t u \<Longrightarrow> net_run A Y ossl s u"
  unfolding net_run_def by (rule rtranclp.rtrancl_into_rtrancl)

lemma post_run:
  "\<exists>t. net_step codec_alpaca Y accepting_openssl s t \<and> posted t = add_mset (tx_key run_tx) (posted s) \<and>
     in_flight t = in_flight s \<and> chain t = chain s"
proof -
  let ?p = "fst (add_transaction codec_alpaca accepting_openssl (zeros 4) (pool s) (ser_payload codec_alpaca (P_tx run_tx)))"
  let ?s = "s\<lparr>pool := ?p, posted := add_mset (tx_key run_tx) (posted s)\<rparr>"
  have "net_step codec_alpaca Y accepting_openssl s ?s"
    using net_step.post [of codec_alpaca accepting_openssl "zeros 4" s "ser_payload codec_alpaca (P_tx run_tx)" ?p Y]
    by (simp add: codec_sel run_wf add_transaction_def Let_def)
  then show ?thesis by (intro exI [of _ ?s]) simp
qed

text \<open>Posting it once, and once more.\<close>

lemma posted_run:
  "\<exists>t. net_run codec_alpaca Y accepting_openssl (net_start bc 0 0) t \<and>
     posted t = replicate_mset (Suc n) (tx_key run_tx) \<and> in_flight t = None \<and> chain t = bc"
proof (induction n)
  case 0
  show ?case using post_run [of Y "net_start bc 0 0"] by (auto simp: net_run_def net_start_def)
next
  case (Suc n)
  then obtain t where t: "net_run codec_alpaca Y accepting_openssl (net_start bc 0 0) t"
    "posted t = replicate_mset (Suc n) (tx_key run_tx)" "in_flight t = None" "chain t = bc" by blast
  show ?case using post_run [of Y t] net_stepI [OF t(1)] t(2-4) by auto
qed

text \<open>The block is the first after the genesis block.\<close>

lemma submit_run:
  assumes "chain_wf bc" "in_flight s = None" "chain s = bc" "hdr_id (met_last_block (metro s)) = 0"
  shows "\<exists>t. net_step codec_alpaca Y ossl s t \<and> posted t = posted s \<and> pool t = pool s \<and>
    blocks (chain t) = blocks bc @ [run_block] \<and> in_flight t = Some run_block"
proof -
  let ?data = "ser_payload codec_alpaca (P_block run_block)"
  have d: "de_block codec_alpaca ?data = run_block" by (simp add: codec_sel run_wf)
  obtain c' where c: "blocks c' = blocks bc @ [run_block]"
    "add_block codec_alpaca Y (\<lambda>_. Inr ()) bc ?data = Inr (c', (P_null, STATUS_GOOD))"
    using add_block_wf [OF assms(1), of codec_alpaca ?data Y "\<lambda>_. Inr ()"] d run_wf(2) by auto
  have "hdr_id (header run_block) = 1" by (simp add: run_block_def sample_block_def sample_header_def)
  then show ?thesis
    using net_step.submit [OF assms(2), of codec_alpaca ?data Y c' STATUS_GOOD] d c assms(3,4)
    by (force simp: handle_block_def submit_block_def Let_def received_block_def)
qed

end
