(* ===== verification/Network_Properties.thy ===== *)
theory Network_Properties
  imports Network
begin

text \<open>
  What the nodes promise together, over every run of the network from a start of the blockchain node.
\<close>

section \<open>From start to reachable states\<close>

lemma reached_inv:
  assumes "new_BlockChain Y fs config_file = Inr bc0" "start_chain Y junk bc0 = Inr bc" "faithful A"
    and "net_run A Y ossl (net_start bc prev cur) t"
  shows "net_inv t" and "extends bc t" and "accounted (length (blocks bc)) t"
proof -
  have inv: "net_inv (net_start bc prev cur)" by (rule net_start_inv [OF start_chain_wf [OF assms(1,2)]])
  then show "net_inv t" by (rule net_run_inv [OF assms(4,3)])
  have "extends bc (net_start bc prev cur)" by (simp add: extends_def net_start_def)
  then show "extends bc t" by (rule net_run_extends [OF assms(4,3) inv])
  have "accounted (length (blocks bc)) (net_start bc prev cur)" by (simp add: accounted_def net_start_def holders_def)
  then show "accounted (length (blocks bc)) t" by (rule net_run_accounted [OF assms(4,3) inv])
qed

text \<open>The runs the witnesses use: from the genesis file, with a transaction posted once or
  several times, and with its block submitted.\<close>

lemma genesis_posted:
  "\<exists>bc t. start_chain sample_yaml 0 genesis_node_state = Inr bc \<and>
     net_run codec_alpaca sample_yaml accepting_openssl (net_start bc 0 0) t \<and>
     posted t = replicate_mset (Suc n) (tx_key run_tx) \<and> in_flight t = None \<and> chain t = bc \<and> blocks bc = [genesis_block]"
  using genesis_start [of 0] posted_run [of sample_yaml _ n] by metis

lemma genesis_submitted:
  "\<exists>bc t. start_chain sample_yaml 0 genesis_node_state = Inr bc \<and>
     net_run codec_alpaca sample_yaml accepting_openssl (net_start bc 0 0) t \<and>
     posted t = replicate_mset (Suc n) (tx_key run_tx) \<and> blocks bc = [genesis_block] \<and>
     blocks (chain t) = [genesis_block, run_block] \<and> in_flight t = Some run_block"
proof -
  obtain bc s where s: "start_chain sample_yaml 0 genesis_node_state = Inr bc"
    "net_run codec_alpaca sample_yaml accepting_openssl (net_start bc 0 0) s"
    "posted s = replicate_mset (Suc n) (tx_key run_tx)" "in_flight s = None" "chain s = bc" "blocks bc = [genesis_block]"
    using genesis_posted by blast
  have wf: "chain_wf bc" by (rule start_chain_wf [OF genesis_new s(1)])
  have "hdr_id (met_last_block (metro s)) = 0"
    using reached_inv(1) [OF genesis_new s(1) codec_faithful s(2)] s(5,6) by (simp add: net_inv_def genesis_block_def)
  then obtain t where "net_step codec_alpaca sample_yaml accepting_openssl s t" "posted t = posted s"
    "blocks (chain t) = blocks bc @ [run_block]" "in_flight t = Some run_block"
    using submit_run [OF wf s(4,5)] by blast
  then show ?thesis using s net_stepI [OF s(2)] by (intro exI [of _ bc] exI [of _ t]) simp
qed

lemma in_chain_keys: "k \<in> chain_keys bc \<longleftrightarrow> (\<exists>b\<in>set (blocks bc). \<exists>t\<in>set (transactions b). tx_key t = k)"
  by (force simp: chain_keys_def all_txs_def keys_of_def simp del: image_keys_of)

section \<open>Properties\<close>

text \<open>
  C1. No accepted transaction is lost and none is invented: in every reachable state of the network,
  whatever blocks were submitted by whom, however the requests of wallets, validators, metronome and
  blockchain node interleaved, and however often the same transaction was posted, each key is queued in
  the pool at most as often as the pool accepted it, and what is queued and the blocks added since the
  start that hold the key make up at least as many copies as were accepted. So every accepted transaction
  waits in one of the two queues or is in such a block, and one accepted once is never queued twice.
\<close>

theorem no_transaction_lost:
  assumes "new_BlockChain Y fs config_file = Inr bc0" "start_chain Y junk bc0 = Inr bc" "faithful A"
    and "net_run A Y ossl (net_start bc prev cur) t"
  shows "\<forall>k. count (queued (pool t)) k \<le> count (posted t) k \<and>
    count (posted t) k \<le> count (queued (pool t)) k + holders k (drop (length (blocks bc)) (blocks (chain t)))"
  using reached_inv(1,3) [OF assms] unfolding net_inv_def accounted_def
  by (meson add_leE mset_subset_eq_count)

theorem no_transaction_lost_witness:
  "\<exists>t :: snode network. posted t = {#tx_key run_tx, tx_key run_tx#} \<and> blocks (chain t) = [genesis_block, run_block] \<and>
     count (queued (pool t)) (tx_key run_tx) \<le> 2 \<and> 1 \<le> count (queued (pool t)) (tx_key run_tx)"
proof -
  obtain bc t where t: "start_chain sample_yaml 0 genesis_node_state = Inr bc"
    "net_run codec_alpaca sample_yaml accepting_openssl (net_start bc 0 0) t"
    "posted t = replicate_mset (Suc 1) (tx_key run_tx)" "blocks bc = [genesis_block]"
    "blocks (chain t) = [genesis_block, run_block]" "in_flight t = Some run_block"
    using genesis_submitted [of 1] by blast
  show ?thesis
    using spec [OF no_transaction_lost [OF genesis_new t(1) codec_faithful t(2)], of "tx_key run_tx"] t(3,4,5)
    by (intro exI [of _ t]) (auto simp: holders_def Suc_le_eq simp del: count_greater_zero_iff split: if_splits)
qed

text \<open>
  C2. A wallet that asks the pool for an accepted transaction is never told UNKNOWN: in every reachable
  state, also when transactions were posted several times, the query is answered SUBMITTED or UNCONFIRMED by the pool, or CONFIRMED by the blockchain node
  that the pool asks in turn.
\<close>

theorem accepted_transaction_never_unknown:
  assumes "new_BlockChain Y fs config_file = Inr bc0" "start_chain Y junk bc0 = Inr bc" "faithful A"
    and "net_run A Y ossl (net_start bc prev cur) t" "de_txkey A data \<in># posted t"
  shows "query_tx_status A (\<lambda>k. Inr (status_in_blocks k (blocks (chain t)))) (pool t) data \<in>
    (\<lambda>st. Inr (pool t, (P_status st, STATUS_GOOD))) ` {SUBMITTED, UNCONFIRMED, CONFIRMED}"
proof -
  let ?k = "de_txkey A data"
  have inv: "net_inv t" by (rule reached_inv(1) [OF assms(1-4)])
  then have "?k \<in> submitted_keys (pool t) \<or> ?k \<in> unconfirmed_keys (pool t) \<or> ?k \<in> chain_keys (chain t)"
    using assms(5) by (auto simp: net_inv_def)
  moreover have "?k \<in> chain_keys (chain t) \<Longrightarrow> status_in_blocks ?k (blocks (chain t)) = CONFIRMED"
    by (simp add: status_in_blocks_eq in_chain_keys)
  ultimately show ?thesis
    by (auto simp: query_tx_status_def Let_def uset_contains_key pool_key_defs tx_key_def)
qed

theorem accepted_transaction_never_unknown_witness:
  "\<exists>t :: snode network. posted t = {#tx_key run_tx#} \<and>
     query_tx_status codec_alpaca (\<lambda>k. Inr (status_in_blocks k [genesis_block, run_block])) (pool t)
         (ser_payload codec_alpaca (P_txkey (tx_key run_tx))) \<in>
       (\<lambda>st. Inr (pool t, (P_status st, STATUS_GOOD))) ` {SUBMITTED, UNCONFIRMED, CONFIRMED}"
proof -
  obtain bc t where t: "start_chain sample_yaml 0 genesis_node_state = Inr bc"
    "net_run codec_alpaca sample_yaml accepting_openssl (net_start bc 0 0) t" "posted t = {#tx_key run_tx#}"
    "blocks (chain t) = [genesis_block, run_block]"
    using genesis_submitted [of 0] by auto
  have k: "de_txkey codec_alpaca (ser_payload codec_alpaca (P_txkey (tx_key run_tx))) = tx_key run_tx"
    using codec_sel(3) [of "src run_tx" "tx_id run_tx"] run_wf(1) by (simp add: tx_key_def tx_wf_def)
  show ?thesis
    using accepted_transaction_never_unknown [OF genesis_new t(1) codec_faithful t(2),
        of "ser_payload codec_alpaca (P_txkey (tx_key run_tx))"] t(3,4) k
    by (intro exI [of _ t]) simp
qed

text \<open>
  C3. There is one chain: in every reachable state it extends the chain the node started with by blocks
  with consecutive ids, whoever submitted them, and the last block the metronome mines on is the last
  block of the blockchain node.
\<close>

theorem chain_ids_consecutive:
  assumes "new_BlockChain Y fs config_file = Inr bc0" "start_chain Y junk bc0 = Inr bc" "faithful A"
    and "net_run A Y ossl (net_start bc prev cur) t"
  shows "met_last_block (metro t) = header (last (blocks (chain t))) \<and>
    (\<exists>bs. blocks (chain t) = blocks bc @ bs \<and>
      map (\<lambda>b. hdr_id (header b)) bs = map (\<lambda>i. hdr_id (header (last (blocks bc))) + of_nat (i + 1)) [0..<length bs])"
proof -
  have shift: "map (\<lambda>i. x + 1 + of_nat (i + 1)) [0..<n] = map (\<lambda>i. x + of_nat (i + 1)) [1..<n + 1]" for x :: u32 and n
    by (intro nth_equalityI) (simp_all del: upt_Suc)
  have ids: "map (\<lambda>b. hdr_id (header b)) bs = map (\<lambda>i. x + of_nat (i + 1)) [0..<length bs]" if "ids_from x bs" for x bs
    using that
  proof (induction x bs rule: ids_from.induct)
    case (2 x b bs)
    then show ?case using shift [of x "length bs"] by (simp add: upt_conv_Cons del: upt_Suc)
  qed simp
  show ?thesis
    using reached_inv [OF assms] ids unfolding net_inv_def extends_def by blast
qed

theorem chain_ids_consecutive_witness:
  "\<exists>t :: snode network. blocks (chain t) = [genesis_block, run_block] \<and> met_last_block (metro t) = header run_block"
proof -
  obtain bc t where t: "start_chain sample_yaml 0 genesis_node_state = Inr bc"
    "net_run codec_alpaca sample_yaml accepting_openssl (net_start bc 0 0) t"
    "blocks (chain t) = [genesis_block, run_block]"
    using genesis_submitted by blast
  show ?thesis
    using chain_ids_consecutive [OF genesis_new t(1) codec_faithful t(2)] t(3) by (intro exI [of _ t]) simp
qed

text \<open>Submitting a block with the next id: both nodes take it.\<close>

lemma next_block_step:
  assumes "net_inv t" "faithful A" "in_flight t = None" "block_wf b"
    and "hdr_id (header b) = hdr_id (header (last (blocks (chain t)))) + 1"
  obtains c' m' where "blocks c' = blocks (chain t) @ [b]" "met_last_block m' = header b"
    "add_block A Y (\<lambda>_. Inr ()) (chain t) (ser_payload A (P_block b)) = Inr (c', (P_null, STATUS_GOOD))"
    "handle_block A (\<lambda>_. Inr STATUS_GOOD) (metro t) (ser_payload A (P_block b)) = Inr (m', (P_null, STATUS_GOOD))"
    "net_step A Y ossl t (t\<lparr>chain := c', metro := m', in_flight := Some b\<rparr>)"
proof -
  let ?data = "ser_payload A (P_block b)"
  have d: "de_block A ?data = b" "received_block A b = b" using assms(2,4) by (simp_all add: faithful_def received_block_def)
  have wf: "chain_wf (chain t)" "block_wf (de_block A ?data)" using assms(1,4) d by (simp_all add: net_inv_def)
  obtain c' where c: "blocks c' = blocks (chain t) @ [b]"
    "add_block A Y (\<lambda>_. Inr ()) (chain t) ?data = Inr (c', (P_null, STATUS_GOOD))"
    using add_block_wf [OF wf, of Y "\<lambda>_. Inr ()"] unfolding d bind_result_Inr by blast
  obtain m' where m: "handle_block A (\<lambda>_. Inr STATUS_GOOD) (metro t) ?data = Inr (m', (P_null, STATUS_GOOD))"
    "met_last_block m' = header b"
    using assms(1,5) d by (simp add: handle_block_def submit_block_def Let_def net_inv_def)
  have "net_step A Y ossl t (t\<lparr>chain := c', metro := m', in_flight := Some b\<rparr>)"
    using net_step.submit [OF assms(3), of A ?data Y c' STATUS_GOOD m'] c(2) m(1) assms(1,5)
    by (simp add: d net_inv_def)
  then show thesis using that c m by blast
qed

text \<open>
  C10. A block is never refused for what it holds: in every reachable state in which no confirmation is
  on its way, any block with the next id, whatever its hash, difficulty, previous hash and transactions,
  becomes the last block of the chain and of the metronome when it is submitted, and the metronome's
  answer is STATUS_GOOD.
\<close>

theorem any_next_block_is_accepted:
  assumes "new_BlockChain Y fs config_file = Inr bc0" "start_chain Y junk bc0 = Inr bc" "faithful A"
    and "net_run A Y ossl (net_start bc prev cur) t" "in_flight t = None" "block_wf b"
    and "hdr_id (header b) = hdr_id (header (last (blocks (chain t)))) + 1"
  shows "\<exists>u. net_step A Y ossl t u \<and> blocks (chain u) = blocks (chain t) @ [b] \<and> met_last_block (metro u) = header b \<and>
    handle_block A (\<lambda>_. Inr STATUS_GOOD) (metro t) (ser_payload A (P_block b)) = Inr (metro u, (P_null, STATUS_GOOD))"
proof -
  have "net_inv t" by (rule reached_inv(1) [OF assms(1-4)])
  then obtain c' m' where "blocks c' = blocks (chain t) @ [b]" "met_last_block m' = header b"
    "handle_block A (\<lambda>_. Inr STATUS_GOOD) (metro t) (ser_payload A (P_block b)) = Inr (m', (P_null, STATUS_GOOD))"
    "net_step A Y ossl t (t\<lparr>chain := c', metro := m', in_flight := Some b\<rparr>)"
    using next_block_step [OF _ assms(3,5,6,7)] by blast
  then show ?thesis by (intro exI [of _ "t\<lparr>chain := c', metro := m', in_flight := Some b\<rparr>"]) simp
qed

theorem any_next_block_is_accepted_witness:
  "\<exists>t u :: snode network. blocks (chain t) = [genesis_block] \<and> net_step codec_alpaca sample_yaml accepting_openssl t u \<and>
     blocks (chain u) = [genesis_block, run_block]"
proof -
  obtain bc t where t: "start_chain sample_yaml 0 genesis_node_state = Inr bc"
    "net_run codec_alpaca sample_yaml accepting_openssl (net_start bc 0 0) t"
    "in_flight t = None" "chain t = bc" "blocks bc = [genesis_block]"
    using genesis_posted by blast
  have id: "hdr_id (header run_block) = hdr_id (header (last (blocks (chain t)))) + 1"
    by (simp add: t(4,5) run_block_def sample_block_def sample_header_def genesis_block_def)
  show ?thesis
    using any_next_block_is_accepted [OF genesis_new t(1) codec_faithful t(2,3) run_wf(2) id] t(4,5) by auto
qed

end
