(* ===== verification/Config.thy ===== *)
theory Config
  imports Base58 Yaml
begin

text \<open>
  The settings of src/config.cpp: the wallet's keys and its transaction counter, the addresses of the
  nodes and the validator's memory. Every call loads its file again; a setter writes the changed document
  back. \<open>get_genesis_block\<close> is with the blockchain node that calls it.
\<close>

section \<open>Numbers in text\<close>

text \<open>
  \<open>std::stoi\<close>: white space, an optional sign and digits; what follows them is ignored.
\<close>

definition is_space :: "char \<Rightarrow> bool" where
  "is_space ch \<longleftrightarrow> (of_char ch :: nat) = 32 \<or> 9 \<le> (of_char ch :: nat) \<and> (of_char ch :: nat) \<le> 13"

definition signed_text :: "string \<Rightarrow> bool \<times> string" where
  "signed_text s =
     (case s of
        [] \<Rightarrow> (False, [])
      | ch # t \<Rightarrow> if ch = CHR ''-'' then (True, t) else if ch = CHR ''+'' then (False, t) else (False, s))"

definition stoi :: "string \<Rightarrow> int result" where
  "stoi s =
     (let (neg, t) = signed_text (dropWhile is_space s);
          ds = takeWhile is_digit t;
          v = (if neg then - int (decimal ds) else int (decimal ds))
      in if ds = [] then Inl Invalid_argument
         else if v < - (2 ^ 31) \<or> 2 ^ 31 \<le> v then Inl Out_of_range
         else Inr v)"

text \<open>A product of two \<open>int\<close>s; overflow has no defined meaning.\<close>

definition int_times :: "int \<Rightarrow> int \<Rightarrow> int result" where
  "int_times a b =
     (if a * b < - (2 ^ 31) \<or> 2 ^ 31 \<le> a * b then Inl (Undefined ''signed overflow'') else Inr (a * b))"

section \<open>The wallet\<close>

abbreviation public_key_path :: "string list" where "public_key_path \<equiv> [''wallet'', ''public_key'']"
abbreviation private_key_path :: "string list" where "private_key_path \<equiv> [''wallet'', ''private_key'']"
abbreviation nonce_path :: "string list" where "nonce_path \<equiv> [''wallet'', ''nonce'']"

definition load_wallet :: "'n yaml \<Rightarrow> string \<Rightarrow> string \<Rightarrow> 'n files \<Rightarrow> Wallet result" where
  "load_wallet Y config_file key_file fs =
     bind_result (LoadFile fs config_file) (\<lambda>config.
     bind_result (LoadFile fs key_file) (\<lambda>private_config.
     bind_result (as_value (y_as_string Y config public_key_path)) (\<lambda>pub.
     bind_result (as_value (y_as_string Y private_config private_key_path)) (\<lambda>priv.
     bind_result (base58_decode_key pub) (\<lambda>pk.
     bind_result (base58_decode_key priv) (\<lambda>sk.
       Inr \<lparr>priv_key = sk, pub_key = pk\<rparr>))))))"

text \<open>
  The two streams are flushed when they are destroyed, the key file's first. The model is of two
  different files; for one file opened twice the texts would be written over one another.
\<close>

definition store_wallet :: "'n yaml \<Rightarrow> Wallet \<Rightarrow> string \<Rightarrow> string \<Rightarrow> 'n files \<Rightarrow> 'n files result" where
  "store_wallet Y w config_file key_file fs =
     bind_result (LoadFile fs config_file) (\<lambda>config.
     bind_result (LoadFile fs key_file) (\<lambda>private_config.
     bind_result (base58_encode_key (pub_key w)) (\<lambda>pub.
     bind_result (base58_encode_key (priv_key w)) (\<lambda>priv.
       Inr (write_file Y config_file (y_set Y config public_key_path (Y_str pub))
             (write_file Y key_file (y_set Y private_config private_key_path (Y_str priv)) fs))))))"

definition get_tx_id :: "'n yaml \<Rightarrow> string \<Rightarrow> 'n files \<Rightarrow> (u64 \<times> 'n files) result" where
  "get_tx_id Y config_file fs =
     bind_result (LoadFile fs config_file) (\<lambda>config.
     bind_result (as_value (y_as_uint64 Y config nonce_path)) (\<lambda>n.
       Inr (n, write_file Y config_file (y_set Y config nonce_path (Y_uint (unat (n + 1)))) fs)))"

definition set_tx_id :: "'n yaml \<Rightarrow> u64 \<Rightarrow> string \<Rightarrow> 'n files \<Rightarrow> 'n files result" where
  "set_tx_id Y n config_file fs =
     bind_result (LoadFile fs config_file) (\<lambda>config.
       Inr (write_file Y config_file (y_set Y config nonce_path (Y_uint (unat n))) fs))"

section \<open>Addresses\<close>

definition setting :: "'n yaml \<Rightarrow> string list \<Rightarrow> string \<Rightarrow> 'n files \<Rightarrow> string result" where
  "setting Y p config_file fs = bind_result (LoadFile fs config_file) (\<lambda>config. as_value (y_as_string Y config p))"

definition get_tx_pool_address :: "'n yaml \<Rightarrow> string \<Rightarrow> 'n files \<Rightarrow> string result" where
  "get_tx_pool_address Y = setting Y [''tx_pool'', ''address'']"

definition get_tx_pool_threads :: "'n yaml \<Rightarrow> string \<Rightarrow> 'n files \<Rightarrow> string result" where
  "get_tx_pool_threads Y = setting Y [''tx_pool'', ''address'']"

definition get_validator_address :: "'n yaml \<Rightarrow> string \<Rightarrow> 'n files \<Rightarrow> string result" where
  "get_validator_address Y = setting Y [''validator'', ''address'']"

definition get_validator_threads :: "'n yaml \<Rightarrow> string \<Rightarrow> 'n files \<Rightarrow> string result" where
  "get_validator_threads Y = setting Y [''validator'', ''address'']"

definition get_consensus_method :: "'n yaml \<Rightarrow> string \<Rightarrow> 'n files \<Rightarrow> string result" where
  "get_consensus_method Y = setting Y [''validator'', ''consensus'']"

definition get_metronome_address :: "'n yaml \<Rightarrow> string \<Rightarrow> 'n files \<Rightarrow> string result" where
  "get_metronome_address Y = setting Y [''metronome'', ''address'']"

definition get_metronome_threads :: "'n yaml \<Rightarrow> string \<Rightarrow> 'n files \<Rightarrow> string result" where
  "get_metronome_threads Y = setting Y [''metronome'', ''address'']"

definition get_blockchain_address :: "'n yaml \<Rightarrow> string \<Rightarrow> 'n files \<Rightarrow> string result" where
  "get_blockchain_address Y = setting Y [''blockchain'', ''address'']"

definition get_blockchain_threads :: "'n yaml \<Rightarrow> string \<Rightarrow> 'n files \<Rightarrow> string result" where
  "get_blockchain_threads Y = setting Y [''blockchain'', ''address'']"

section \<open>The validator\<close>

text \<open>The number before the first unit that occurs; the units are tried in this order.\<close>

definition parse_memory :: "string \<Rightarrow> u32 result" where
  "parse_memory s =
     (let scaled = (\<lambda>num_end unit. bind_result (stoi (take num_end s)) (\<lambda>v.
                      bind_result (int_times v unit) (\<lambda>r. Inr (word_of_int r))))
      in case find_str ''KB'' s of
           Some num_end \<Rightarrow> scaled num_end 1000
         | None \<Rightarrow>
             (case find_str ''MB'' s of
                Some num_end \<Rightarrow> scaled num_end 1000000
              | None \<Rightarrow>
                  (case find_str ''GB'' s of
                     Some num_end \<Rightarrow> scaled num_end 1000000000
                   | None \<Rightarrow> Inl (Runtime_error ''Validator memory improperly formatted.''))))"

definition get_validator_memory :: "'n yaml \<Rightarrow> string \<Rightarrow> 'n files \<Rightarrow> u32 result" where
  "get_validator_memory Y config_file fs =
     bind_result (setting Y [''validator'', ''memory''] config_file fs) parse_memory"

definition set_validator_fingerprint :: "'n yaml \<Rightarrow> UUID \<Rightarrow> string \<Rightarrow> 'n files \<Rightarrow> 'n files result" where
  "set_validator_fingerprint Y fp config_file fs =
     bind_result (LoadFile fs config_file) (\<lambda>config.
     bind_result (base58_encode_uuid fp) (\<lambda>text_fp.
       Inr (write_file Y config_file (y_set Y config [''validator'', ''fingerprint''] (Y_str text_fp)) fs)))"

section \<open>Parsing facts\<close>

lemma digit_not_space: "is_digit ch \<Longrightarrow> \<not> is_space ch"
  by (auto simp: is_digit_def is_space_def)

lemma digit_not_sign: "is_digit ch \<Longrightarrow> ch \<noteq> CHR ''-'' \<and> ch \<noteq> CHR ''+''"
  by (auto simp: is_digit_def)

lemma signed_text_digit: "is_digit ch \<Longrightarrow> signed_text (ch # s) = (False, ch # s)"
  using digit_not_sign [of ch] by (simp add: signed_text_def)

lemma stoi_digits:
  assumes "ds \<noteq> []" "\<forall>ch\<in>set ds. is_digit ch" "r = [] \<or> \<not> is_digit (hd r)"
  shows "stoi (ds @ r) = (if 2 ^ 31 \<le> int (decimal ds) then Inl Out_of_range else Inr (int (decimal ds)))"
proof -
  obtain ch t where ds: "ds = ch # t" using assms(1) by (cases ds) auto
  have ch: "is_digit ch" "\<not> is_space ch" using assms(2) digit_not_space by (auto simp: ds)
  have take: "takeWhile is_digit (ds @ r) = ds"
    using assms(2,3) by (cases r) (auto simp: takeWhile_append)
  have "signed_text (dropWhile is_space (ds @ r)) = (False, ds @ r)"
    using ch signed_text_digit by (simp add: ds)
  moreover have "- (2 ^ 31) \<le> int (decimal ds)" by (rule order_trans [of _ 0]) simp_all
  ultimately show ?thesis using assms(1) take by (simp add: stoi_def Let_def)
qed

lemma stoi_to_string:
  "r = [] \<or> \<not> is_digit (hd r) \<Longrightarrow>
   stoi (to_string n @ r) = (if 2 ^ 31 \<le> int n then Inl Out_of_range else Inr (int n))"
  using stoi_digits [OF to_string_nonempty [of n] to_string_digits [of n], of r] by simp

text \<open>A unit behind a number is found where the number ends.\<close>

lemma find_str_digits:
  assumes "\<forall>ch\<in>set ds. is_digit ch" "\<not> is_digit p"
  shows "find_str (p # ps) (ds @ r) = map_option (\<lambda>i. length ds + i) (find_str (p # ps) r)"
  using assms(1)
proof (induction ds)
  case (Cons d ds)
  then have "p \<noteq> d" using assms(2) by auto
  then show ?case using Cons by (subst find_str.simps) (cases "find_str (p # ps) r"; simp)
qed (cases "find_str (p # ps) r"; simp)

lemma units_not_digits: "\<not> is_digit (CHR ''K'')" "\<not> is_digit (CHR ''M'')" "\<not> is_digit (CHR ''G'')"
  by (simp_all add: is_digit_def)

lemma find_units:
  "find_str ''KB'' ''KB'' = Some 0" "find_str ''KB'' ''MB'' = None" "find_str ''KB'' ''GB'' = None"
  "find_str ''MB'' ''MB'' = Some 0" "find_str ''MB'' ''GB'' = None" "find_str ''GB'' ''GB'' = Some 0"
  by code_simp+

lemma parse_memory_unit:
  assumes "(u, k) \<in> {(''KB'', 1000), (''MB'', 1000000), (''GB'', 1000000000)}"
  shows "parse_memory (to_string n @ u) =
    (if 2 ^ 31 \<le> n then Inl Out_of_range
     else if 2 ^ 31 \<le> n * k then Inl (Undefined ''signed overflow'')
     else Inr (of_nat (n * k)))"
proof -
  have find: "find_str (p # ''B'') (to_string n @ v) = map_option (\<lambda>i. length (to_string n) + i) (find_str (p # ''B'') v)"
    if "\<not> is_digit p" for p v
    using find_str_digits [OF to_string_digits that] .
  have st: "stoi (to_string n) = (if 2 ^ 31 \<le> int n then Inl Out_of_range else Inr (int n))"
    using stoi_to_string [of "[]" n] by simp
  show ?thesis
    using assms by (auto simp: parse_memory_def find units_not_digits find_units st int_times_def Let_def)
qed

end
