(* ===== verification/Console.thy ===== *)
theory Console
  imports Yaml
begin

text \<open>
  What the command line tools print: the conversions of \<open>printf\<close> that the sources use, and the texts of
  transactions, block headers, wallets and status values (display functions of src/transaction.cpp,
  src/block.cpp and src/wallet.cpp) as functions of what is printed.
\<close>

section \<open>Conversions of printf\<close>

abbreviation newline :: char where "newline \<equiv> CHR 0x0A"
abbreviation tab :: char where "tab \<equiv> CHR 0x09"

text \<open>A format string that ends in a newline.\<close>

abbreviation line :: "string \<Rightarrow> string" where "line s \<equiv> s @ [newline]"

text \<open>\<open>%s\<close> of \<open>c_str()\<close> ends at the first NUL.\<close>

definition fmt_s :: "string \<Rightarrow> string" where
  "fmt_s s = takeWhile (\<lambda>ch. ch \<noteq> CHR 0x00) s"

text \<open>\<open>%lu\<close> of a \<open>uint64_t\<close>.\<close>

definition fmt_lu :: "u64 \<Rightarrow> string" where
  "fmt_lu w = to_string (unat w)"

text \<open>\<open>%d\<close> takes an \<open>int\<close>; the sources also pass \<open>uint32_t\<close> values, whose 32 bits are then read as signed.\<close>

definition fmt_d :: "u32 \<Rightarrow> string" where
  "fmt_d w = (let i = sint w in if i < 0 then CHR ''-'' # to_string (nat (- i)) else to_string (nat i))"

definition hex_digit :: "nat \<Rightarrow> char" where
  "hex_digit d = char_of (if d < 10 then 48 + d else 87 + d)"

definition fmt_02x :: "byte \<Rightarrow> string" where
  "fmt_02x b = [hex_digit (unat b div 16), hex_digit (unat b mod 16)]"

definition hex_text :: "byte list \<Rightarrow> string" where
  "hex_text bs = concat (map fmt_02x bs)"

section \<open>Texts\<close>

definition wallet_text :: "string \<Rightarrow> string \<Rightarrow> string" where
  "wallet_text pub priv = line (''Public Key: '' @ fmt_s pub) @ line (''Private Key: '' @ fmt_s priv)"

definition transaction_text :: "string \<Rightarrow> string \<Rightarrow> Transaction \<Rightarrow> string" where
  "transaction_text from_key to_key tx =
     line ''Transaction:'' @
     line (tab # ''src: '' @ fmt_s from_key) @
     line (tab # ''dest: '' @ fmt_s to_key) @
     line (tab # ''amount: '' @ fmt_d (amount tx)) @
     line (tab # ''id: '' @ fmt_lu (tx_id tx)) @
     line (tab # ''timestamp: '' @ fmt_lu (tx_timestamp tx)) @
     line (tab # ''signature: '' @ hex_text (signature tx))"

definition header_text :: "string \<Rightarrow> string \<Rightarrow> BlockHeader \<Rightarrow> string" where
  "header_text hash_text prev_text hdr =
     line ''Block header:'' @
     line (tab # ''hash: '' @ fmt_s hash_text) @
     line (tab # ''prev_hash: '' @ fmt_s prev_text) @
     line (tab # ''difficulty: '' @ fmt_d (difficulty hdr)) @
     line (tab # ''timestamp: '' @ fmt_lu (timestamp hdr)) @
     line (tab # ''id: '' @ fmt_d (hdr_id hdr))"

fun status_text :: "Status \<Rightarrow> string" where
  "status_text CONFIRMED = ''CONFIRMED''"
| "status_text UNCONFIRMED = ''UNCONFIRMED''"
| "status_text SUBMITTED = ''SUBMITTED''"
| "status_text UNKNOWN = ''UNKNOWN''"

section \<open>What the texts determine\<close>

text \<open>Printed characters: neither a control character nor a blank.\<close>

definition printed :: "char \<Rightarrow> bool" where
  "printed ch \<longleftrightarrow> 33 \<le> (of_char ch :: nat)"

lemma printed_not [simp]: "\<not> printed newline" "\<not> printed (CHR 0x00)" "\<not> printed tab"
  by (simp_all add: printed_def)

lemma printed_minus: "printed (CHR ''-'')"
  by (simp add: printed_def)

lemma printed_digits: "is_digit ch \<Longrightarrow> printed ch"
  by (simp add: is_digit_def printed_def)

lemma printed_to_string: "ch \<in> set (to_string n) \<Longrightarrow> printed ch"
  using to_string_digits [of n] printed_digits by blast

lemma printed_fmt_lu: "ch \<in> set (fmt_lu w) \<Longrightarrow> printed ch"
  by (simp add: fmt_lu_def printed_to_string)

lemma printed_fmt_d: "ch \<in> set (fmt_d w) \<Longrightarrow> printed ch"
  by (auto simp: fmt_d_def Let_def printed_minus intro: printed_to_string split: if_splits)

lemma of_char_hex_digit: "d < 16 \<Longrightarrow> of_char (hex_digit d) = (if d < 10 then 48 + d else 87 + d)"
  by (simp add: hex_digit_def)

lemma hex_digit_inj: "c < 16 \<Longrightarrow> d < 16 \<Longrightarrow> hex_digit c = hex_digit d \<longleftrightarrow> c = d"
  by (auto dest!: arg_cong [where f = "of_char :: char \<Rightarrow> nat"] simp: of_char_hex_digit split: if_splits)

lemma byte_nibbles: "unat (b :: byte) div 16 < 16" "unat (b :: byte) mod 16 < 16"
  using unsigned_less [of b, where 'a = nat] by simp_all

lemma fmt_02x_inj: "fmt_02x a = fmt_02x b \<longleftrightarrow> a = b"
proof
  assume "fmt_02x a = fmt_02x b"
  then have "unat a div 16 = unat b div 16" "unat a mod 16 = unat b mod 16"
    by (simp_all add: fmt_02x_def hex_digit_inj byte_nibbles)
  then have "unat a = unat b" by (metis div_mult_mod_eq)
  then show "a = b" by (rule iffD2 [OF word_unat_eq_iff])
qed simp

lemma hex_text_simps [simp]: "hex_text [] = []" "hex_text (b # bs) = fmt_02x b @ hex_text bs"
  by (simp_all add: hex_text_def)

lemma length_hex_text [simp, length_facts]: "length (hex_text bs) = 2 * length bs"
  by (induction bs) (simp_all add: fmt_02x_def)

lemma hex_text_inj: "hex_text as = hex_text bs \<longleftrightarrow> as = bs"
proof (induction as arbitrary: bs)
  case Nil
  then show ?case by (cases bs) (simp_all add: fmt_02x_def)
next
  case (Cons a as)
  show ?case
  proof (cases bs)
    case (Cons b bs')
    have "length (fmt_02x a) = length (fmt_02x b)" by (simp add: fmt_02x_def)
    then show ?thesis by (simp add: Cons Cons.IH fmt_02x_inj)
  qed (simp add: fmt_02x_def)
qed

lemma printed_hex_text: "ch \<in> set (hex_text bs) \<Longrightarrow> printed ch"
  by (induction bs) (auto simp: fmt_02x_def printed_def of_char_hex_digit byte_nibbles)

lemma fmt_lu_inj: "fmt_lu v = fmt_lu w \<longleftrightarrow> v = w"
  by (simp add: fmt_lu_def to_string_inj word_unat_eq_iff [symmetric])

lemma fmt_d_inj: "fmt_d v = fmt_d w \<longleftrightarrow> v = w"
proof
  have minus: "CHR ''-'' # r \<noteq> to_string n" for r n
  proof
    assume "CHR ''-'' # r = to_string n"
    then have "is_digit (CHR ''-'')" using to_string_digits [of n] by (metis list.set_intros(1))
    then show False by (simp add: is_digit_def)
  qed
  assume "fmt_d v = fmt_d w"
  then have "sint v = sint w"
    using minus minus [symmetric] by (auto simp: fmt_d_def Let_def to_string_inj split: if_splits)
  then show "v = w" by (simp add: signed_word_eqI)
qed simp

lemma fmt_s_printed: "\<forall>ch\<in>set s. printed ch \<Longrightarrow> fmt_s s = s"
  by (auto simp: fmt_s_def takeWhile_eq_all_conv)

text \<open>Two texts that begin with a line agree when the lines and the rests do.\<close>

lemma line_split:
  assumes "newline \<notin> set s" "newline \<notin> set t"
  shows "s @ newline # r = t @ newline # r' \<longleftrightarrow> s = t \<and> r = r'"
  using assms by (induction s arbitrary: t) (case_tac t; auto)+

text \<open>The amount printed for 2 to the 31 and more is negative.\<close>

lemma fmt_d_large:
  assumes "2 ^ 31 \<le> unat w"
  shows "fmt_d w = CHR ''-'' # to_string (2 ^ 32 - unat w)"
proof -
  define n where "n = unat w"
  have n: "2 ^ 31 \<le> n" "n < 2 ^ 32" using assms unsigned_less [of w, where 'a = nat] by (simp_all add: n_def)
  have "sint w = int n - 2 ^ 32" unfolding sint_u32 n_def [symmetric] using n by simp
  then have "sint w < 0" "nat (- sint w) = 2 ^ 32 - n" using n by simp_all
  then show ?thesis by (simp add: fmt_d_def n_def)
qed

end
