(* ===== verification/Client.thy ===== *)
theory Client
  imports Config Messages Keys Console
begin

text \<open>
  The clients: the requests that wallets and the monitor send (src/transaction.cpp, src/wallet.cpp,
  src/monitor.cpp) and the wallet commands of src/dsc.cpp. A client reads and writes the files of its
  host, prints, and exchanges messages over the network. The other side is a function \<open>peers\<close> from everything the
  host has sent to the parts of the reply it then receives.
\<close>

section \<open>Hosts and actions\<close>

text \<open>The requests sent so far, each with the address it went to, oldest first.\<close>

type_synonym wire = "(string \<times> byte list list) list"
type_synonym peers = "wire \<Rightarrow> byte list list"

record 'n host =
  host_files :: "'n files"
  host_wire :: wire
  host_console :: string

text \<open>An action changes the host, and returns a value or raises; what it did before it raised remains.\<close>

type_synonym ('n, 'a) action = "'n host \<Rightarrow> 'n host \<times> 'a result"

definition return_value :: "'a \<Rightarrow> ('n, 'a) action" where
  "return_value x h = (h, Inr x)"

definition of_result :: "'a result \<Rightarrow> ('n, 'a) action" where
  "of_result r h = (h, r)"

definition and_then :: "('n, 'a) action \<Rightarrow> ('a \<Rightarrow> ('n, 'b) action) \<Rightarrow> ('n, 'b) action" where
  "and_then m f h = (case m h of (h', r) \<Rightarrow> (case r of Inl e \<Rightarrow> (h', Inl e) | Inr x \<Rightarrow> f x h'))"

definition reads :: "('n files \<Rightarrow> 'a result) \<Rightarrow> ('n, 'a) action" where
  "reads f h = (h, f (host_files h))"

definition writes :: "('n files \<Rightarrow> ('a \<times> 'n files) result) \<Rightarrow> ('n, 'a) action" where
  "writes f h = (case f (host_files h) of Inl e \<Rightarrow> (h, Inl e) | Inr (x, fs) \<Rightarrow> (h\<lparr>host_files := fs\<rparr>, Inr x))"

text \<open>\<open>printf\<close>: text is appended to the output stream.\<close>

definition prints :: "string \<Rightarrow> ('n, unit) action" where
  "prints s h = (h\<lparr>host_console := host_console h @ s\<rparr>, Inr ())"

text \<open>A loop over a vector.\<close>

fun for_each :: "('a \<Rightarrow> ('n, unit) action) \<Rightarrow> 'a list \<Rightarrow> ('n, unit) action" where
  "for_each f [] = return_value ()"
| "for_each f (x # xs) = and_then (f x) (\<lambda>_. for_each f xs)"

lemma action_simps [simp]:
  "return_value x h = (h, Inr x)" "of_result r h = (h, r)" "reads f h = (h, f (host_files h))"
  "prints s h = (h\<lparr>host_console := host_console h @ s\<rparr>, Inr ())"
  by (simp_all add: return_value_def of_result_def reads_def prints_def)

lemma and_then_simps [simp]:
  "m h = (h', Inr x) \<Longrightarrow> and_then m f h = f x h'" "m h = (h', Inl e) \<Longrightarrow> and_then m f h = (h', Inl e)"
  by (simp_all add: and_then_def)

lemma writes_simps [simp]:
  "f (host_files h) = Inr (x, fs) \<Longrightarrow> writes f h = (h\<lparr>host_files := fs\<rparr>, Inr x)"
  "f (host_files h) = Inl e \<Longrightarrow> writes f h = (h, Inl e)"
  by (simp_all add: writes_def)

section \<open>Round trips\<close>

text \<open>Connect to an address, send one message and receive the reply.\<close>

definition round_trip ::
  "alpaca \<Rightarrow> peers \<Rightarrow> (byte list \<Rightarrow> 'p) \<Rightarrow> string \<Rightarrow> payload \<Rightarrow> MessageType \<Rightarrow> ('n, MessageHeader \<times> 'p) action" where
  "round_trip A peers de addr p ty h =
     (let w = host_wire h @ [(addr, send_message A p ty)]
      in (h\<lparr>host_wire := w\<rparr>, recv_payload A de (peers w)))"

definition submit_transaction :: "alpaca \<Rightarrow> peers \<Rightarrow> Transaction \<Rightarrow> string \<Rightarrow> ('n, int) action" where
  "submit_transaction A peers tx tx_pool =
     and_then (round_trip A peers (\<lambda>_. ()) tx_pool (P_tx tx) POST_TX) (\<lambda>(hdr, _).
       return_value (if msg_type hdr = STATUS_GOOD then 0 else - 1))"

definition query_transaction ::
  "'n yaml \<Rightarrow> alpaca \<Rightarrow> peers \<Rightarrow> string \<Rightarrow> string \<Rightarrow> u64 \<Rightarrow> string \<Rightarrow> ('n, Status) action" where
  "query_transaction Y A peers config_file key_file ident tx_pool =
     and_then (reads (load_wallet Y config_file key_file)) (\<lambda>w.
     and_then (round_trip A peers (de_status A) tx_pool (P_txkey (pub_key w, ident)) QUERY_TX_STATUS) (\<lambda>(_, st).
       return_value st))"

text \<open>The unsigned balance of the reply is returned as an \<open>int\<close>.\<close>

definition query_balance :: "'n yaml \<Rightarrow> alpaca \<Rightarrow> peers \<Rightarrow> string \<Rightarrow> string \<Rightarrow> string \<Rightarrow> ('n, int) action" where
  "query_balance Y A peers blockchain_node config_file key_file =
     and_then (reads (load_wallet Y config_file key_file)) (\<lambda>w.
     and_then (round_trip A peers (de_uint32 A) blockchain_node (P_key (pub_key w)) QUERY_BAL) (\<lambda>(_, bal).
       return_value (sint bal)))"

section \<open>Display (wallet.cpp, transaction.cpp, block.cpp)\<close>

definition display_wallet :: "Wallet \<Rightarrow> ('n, unit) action" where
  "display_wallet w =
     and_then (of_result (base58_encode_key (pub_key w))) (\<lambda>pub.
     and_then (of_result (base58_encode_key (priv_key w))) (\<lambda>priv.
       prints (wallet_text pub priv)))"

definition display_transaction :: "Transaction \<Rightarrow> ('n, unit) action" where
  "display_transaction tx =
     and_then (of_result (base58_encode_key (src tx))) (\<lambda>s.
     and_then (of_result (base58_encode_key (dest tx))) (\<lambda>d.
       prints (transaction_text s d tx)))"

text \<open>Each hash is encoded when its line is printed.\<close>

definition display_block_header :: "BlockHeader \<Rightarrow> ('n, unit) action" where
  "display_block_header hdr =
     and_then (prints (line ''Block header:'')) (\<lambda>_.
     and_then (of_result (base58_encode_key (hash hdr))) (\<lambda>h.
     and_then (prints (line (tab # ''hash: '' @ fmt_s h))) (\<lambda>_.
     and_then (of_result (base58_encode_key (prev_hash hdr))) (\<lambda>p.
     and_then (prints (line (tab # ''prev_hash: '' @ fmt_s p))) (\<lambda>_.
     and_then (prints (line (tab # ''difficulty: '' @ fmt_d (difficulty hdr)))) (\<lambda>_.
     and_then (prints (line (tab # ''timestamp: '' @ fmt_lu (timestamp hdr)))) (\<lambda>_.
       prints (line (tab # ''id: '' @ fmt_d (hdr_id hdr))))))))))"

lemma display_block_header_text:
  assumes "base58_encode_key (hash hdr) = Inr h" "base58_encode_key (prev_hash hdr) = Inr p"
  shows "display_block_header hdr hst = (hst\<lparr>host_console := host_console hst @ header_text h p hdr\<rparr>, Inr ())"
  by (simp add: display_block_header_def assms header_text_def)

definition display_block :: "Block \<Rightarrow> ('n, unit) action" where
  "display_block b =
     and_then (display_block_header (header b)) (\<lambda>_. for_each display_transaction (transactions b))"

section \<open>The monitor (monitor.cpp)\<close>

definition monitor_last_block :: "'n yaml \<Rightarrow> alpaca \<Rightarrow> peers \<Rightarrow> string \<Rightarrow> ('n, unit) action" where
  "monitor_last_block Y A peers config_file =
     and_then (reads (get_blockchain_address Y config_file)) (\<lambda>addr.
     and_then (round_trip A peers (de_block_header A) addr P_null QUERY_LAST_BLOCK) (\<lambda>(_, hdr).
     and_then (display_block_header hdr) (\<lambda>_. prints [newline])))"

text \<open>A query for one unsigned number, which is then printed by \<open>%d\<close>.\<close>

definition query_number ::
  "alpaca \<Rightarrow> peers \<Rightarrow> ('n files \<Rightarrow> string result) \<Rightarrow> MessageType \<Rightarrow> (string \<Rightarrow> string) \<Rightarrow> ('n, unit) action" where
  "query_number A peers get_address ty text_of =
     and_then (reads get_address) (\<lambda>addr.
     and_then (round_trip A peers (de_uint32 A) addr P_null ty) (\<lambda>(_, x). prints (text_of (fmt_d x))))"

definition num_trans :: "'n yaml \<Rightarrow> alpaca \<Rightarrow> peers \<Rightarrow> string \<Rightarrow> ('n, unit) action" where
  "num_trans Y A peers config_file =
     query_number A peers (get_tx_pool_address Y config_file) QUERY_TX_COUNT
       (\<lambda>d. line (''Size of transation queue: '' @ d) @ [newline])"

definition num_validators :: "'n yaml \<Rightarrow> alpaca \<Rightarrow> peers \<Rightarrow> string \<Rightarrow> ('n, unit) action" where
  "num_validators Y A peers config_file =
     query_number A peers (get_metronome_address Y config_file) QUERY_NUM_VALIDATORS
       (\<lambda>d. line (''Number of validators: '' @ d))"

definition num_wallets :: "'n yaml \<Rightarrow> alpaca \<Rightarrow> peers \<Rightarrow> string \<Rightarrow> ('n, unit) action" where
  "num_wallets Y A peers config_file =
     query_number A peers (get_blockchain_address Y config_file) QUERY_NUM_ADDRS
       (\<lambda>d. line (''Number of wallets on blockchain: '' @ d))"

definition num_coins :: "'n yaml \<Rightarrow> alpaca \<Rightarrow> peers \<Rightarrow> string \<Rightarrow> ('n, unit) action" where
  "num_coins Y A peers config_file =
     query_number A peers (get_blockchain_address Y config_file) QUERY_COINS
       (\<lambda>d. line (''Net total number of coins in blockchain: '' @ d @ '' coins.''))"

definition hashes_per_second :: "('n, unit) action" where
  "hashes_per_second = prints (line ''hashes_per_second not implemented'')"

definition hashes_stored :: "('n, unit) action" where
  "hashes_stored = prints (line ''hashes_stored not implemented'')"

text \<open>\<open>clock n\<close> is the \<open>n\<close>-th value that \<open>get_timestamp()\<close> returns in the process.\<close>

definition print_monitor_stats :: "'n yaml \<Rightarrow> alpaca \<Rightarrow> peers \<Rightarrow> (nat \<Rightarrow> u64) \<Rightarrow> string \<Rightarrow> ('n, unit) action" where
  "print_monitor_stats Y A peers clock config_file =
     and_then (prints (line (tab # ''timestamp: '' @ fmt_lu (clock 0)))) (\<lambda>_.
     and_then (monitor_last_block Y A peers config_file) (\<lambda>_.
     and_then (num_trans Y A peers config_file) (\<lambda>_.
     and_then (num_validators Y A peers config_file) (\<lambda>_.
     and_then (num_wallets Y A peers config_file) (\<lambda>_.
     and_then (num_coins Y A peers config_file) (\<lambda>_.
     and_then hashes_per_second (\<lambda>_.
     and_then hashes_stored (\<lambda>_.
       prints (line (tab # ''End of monitor stats. timestamp: '' @ fmt_lu (clock 1)))))))))))"

section \<open>Wallet commands (dsc.cpp)\<close>

definition wallet_help_text :: string where
  "wallet_help_text =
     line ''Help menu for Wallet, supported commands:'' @
     line ''./dsc wallet help'' @
     line ''./dsc wallet create <config file> <save key file>'' @
     line ''./dsc wallet key <config file> <key file>'' @
     line ''./dsc wallet balance <config file> <key file>'' @
     line ''./dsc wallet send <config file> <key file> <amount> <address>'' @
     line ''./dsc wallet send multi <config file> <key file> <amount> <address> <count>'' @
     line ''./dsc wallet transaction <config file> <key file> <ID> ''"

definition cl_wallet_help :: "('n, int) action" where
  "cl_wallet_help = and_then (prints wallet_help_text) (\<lambda>_. return_value 0)"

text \<open>\<open>create_wallet\<close> does not initialise its two keys; \<open>buffers\<close> is what they happen to hold.\<close>

definition create_wallet :: "(Ed25519Key \<times> Ed25519Key) option \<Rightarrow> Ed25519Key \<times> Ed25519Key \<Rightarrow> Wallet" where
  "create_wallet pkey buffers =
     (let (pub, priv) = gen_keys_ed25519 pkey buffers in \<lparr>priv_key = priv, pub_key = pub\<rparr>)"

definition cl_wallet_create ::
  "'n yaml \<Rightarrow> (Ed25519Key \<times> Ed25519Key) option \<Rightarrow> Ed25519Key \<times> Ed25519Key \<Rightarrow> string \<Rightarrow> string \<Rightarrow> ('n, int) action" where
  "cl_wallet_create Y pkey buffers config_file key_file =
     and_then (prints (line ''Creating wallet...'')) (\<lambda>_.
     let w = create_wallet pkey buffers in
     and_then (writes (\<lambda>fs. bind_result (store_wallet Y w config_file key_file fs) (\<lambda>fs'. Inr ((), fs')))) (\<lambda>_.
     and_then (display_wallet w) (\<lambda>_. return_value 0)))"

definition cl_wallet_key :: "'n yaml \<Rightarrow> string \<Rightarrow> string \<Rightarrow> ('n, int) action" where
  "cl_wallet_key Y config_file key_file =
     and_then (prints (line ''Loading wallet...'')) (\<lambda>_.
     and_then (reads (load_wallet Y config_file key_file)) (\<lambda>w.
     and_then (display_wallet w) (\<lambda>_. return_value 0)))"

text \<open>The \<open>int\<close> is converted to \<open>uint64_t\<close> before it is printed.\<close>

definition cl_wallet_balance :: "'n yaml \<Rightarrow> alpaca \<Rightarrow> peers \<Rightarrow> string \<Rightarrow> string \<Rightarrow> ('n, int) action" where
  "cl_wallet_balance Y A peers config_file key_file =
     and_then (reads (get_blockchain_address Y config_file)) (\<lambda>addr.
     and_then (query_balance Y A peers addr config_file key_file) (\<lambda>bal.
     and_then (prints (line (''Current balance: '' @ fmt_lu (word_of_int bal)))) (\<lambda>_. return_value 0)))"

definition cl_wallet_send ::
  "'n yaml \<Rightarrow> alpaca \<Rightarrow> openssl \<Rightarrow> byte list \<Rightarrow> peers \<Rightarrow> u64 \<Rightarrow> string \<Rightarrow> string \<Rightarrow> string \<Rightarrow> string \<Rightarrow> ('n, int) action" where
  "cl_wallet_send Y A ossl pad peers now config_file key_file arg_amount arg_address =
     and_then (of_result (base58_decode_key arg_address)) (\<lambda>dst.
     and_then (of_result (stoi arg_amount)) (\<lambda>amt.
     and_then (reads (load_wallet Y config_file key_file)) (\<lambda>w.
     and_then (prints (line ''Creating transaction...'')) (\<lambda>_.
     and_then (writes (get_tx_id Y config_file)) (\<lambda>ident.
     let tx = create_transaction ossl pad now w dst (word_of_int amt) ident in
     and_then (display_transaction tx) (\<lambda>_.
     and_then (reads (get_tx_pool_address Y config_file)) (\<lambda>addr.
     and_then (submit_transaction A peers tx addr) (\<lambda>status.
       if status < 0
         then and_then (prints (line ''Transaction failed to post.'')) (\<lambda>_. return_value (- 1))
         else and_then (prints (line ''Transaction submitted successfully!'')) (\<lambda>_. return_value 0)))))))))"

text \<open>
  The loop of \<open>cl_wallet_send_multi\<close>, from iteration \<open>i\<close> with \<open>k\<close> to go; \<open>ident\<close> is a \<open>uint32_t\<close> and so is
  the sum \<open>id + i\<close>. \<open>now i\<close> is the timestamp of transaction \<open>i\<close>.
\<close>

fun send_loop ::
  "alpaca \<Rightarrow> openssl \<Rightarrow> byte list \<Rightarrow> peers \<Rightarrow> (nat \<Rightarrow> u64) \<Rightarrow> Wallet \<Rightarrow> Ed25519Key \<Rightarrow> u32 \<Rightarrow> u32 \<Rightarrow> string
     \<Rightarrow> nat \<Rightarrow> nat \<Rightarrow> ('n, bool) action" where
  "send_loop A ossl pad peers now w dst amt ident addr i 0 = return_value True"
| "send_loop A ossl pad peers now w dst amt ident addr i (Suc k) =
     and_then (submit_transaction A peers (create_transaction ossl pad (now i) w dst amt (ucast (ident + of_nat i))) addr)
       (\<lambda>status. if status < 0
                then and_then (prints (line (''Transaction '' @ fmt_d (of_nat i) @ '' failed to post.''))) (\<lambda>_. return_value False)
                else send_loop A ossl pad peers now w dst amt ident addr (Suc i) k)"

text \<open>The clock is read before the loop, for each transaction and after the loop.\<close>

definition cl_wallet_send_multi ::
  "'n yaml \<Rightarrow> alpaca \<Rightarrow> openssl \<Rightarrow> byte list \<Rightarrow> peers \<Rightarrow> (nat \<Rightarrow> u64) \<Rightarrow> string \<Rightarrow> string \<Rightarrow> string \<Rightarrow> string \<Rightarrow> string
     \<Rightarrow> ('n, int) action" where
  "cl_wallet_send_multi Y A ossl pad peers clock config_file key_file arg_amount arg_address arg_count =
     and_then (of_result (base58_decode_key arg_address)) (\<lambda>dst.
     and_then (of_result (stoi arg_amount)) (\<lambda>amt.
     and_then (of_result (stoi arg_count)) (\<lambda>cnt.
     and_then (reads (load_wallet Y config_file key_file)) (\<lambda>w.
     and_then (reads (get_tx_pool_address Y config_file)) (\<lambda>addr.
     and_then (writes (get_tx_id Y config_file)) (\<lambda>first_id.
     let ident = (ucast first_id :: u32) in
     and_then (prints (line (''Submitting '' @ fmt_d (word_of_int cnt) @ '' transactions...''))) (\<lambda>_.
     and_then (send_loop A ossl pad peers (\<lambda>i. clock (Suc i)) w dst (word_of_int amt) ident addr 0 (nat cnt)) (\<lambda>posted_all.
       if \<not> posted_all then return_value (- 1)
       else and_then (prints (line (''Transactions submitted successfully! ['' @ fmt_lu (clock (Suc (nat cnt)) - clock 0) @ '' ms]''))) (\<lambda>_.
            and_then (writes (\<lambda>fs. bind_result (set_tx_id Y (ucast (ident + word_of_int cnt)) config_file fs)
                                     (\<lambda>fs'. Inr ((), fs'))))
              (\<lambda>_. return_value 0))))))))))"

definition cl_wallet_transaction ::
  "'n yaml \<Rightarrow> alpaca \<Rightarrow> peers \<Rightarrow> string \<Rightarrow> string \<Rightarrow> string \<Rightarrow> ('n, int) action" where
  "cl_wallet_transaction Y A peers config_file key_file arg_id =
     and_then (reads (get_tx_pool_address Y config_file)) (\<lambda>addr.
     and_then (of_result (stoi arg_id)) (\<lambda>i.
     let ident = (word_of_int i :: u64) in
     and_then (query_transaction Y A peers config_file key_file ident addr) (\<lambda>st.
     and_then (prints (line (''Transaction '' @ fmt_lu ident @ '' status ['' @ status_text st @ '']''))) (\<lambda>_.
       return_value 0))))"

section \<open>The wallet's command line (dsc.cpp)\<close>

text \<open>
  What a process finds around it besides its host: the libraries, the other side of the network, the clock,
  the padding bytes of a transaction, the key pair that OpenSSL generates (if it does), the id that libuuid
  generates, and the content of uninitialised memory (the keys of a new wallet, the two times of a metronome,
  the id of a block that is read back).
\<close>

record 'n env =
  env_yaml :: "'n yaml"
  env_alpaca :: alpaca
  env_openssl :: openssl
  env_peers :: peers
  env_clock :: "nat \<Rightarrow> u64"
  env_pad :: "byte list"
  env_keys :: "(Ed25519Key \<times> Ed25519Key) option"
  env_uuid :: UUID
  env_blake3 :: "byte list \<Rightarrow> Blake3Hash"
  env_buffers :: "Ed25519Key \<times> Ed25519Key"
  env_times :: "u64 \<times> u64"
  env_junk :: u32

text \<open>\<open>args[i]\<close> past the end has no defined meaning.\<close>

definition arg :: "string list \<Rightarrow> nat \<Rightarrow> string result" where
  "arg args i = (if i < length args then Inr (args ! i) else Inl (Undefined ''index out of range''))"

text \<open>\<open>create\<close> and \<open>balance\<close> read their arguments without a check of their number.\<close>

definition run_wallet :: "'n env \<Rightarrow> string list \<Rightarrow> ('n, int) action" where
  "run_wallet E args =
     (let Y = env_yaml E; A = env_alpaca E; ossl = env_openssl E; peers = env_peers E; pad = env_pad E in
      if args = [] \<or> args ! 0 = ''help'' then cl_wallet_help
      else if args ! 0 = ''create'' then
        and_then (of_result (arg args 1)) (\<lambda>c. and_then (of_result (arg args 2)) (\<lambda>k.
          cl_wallet_create Y (env_keys E) (env_buffers E) c k))
      else if args ! 0 = ''key'' \<and> 3 \<le> length args then cl_wallet_key Y (args ! 1) (args ! 2)
      else if args ! 0 = ''balance'' then
        and_then (of_result (arg args 1)) (\<lambda>c. and_then (of_result (arg args 2)) (\<lambda>k.
          cl_wallet_balance Y A peers c k))
      else if args ! 0 = ''send'' \<and> 7 \<le> length args \<and> args ! 1 = ''multi''
        then cl_wallet_send_multi Y A ossl pad peers (env_clock E) (args ! 2) (args ! 3) (args ! 4) (args ! 5) (args ! 6)
      else if args ! 0 = ''send'' \<and> 5 \<le> length args
        then cl_wallet_send Y A ossl pad peers (env_clock E 0) (args ! 1) (args ! 2) (args ! 3) (args ! 4)
      else if args ! 0 = ''transaction'' \<and> 4 \<le> length args
        then cl_wallet_transaction Y A peers (args ! 1) (args ! 2) (args ! 3)
      else and_then (prints (line ''Please make sure you provided the correct command with all of its arguments.''))
             (\<lambda>_. return_value (- 1)))"

end
