(* ===== verification/Consensus.thy ===== *)
theory Consensus
  imports Chain_Types
begin

text \<open>
  The difficulty tests of src/pow.cpp and src/pom.cpp and the interface \<open>IConsensusModel\<close> of
  src/consensus.hpp. Both tests walk over the bits of a hash byte by byte, the least significant bit
  of a byte first; the reference is equality of prefixes of that bit string.
\<close>

section \<open>The bit string of a hash\<close>

definition bits_of :: "byte list \<Rightarrow> bool list" where
  "bits_of h = concat (map (\<lambda>b. map (bit b) [0..<8]) h)"

lemma length_bits_of [simp, length_facts]: "length (bits_of h) = 8 * length h"
  by (induction h) (auto simp: bits_of_def)

lemma bits_of_Cons:
  "bits_of (b # h) = [bit b 0, bit b 1, bit b 2, bit b 3, bit b 4, bit b 5, bit b 6, bit b 7] @ bits_of h"
  by (simp add: bits_of_def upt_rec numeral_eq_Suc)

lemma bits_of_Nil [simp]: "bits_of [] = []"
  by (simp add: bits_of_def)

lemma bits_of_Cons_map: "bits_of (b # h) = map (bit b) [0..<8] @ bits_of h"
  by (simp add: bits_of_def)

lemma bits_of_append: "bits_of (g @ h) = bits_of g @ bits_of h"
  by (simp add: bits_of_def)

lemma nth_bits_of:
  "i < length h \<Longrightarrow> j < 8 \<Longrightarrow> bits_of h ! (8 * i + j) = bit (h ! i) j"
proof (induction h arbitrary: i)
  case (Cons b h)
  have cons: "bits_of (b # h) = map (bit b) [0..<8] @ bits_of h" by (simp add: bits_of_def)
  show ?case
  proof (cases i)
    case 0
    then show ?thesis using Cons.prems by (simp add: cons nth_append)
  next
    case (Suc i')
    then have "bits_of (b # h) ! (8 * i + j) = bits_of h ! (8 * i' + j)"
      by (simp add: cons nth_append)
    then show ?thesis using Suc Cons by simp
  qed
qed simp

text \<open>\<open>b >> j & 1\<close> is the \<open>j\<close>-th bit.\<close>

lemma shift_and_1: "drop_bit j b AND 1 = (if bit b j then 1 else 0)" for b :: byte
  by (simp add: and_one_eq mod2_eq_if bit_iff_odd_drop_bit)

lemma shift_and_1_eq: "(drop_bit j a AND 1 = drop_bit j b AND 1) \<longleftrightarrow> (bit a j \<longleftrightarrow> bit b j)" for a b :: byte
  by (simp add: shift_and_1)

text \<open>The number of leading positions in which two lists agree.\<close>

fun agree :: "'a list \<Rightarrow> 'a list \<Rightarrow> nat" where
  "agree (x # xs) (y # ys) = (if x = y then Suc (agree xs ys) else 0)"
| "agree _ _ = 0"

lemma agree_le_length: "agree xs ys \<le> length xs"
  by (induction xs ys rule: agree.induct) auto

lemma le_agree_iff:
  "n \<le> length xs \<Longrightarrow> length xs = length ys \<Longrightarrow> n \<le> agree xs ys \<longleftrightarrow> take n xs = take n ys"
proof (induction xs ys arbitrary: n rule: agree.induct)
  case (1 x xs y ys)
  then show ?case by (cases n) auto
qed auto

lemma drop_bits_step:
  assumes "i < length h" "j < 8"
  shows "drop (8 * i + j) (bits_of h) = bit (h ! i) j # drop (8 * i + Suc j) (bits_of h)"
proof -
  have "8 * i + j < length (bits_of h)" using assms by simp
  then show ?thesis using assms by (simp add: Cons_nth_drop_Suc [symmetric] nth_bits_of)
qed

section \<open>The tests\<close>

text \<open>
  The two nested loops of \<open>check_prefix\<close>, one recursive call per iteration or exit of the inner loop.
  \<open>correct\<close> counts the agreeing bits.
\<close>

function prefix_loop :: "Blake3Hash \<Rightarrow> Blake3Hash \<Rightarrow> u32 \<Rightarrow> nat \<Rightarrow> nat \<Rightarrow> nat \<Rightarrow> bool" where
  "prefix_loop result target dif i j correct =
     (if i < length result
      then if j < 8
           then if drop_bit j (result ! i) AND 1 = drop_bit j (target ! i) AND 1
                then prefix_loop result target dif i (j + 1) (correct + 1)
                else unat dif \<le> correct
           else prefix_loop result target dif (i + 1) 0 correct
      else unat dif \<le> correct)"
  by pat_completeness auto
termination
  by (relation "measures [\<lambda>(result, _, _, i, _, _). length result - i, \<lambda>(_, _, _, _, j, _). 8 - j]") auto

declare prefix_loop.simps [simp del]

definition check_prefix :: "Blake3Hash \<Rightarrow> Blake3Hash \<Rightarrow> u32 \<Rightarrow> bool result" where
  "check_prefix result target dif =
     (if unat dif > length result * 8 then Inl (Runtime_error ''Bad difficulty.'')
      else Inr (prefix_loop result target dif 0 0 0))"

function zeros_loop :: "Blake3Hash \<Rightarrow> u32 \<Rightarrow> nat \<Rightarrow> nat \<Rightarrow> nat \<Rightarrow> bool" where
  "zeros_loop result dif i j correct =
     (if i < length result
      then if j < 8
           then if drop_bit j (result ! i) AND 1 \<noteq> 0
                then unat dif \<le> correct
                else zeros_loop result dif i (j + 1) (correct + 1)
           else zeros_loop result dif (i + 1) 0 correct
      else unat dif \<le> correct)"
  by pat_completeness auto
termination
  by (relation "measures [\<lambda>(result, _, i, _, _). length result - i, \<lambda>(_, _, _, j, _). 8 - j]") auto

declare zeros_loop.simps [simp del]

definition check_leading_zeros :: "Blake3Hash \<Rightarrow> u32 \<Rightarrow> bool result" where
  "check_leading_zeros result dif =
     (if unat dif > length result * 8 then Inl (Runtime_error ''Bad difficulty.'')
      else Inr (zeros_loop result dif 0 0 0))"

section \<open>What the tests decide\<close>

lemma prefix_loop_agree:
  "length result = length target \<Longrightarrow> j \<le> 8 \<Longrightarrow>
   prefix_loop result target dif i j correct \<longleftrightarrow>
     unat dif \<le> correct + agree (drop (8 * i + j) (bits_of result)) (drop (8 * i + j) (bits_of target))"
proof (induction result target dif i j correct rule: prefix_loop.induct)
  case (1 result target dif i j correct)
  consider "\<not> i < length result" | "i < length result" "\<not> j < 8" | "i < length result" "j < 8" by blast
  then show ?case
  proof cases
    case 1
    then show ?thesis by (subst prefix_loop.simps) simp
  next
    case 2
    then have "j = 8" using "1.prems" by simp
    with "1.IH"(2) 2 "1.prems" show ?thesis by (subst prefix_loop.simps) (simp add: add.commute)
  next
    case 3
    with "1.IH"(1) "1.prems" show ?thesis
      by (subst prefix_loop.simps) (simp add: shift_and_1_eq drop_bits_step)
  qed
qed

lemma check_prefix_eq:
  assumes "length result = 32" "length target = 32"
  shows "check_prefix result target d =
    (if unat d > 256 then Inl (Runtime_error ''Bad difficulty.'')
     else Inr (take (unat d) (bits_of result) = take (unat d) (bits_of target)))"
  using assms le_agree_iff [of "unat d" "bits_of result" "bits_of target"]
  by (simp add: check_prefix_def prefix_loop_agree)

lemma zeros_loop_prefix:
  "zeros_loop result d i j correct = prefix_loop result (zeros (length result)) d i j correct"
  by (induction result d i j correct rule: zeros_loop.induct)
    (subst zeros_loop.simps, subst prefix_loop.simps, simp add: zeros_def)

lemma check_leading_zeros_prefix:
  "check_leading_zeros result d = check_prefix result (zeros (length result)) d"
  by (simp add: check_leading_zeros_def check_prefix_def zeros_loop_prefix)

lemma bits_of_zeros: "bits_of (zeros n) = replicate (8 * n) False"
  by (induction n) (simp_all add: bits_of_def zeros_def replicate_add [symmetric] numeral_eq_Suc)

lemma check_leading_zeros_eq:
  assumes "length result = 32"
  shows "check_leading_zeros result d =
    (if unat d > 256 then Inl (Runtime_error ''Bad difficulty.'')
     else Inr (\<forall>b\<in>set (take (unat d) (bits_of result)). \<not> b))"
proof -
  have "take n (bits_of result) = replicate n False \<longleftrightarrow> (\<forall>b\<in>set (take n (bits_of result)). \<not> b)"
    if "n \<le> 256" for n
    using that assms replicate_eqI [of "take n (bits_of result)" n False] by (auto simp: min_def)
  then show ?thesis
    using assms by (simp add: check_leading_zeros_prefix check_prefix_eq bits_of_zeros)
qed

section \<open>The interface of a consensus model\<close>

text \<open>
  \<open>solves prev d end s\<close> holds for every pair \<open>s\<close> that \<open>solve_hash(prev, d, end)\<close> can return; \<open>meets\<close> is
  the condition a hash has to satisfy. A model promises that what it returns, unless it is the null
  hash that stands for failure, meets the condition.
\<close>

locale consensus_solver =
  fixes solves :: "Blake3Hash \<Rightarrow> u32 \<Rightarrow> u64 \<Rightarrow> HashInput \<times> Blake3Hash \<Rightarrow> bool"
    and meets :: "Blake3Hash \<Rightarrow> u32 \<Rightarrow> Blake3Hash \<Rightarrow> bool"
  assumes solution_meets: "solves prev d t (inp, h) \<Longrightarrow> \<not> is_null_hash h \<Longrightarrow> meets prev d h"

text \<open>A model whose \<open>verify_solution\<close> accepts exactly the hashes that meet the condition.\<close>

locale verifying_consensus = consensus_solver +
  fixes verify :: "HashInput \<Rightarrow> Blake3Hash \<Rightarrow> Blake3Hash \<Rightarrow> u32 \<Rightarrow> bool result"
  assumes verify_meets: "verify inp h prev d = Inr True \<longleftrightarrow> meets prev d h"
begin

lemma solution_verified: "solves prev d t (inp, h) \<Longrightarrow> \<not> is_null_hash h \<Longrightarrow> verify inp h prev d = Inr True"
  by (simp add: verify_meets solution_meets)

end

section \<open>Properties\<close>

text \<open>
  The prefix test raises exactly for a difficulty above 256, and otherwise decides whether the two
  hashes agree in the first \<open>d\<close> bits, bytes in order and bits of a byte from the lowest up.
\<close>

lemma check_prefix_decides_common_prefix:
  assumes "length result = 32" "length target = 32"
  shows "check_prefix result target d =
    (if unat d > 256 then Inl (Runtime_error ''Bad difficulty.'')
     else Inr (take (unat d) (bits_of result) = take (unat d) (bits_of target)))"
  by (simp add: check_prefix_eq [OF assms])

lemma check_prefix_decides_common_prefix_witness:
  "check_prefix (3 # zeros 31) (1 # zeros 31) 1 = Inr True \<and>
   check_prefix (3 # zeros 31) (1 # zeros 31) 2 = Inr False"
proof -
  have bits: "take 2 (bits_of (3 # zeros 31)) = [True, True]" "take 2 (bits_of (1 # zeros 31)) = [True, False]"
    "take (Suc 0) (bits_of (3 # zeros 31)) = [True]" "take (Suc 0) (bits_of (1 # zeros 31)) = [True]"
    by (simp_all add: bits_of_Cons)
  show ?thesis
    using check_prefix_decides_common_prefix [of "3 # zeros 31" "1 # zeros 31" 1]
      check_prefix_decides_common_prefix [of "3 # zeros 31" "1 # zeros 31" 2]
    by (simp add: bits)
qed

text \<open>
  The leading-zeros test of proof of work is the prefix test of proof of memory against the null
  hash, for every hash and difficulty, so both count in the same bit order.
\<close>

lemma leading_zeros_is_null_prefix:
  "check_leading_zeros result d = check_prefix result (zeros (length result)) d"
  by (rule check_leading_zeros_prefix)

text \<open>
  Difficulty is monotone: a hash that passes either test at one difficulty passes it at every lower
  one; at difficulty 0 every hash passes, at 256 only the target itself.
\<close>

lemma lower_difficulty_accepts:
  assumes "length result = 32" "length target = 32" "check_prefix result target d = Inr True" "d' \<le> d"
  shows "check_prefix result target d' = Inr True \<and> check_prefix result target 0 = Inr True \<and>
    (check_prefix result target 256 = Inr True \<longleftrightarrow> bits_of result = bits_of target)"
proof -
  have le: "unat d' \<le> unat d" using assms(4) by (simp add: word_le_nat_alt)
  have "unat d \<le> 256" and eq: "take (unat d) (bits_of result) = take (unat d) (bits_of target)"
    using assms(3) by (auto simp: check_prefix_eq [OF assms(1,2)] split: if_splits)
  moreover have "take (unat d') (bits_of result) = take (unat d') (bits_of target)"
    using le arg_cong [OF eq, of "take (unat d')"] by (simp add: min_absorb1)
  ultimately show ?thesis using le assms(1,2) by (simp add: check_prefix_eq [OF assms(1,2)])
qed

lemma lower_difficulty_accepts_witness:
  "check_prefix (zeros 32) (zeros 32) 12 = Inr True"
proof -
  have "check_prefix (zeros 32) (zeros 32) 20 = Inr True" by (simp add: check_prefix_eq)
  from lower_difficulty_accepts [OF _ _ this, of 12] show ?thesis by simp
qed

end
