(* ===== verification/ProofOfMemory.thy ===== *)
theory ProofOfMemory
  imports Consensus
begin

text \<open>
  Proof of memory, src/pom.hpp and src/pom.cpp: a sorted table of hashes and a binary search in it
  for a hash with the prefix of the target. \<open>blake3\<close> is the vendored hash function.
\<close>

section \<open>The binary search\<close>

text \<open>
  The loop of \<open>prefix_binary_search\<close>; the comparison of two \<open>std::array<uint8_t, 32>\<close> is
  lexicographic, as the order of byte lists is here.
\<close>

function search_loop :: "Blake3Hash list \<Rightarrow> Blake3Hash \<Rightarrow> u32 \<Rightarrow> int \<Rightarrow> int \<Rightarrow> int result" where
  "search_loop hashes target d l r =
     (if l \<le> r
      then let m = l + (r - l) div 2
           in case check_prefix (hashes ! nat m) target d of
                Inl e \<Rightarrow> Inl e
              | Inr found \<Rightarrow>
                  if found then Inr m
                  else if hashes ! nat m < target then search_loop hashes target d (m + 1) r
                  else search_loop hashes target d l (m - 1)
      else Inr (- 1))"
  by pat_completeness auto
termination
  by (relation "measure (\<lambda>(hashes, target, d, l, r). nat (r - l + 1))") auto

declare search_loop.simps [simp del]

text \<open>\<open>int r = hashes.size() - 1\<close>, with fewer than two to the 31 hashes.\<close>

definition prefix_binary_search :: "Blake3Hash list \<Rightarrow> Blake3Hash \<Rightarrow> u32 \<Rightarrow> int result" where
  "prefix_binary_search hashes target d =
     search_loop hashes target d 0 (int (length hashes) - 1)"

section \<open>The class\<close>

record ProofOfMemory =
  pom_wallet :: Wallet
  pom_fingerprint :: UUID
  pom_hashes :: "Blake3Hash list"

text \<open>\<open>(&input, sizeof(HashInput))\<close>: 56 bytes, the fields one after another without padding.\<close>

definition HashInput_bytes :: "HashInput \<Rightarrow> byte list" where
  "HashInput_bytes inp = fingerprint inp @ public_key inp @ le_bytes 8 (nonce inp)"

definition pom_input :: "ProofOfMemory \<Rightarrow> u64 \<Rightarrow> HashInput" where
  "pom_input pom n =
     \<lparr>fingerprint = pom_fingerprint pom, public_key = pub_key (pom_wallet pom), nonce = n\<rparr>"

definition new_ProofOfMemory :: "Wallet \<Rightarrow> UUID \<Rightarrow> ProofOfMemory" where
  "new_ProofOfMemory w fp = \<lparr>pom_wallet = w, pom_fingerprint = fp, pom_hashes = []\<rparr>"

text \<open>\<open>memory / sizeof(Blake3Hash)\<close> hashes, one per nonce from 0, then sorted.\<close>

definition gen_hashes :: "(byte list \<Rightarrow> Blake3Hash) \<Rightarrow> u32 \<Rightarrow> ProofOfMemory \<Rightarrow> ProofOfMemory" where
  "gen_hashes blake3 memory pom =
     (let num_hashes = unat memory div 32;
          hashes = map (\<lambda>i. blake3 (HashInput_bytes (pom_input pom (of_nat i)))) [0..<num_hashes]
      in pom\<lparr>pom_hashes := sort hashes\<rparr>)"

definition pom_solve_hash ::
  "(byte list \<Rightarrow> Blake3Hash) \<Rightarrow> ProofOfMemory \<Rightarrow> Blake3Hash \<Rightarrow> u32 \<Rightarrow> (HashInput \<times> Blake3Hash) result" where
  "pom_solve_hash blake3 pom prev d =
     (let target = blake3 prev
      in bind_result (prefix_binary_search (pom_hashes pom) target d)
           (\<lambda>idx. if idx = - 1 then Inr (zero_HashInput, zero_hash)
                  else Inr (pom_input pom 69, pom_hashes pom ! nat idx)))"

definition pom_verify_solution ::
  "(byte list \<Rightarrow> Blake3Hash) \<Rightarrow> HashInput \<Rightarrow> Blake3Hash \<Rightarrow> Blake3Hash \<Rightarrow> u32 \<Rightarrow> bool result" where
  "pom_verify_solution blake3 inp h prev d =
     (let target = blake3 prev; result = blake3 (HashInput_bytes inp)
      in check_prefix result target d)"

section \<open>Order and prefixes\<close>

text \<open>
  Hashes that differ in the first \<open>k\<close> bytes are ordered as those bytes are.
\<close>

lemma less_by_prefix:
  fixes xs ys :: "'a::linorder list"
  shows "length xs = length ys \<Longrightarrow> take k xs \<noteq> take k ys \<Longrightarrow> xs < ys \<longleftrightarrow> take k xs < take k ys"
proof (induction xs ys arbitrary: k rule: list_induct2)
  case (Cons x xs y ys)
  then show ?case by (cases k) (auto simp: Cons_less_Cons)
qed simp

lemma take_bits_bytes: "take (8 * k) (bits_of h) = bits_of (take k h)"
proof (induction h arbitrary: k)
  case (Cons b h)
  then show ?case by (cases k) (auto simp: bits_of_Cons_map)
qed simp

lemma byte_eq_bits: "a = b \<longleftrightarrow> (\<forall>j<8. bit a j = bit b j)" for a b :: byte
  by (auto intro: bit_word_eqI)

lemma bits_of_inj: "length g = length h \<Longrightarrow> bits_of g = bits_of h \<Longrightarrow> g = h"
proof (induction g h rule: list_induct2)
  case (Cons a g b h)
  then have "[bit a 0, bit a 1, bit a 2, bit a 3, bit a 4, bit a 5, bit a 6, bit a 7] =
      [bit b 0, bit b 1, bit b 2, bit b 3, bit b 4, bit b 5, bit b 6, bit b 7]" and "bits_of g = bits_of h"
    by (simp_all add: bits_of_Cons)
  then show ?case using Cons by (simp add: byte_eq_bits) (auto simp: less_Suc_eq numeral_eq_Suc)
qed simp

text \<open>At a difficulty of whole bytes the test compares byte prefixes.\<close>

lemma check_prefix_bytes:
  assumes "length g = 32" "length h = 32" "unat d = 8 * k" "k \<le> 32"
  shows "check_prefix g h d = Inr (take k g = take k h)"
  using assms bits_of_inj [of "take k g" "take k h"]
  by (auto simp: check_prefix_eq take_bits_bytes)

lemma zeros_32: "zeros 32 = 0 # zeros 31"
  by (simp add: zeros_def numeral_eq_Suc)

section \<open>The search is sound, and complete for whole bytes\<close>

lemma search_loop_sound:
  assumes "0 \<le> l" "r < int (length hashes)" "\<forall>h\<in>set hashes. length h = 32" "length target = 32" "unat d \<le> 256"
  shows "\<exists>m. search_loop hashes target d l r = Inr m \<and>
    (m = - 1 \<or> l \<le> m \<and> m \<le> r \<and> check_prefix (hashes ! nat m) target d = Inr True)"
  using assms
proof (induction hashes target d l r rule: search_loop.induct)
  case (1 hashes target d l r)
  let ?m = "l + (r - l) div 2"
  show ?case
  proof (cases "l \<le> r")
    case True
    then have m: "l \<le> ?m" "?m \<le> r" by simp_all
    then have "length (hashes ! nat ?m) = 32" using "1.prems" by simp
    then obtain found where found: "check_prefix (hashes ! nat ?m) target d = Inr found"
      using "1.prems" by (simp add: check_prefix_eq)
    consider "found" | "\<not> found" "hashes ! nat ?m < target" | "\<not> found" "\<not> hashes ! nat ?m < target" by blast
    then show ?thesis
    proof cases
      case 2
      from "1.IH"(1) [OF True refl found 2] "1.prems" m
      show ?thesis using 2 True found by (subst search_loop.simps) (force simp: Let_def)
    next
      case 3
      from "1.IH"(2) [OF True refl found 3] "1.prems" m
      show ?thesis using 3 True found by (subst search_loop.simps) (force simp: Let_def)
    qed (use True found m in \<open>subst search_loop.simps, auto simp: Let_def\<close>)
  qed (subst search_loop.simps, simp)
qed

lemma sorted_nth_prefix:
  fixes hashes :: "Blake3Hash list"
  assumes "sorted hashes" "i < length hashes" "m < length hashes" "\<forall>h\<in>set hashes. length h = 32"
    and "length target = 32" "take k (hashes ! i) = take k target" "take k (hashes ! m) \<noteq> take k target"
  shows "if hashes ! m < target then m < i else i < m"
proof -
  have len: "length (hashes ! m) = 32" "length (hashes ! i) = 32" using assms by simp_all
  have "hashes ! m < target \<longleftrightarrow> hashes ! m < hashes ! i"
    using less_by_prefix [of "hashes ! m" target k] less_by_prefix [of "hashes ! m" "hashes ! i" k] len assms(5-7)
    by simp
  moreover have "hashes ! i \<noteq> hashes ! m" using assms(6,7) by auto
  ultimately show ?thesis
    using sorted_nth_mono [OF assms(1), of i m] sorted_nth_mono [OF assms(1), of m i] assms(2,3)
    by (metis leD le_less_linear less_le)
qed

lemma search_loop_complete:
  assumes "sorted hashes" "0 \<le> l" "r < int (length hashes)" "\<forall>h\<in>set hashes. length h = 32"
    and "length target = 32" "unat d = 8 * k" "k \<le> 32"
    and "l \<le> int i" "int i \<le> r" "take k (hashes ! i) = take k target"
  shows "search_loop hashes target d l r \<noteq> Inr (- 1)"
  using assms
proof (induction hashes target d l r rule: search_loop.induct)
  case (1 hashes target d l r)
  let ?m = "l + (r - l) div 2"
  have lr: "l \<le> r" using "1.prems" by simp
  then have m: "l \<le> ?m" "?m \<le> r" by simp_all
  have m': "nat ?m < length hashes" "0 \<le> ?m" and i: "i < length hashes"
    using m "1.prems"(2,3,9) by linarith+
  have "length (hashes ! nat ?m) = 32" using "1.prems"(4) m'(1) by simp
  then have chk: "check_prefix (hashes ! nat ?m) target d = Inr (take k (hashes ! nat ?m) = take k target)"
    using "1.prems" by (intro check_prefix_bytes) auto
  show ?case
  proof (cases "take k (hashes ! nat ?m) = take k target")
    case True
    then show ?thesis using lr chk m'(2) by (subst search_loop.simps) (simp add: Let_def)
  next
    case False
    have side: "if hashes ! nat ?m < target then nat ?m < i else i < nat ?m"
      by (rule sorted_nth_prefix [OF "1.prems"(1) i m'(1) "1.prems"(4,5,10) False])
    show ?thesis
    proof (cases "hashes ! nat ?m < target")
      case True
      have "?m + 1 \<le> int i" using side True m'(2) by simp
      with "1.IH"(1) [OF lr refl chk False True] "1.prems" m'(2)
      have "search_loop hashes target d (?m + 1) r \<noteq> Inr (- 1)" by simp
      then show ?thesis using lr chk False True by (subst search_loop.simps) (simp add: Let_def)
    next
      case f: False
      have "int i \<le> ?m - 1" using side f m'(2) by simp
      with "1.IH"(2) [OF lr refl chk False f] "1.prems" m
      have "search_loop hashes target d l (?m - 1) \<noteq> Inr (- 1)" by simp
      then show ?thesis using lr chk False f by (subst search_loop.simps) (simp add: Let_def)
    qed
  qed
qed

section \<open>The table\<close>

definition pom_table :: "(byte list \<Rightarrow> Blake3Hash) \<Rightarrow> u32 \<Rightarrow> ProofOfMemory \<Rightarrow> Blake3Hash list" where
  "pom_table blake3 memory pom =
     map (\<lambda>i. blake3 (HashInput_bytes (pom_input pom (of_nat i)))) [0..<unat memory div 32]"

lemma pom_hashes_gen [simp]:
  "pom_hashes (gen_hashes blake3 memory pom) = sort (pom_table blake3 memory pom)"
  by (simp add: gen_hashes_def pom_table_def Let_def)

lemma pom_input_gen [simp]: "pom_input (gen_hashes blake3 memory pom) n = pom_input pom n"
  by (simp add: gen_hashes_def pom_input_def Let_def)

lemma length_pom_table: "length (pom_table blake3 memory pom) < 2 ^ 27"
proof -
  have "unat memory < 2 ^ 32" using unsigned_less [of memory, where 'a = nat] by simp
  then show ?thesis by (simp add: pom_table_def)
qed

section \<open>Proof of memory as a consensus model\<close>

definition pom_solves ::
  "(byte list \<Rightarrow> Blake3Hash) \<Rightarrow> u32 \<Rightarrow> ProofOfMemory \<Rightarrow> Blake3Hash \<Rightarrow> u32 \<Rightarrow> u64 \<Rightarrow> HashInput \<times> Blake3Hash \<Rightarrow> bool"
where
  "pom_solves blake3 memory pom prev d t s \<longleftrightarrow>
     (\<forall>m. length (blake3 m) = 32) \<and> unat d \<le> 256 \<and>
     pom_solve_hash blake3 (gen_hashes blake3 memory pom) prev d = Inr s"

definition pom_meets :: "(byte list \<Rightarrow> Blake3Hash) \<Rightarrow> Blake3Hash \<Rightarrow> u32 \<Rightarrow> Blake3Hash \<Rightarrow> bool" where
  "pom_meets blake3 prev d h \<longleftrightarrow> check_prefix h (blake3 prev) d = Inr True"

lemma pom_solve_cases:
  assumes "\<And>m. length (blake3 m) = 32" "unat d \<le> 256"
  obtains (none) "pom_solve_hash blake3 (gen_hashes blake3 memory pom) prev d = Inr (zero_HashInput, zero_hash)"
  | (found) h where "pom_solve_hash blake3 (gen_hashes blake3 memory pom) prev d = Inr (pom_input pom 69, h)"
      "h \<in> set (pom_table blake3 memory pom)" "pom_meets blake3 prev d h"
proof -
  let ?hs = "sort (pom_table blake3 memory pom)"
  have len: "\<forall>h\<in>set ?hs. length h = 32" using assms(1) by (auto simp: pom_table_def)
  obtain m where m: "prefix_binary_search ?hs (blake3 prev) d = Inr m"
    "m = - 1 \<or> 0 \<le> m \<and> m \<le> int (length ?hs) - 1 \<and> check_prefix (?hs ! nat m) (blake3 prev) d = Inr True"
    using search_loop_sound [of 0 "int (length ?hs) - 1" ?hs "blake3 prev" d] len assms
    by (auto simp: prefix_binary_search_def)
  show thesis
  proof (cases "m = - 1")
    case False
    then have "?hs ! nat m \<in> set ?hs" using m(2) by (intro nth_mem) linarith
    then show ?thesis using m False
      by (intro found [of "?hs ! nat m"]) (auto simp: pom_solve_hash_def Let_def pom_meets_def)
  qed (use m none in \<open>simp add: pom_solve_hash_def Let_def\<close>)
qed

interpretation pom: consensus_solver "pom_solves blake3 memory pom" "pom_meets blake3" for blake3 memory pom
proof unfold_locales
  fix prev d t inp h
  assume s: "pom_solves blake3 memory pom prev d t (inp, h)" and nn: "\<not> is_null_hash h"
  show "pom_meets blake3 prev d h"
    by (rule pom_solve_cases [of blake3 d memory pom prev])
      (use s nn in \<open>auto simp: pom_solves_def is_null_hash_iff_zeros\<close>)
qed

section \<open>A small table\<close>

text \<open>
  A hash function that keeps the lowest byte of the nonce, a table of two hashes, and a block whose
  hash is found in it; the runs below are computed on them.
\<close>

definition nonce_byte_hash :: "byte list \<Rightarrow> Blake3Hash" where
  "nonce_byte_hash m = (m ! (length m - 8)) # zeros 31"

definition small_pom :: ProofOfMemory where
  "small_pom = new_ProofOfMemory \<lparr>priv_key = zero_key, pub_key = zero_key\<rparr> (zeros 16)"

definition small_prev :: Blake3Hash where
  "small_prev = zeros 24 @ 1 # zeros 7"

lemma nonce_byte_hash_input: "nonce_byte_hash (HashInput_bytes (pom_input small_pom n)) = ucast n # zeros 31"
  by (simp add: nonce_byte_hash_def HashInput_bytes_def pom_input_def small_pom_def new_ProofOfMemory_def
      nth_append nth_le_bytes)

lemma nonce_byte_hash_prev: "nonce_byte_hash small_prev = 1 # zeros 31"
  by (simp add: nonce_byte_hash_def small_prev_def nth_append)

lemma small_check: "check_prefix (b # zeros 31) (1 # zeros 31) 8 = Inr (b = 1)"
  by (subst check_prefix_bytes [where k = 1]) simp_all

lemma small_solve:
  "pom_solve_hash nonce_byte_hash (gen_hashes nonce_byte_hash 64 small_pom) small_prev 8 =
     Inr (pom_input small_pom 69, 1 # zeros 31)"
proof -
  have "[0..<2] = [0, Suc 0]" by (simp add: upt_rec)
  then have "pom_table nonce_byte_hash 64 small_pom = [0 # zeros 31, 1 # zeros 31]"
    by (simp add: pom_table_def nonce_byte_hash_input)
  then have table: "sort (pom_table nonce_byte_hash 64 small_pom) = [0 # zeros 31, 1 # zeros 31]"
    "length (pom_table nonce_byte_hash 64 small_pom) = 2"
    by (simp_all add: Cons_less_Cons)
  have "search_loop [0 # zeros 31, 1 # zeros 31] (1 # zeros 31) 8 0 1 = Inr 1"
    by (subst search_loop.simps, simp add: small_check Cons_less_Cons, subst search_loop.simps,
        simp add: small_check)
  then show ?thesis
    by (simp add: Let_def pom_solve_hash_def prefix_binary_search_def nonce_byte_hash_prev table)
qed

section \<open>Properties\<close>

text \<open>
  The binary search never reads outside the table and never returns a wrong index: for 32-byte
  hashes and a difficulty of at most 256 it returns -1 or the index of a hash that passes the prefix
  test.
\<close>

lemma binary_search_sound:
  assumes "\<forall>h\<in>set hashes. length h = 32" "length target = 32" "unat d \<le> 256"
  shows "\<exists>m. prefix_binary_search hashes target d = Inr m \<and>
    (m = - 1 \<or> 0 \<le> m \<and> m < int (length hashes) \<and> check_prefix (hashes ! nat m) target d = Inr True)"
  using search_loop_sound [of 0 "int (length hashes) - 1" hashes target d] assms
  by (fastforce simp: prefix_binary_search_def)

lemma binary_search_sound_witness:
  "\<exists>m. prefix_binary_search [zeros 32] (zeros 32) 20 = Inr m \<and>
    (m = - 1 \<or> 0 \<le> m \<and> m < 1 \<and> check_prefix ([zeros 32] ! nat m) (zeros 32) 20 = Inr True)"
  using binary_search_sound [of "[zeros 32]" "zeros 32" 20] by simp

text \<open>
  C23. At a difficulty of whole bytes the search is complete: if some hash of a sorted table passes the
  prefix test, it returns the index of a hash of the table that passes it.
\<close>

theorem binary_search_complete_for_bytes:
  assumes "sorted hashes" "\<forall>h\<in>set hashes. length h = 32" "length target = 32" "unat d = 8 * k" "k \<le> 32"
    and "h \<in> set hashes" "check_prefix h target d = Inr True"
  shows "\<exists>m. prefix_binary_search hashes target d = Inr m \<and> 0 \<le> m \<and> m < int (length hashes) \<and>
    check_prefix (hashes ! nat m) target d = Inr True"
proof -
  obtain i where i: "i < length hashes" "hashes ! i = h" using assms(6) by (auto simp: in_set_conv_nth)
  have "take k (hashes ! i) = take k target"
    using check_prefix_bytes [of h target d k] assms i by simp
  then have "prefix_binary_search hashes target d \<noteq> Inr (- 1)"
    unfolding prefix_binary_search_def
    using i(1) assms by (intro search_loop_complete [where k = k and i = i]) auto
  then show ?thesis using binary_search_sound [of hashes target d] assms(2-5) by auto
qed

theorem binary_search_complete_for_bytes_witness:
  "prefix_binary_search [zeros 32, 1 # zeros 31] (1 # zeros 31) 8 \<in> {Inr 0, Inr 1}"
proof -
  have h: "check_prefix (1 # zeros 31) (1 # zeros 31) 8 = Inr True"
    by (subst check_prefix_bytes [where k = 1]) simp_all
  have s: "sorted [zeros 32, 1 # zeros 31]" by (simp add: zeros_32 Cons_less_Cons)
  obtain m where "prefix_binary_search [zeros 32, 1 # zeros 31] (1 # zeros 31) 8 = Inr m" "0 \<le> m" "m < 2"
    using binary_search_complete_for_bytes [OF s _ _ _ _ _ h, of 1] by auto
  moreover have "m = 0 \<or> m = 1" using calculation(2,3) by linarith
  ultimately show ?thesis by auto
qed

text \<open>
  A hash with one byte that is not zero, and its first bits up to and into that byte, from the lowest up.
\<close>

definition byte_at :: "nat \<Rightarrow> byte \<Rightarrow> Blake3Hash" where
  "byte_at k x = zeros k @ x # zeros (31 - k)"

lemma length_byte_at: "k < 32 \<Longrightarrow> length (byte_at k x) = 32"
  by (simp add: byte_at_def)

lemma append_less_middle:
  fixes x y :: "'a :: linorder"
  shows "us @ x # vs < us @ y # vs \<longleftrightarrow> x < y"
  by (induction us) simp_all

lemma byte_at_less: "byte_at k x < byte_at k y \<longleftrightarrow> x < y"
  by (simp add: byte_at_def append_less_middle)

lemma take_bits_byte_at:
  assumes "q < 8"
  shows "take (8 * k + q) (bits_of (byte_at k x)) = bits_of (zeros k) @ take q (bits_of [x])"
proof -
  have "length (bits_of (zeros k)) = 8 * k" by simp
  then show ?thesis using assms by (simp add: byte_at_def bits_of_append bits_of_Cons_map)
qed

lemma check_byte_at:
  assumes "k < 32" "unat d = 8 * k + q" "q < 8"
  shows "check_prefix (byte_at k x) (byte_at k y) d = Inr (take q (bits_of [x]) = take q (bits_of [y]))"
  using assms by (simp add: check_prefix_eq length_byte_at take_bits_byte_at)

text \<open>
  C24. At every other difficulty, in particular at 20, the smallest one the metronome asks for, the search is
  not complete, because the table is sorted by bytes from the highest bit down while the test reads the bits
  of a byte from the lowest up: there are a sorted table of hashes and a target such that a hash of the
  table passes the test and the search reports no solution.
\<close>

theorem binary_search_misses_solution:
  assumes "unat d < 256" "unat d mod 8 \<noteq> 0"
  shows "\<exists>hashes target h. sorted hashes \<and> (\<forall>g\<in>set hashes. length g = 32) \<and> length target = 32 \<and>
    h \<in> set hashes \<and> check_prefix h target d = Inr True \<and> prefix_binary_search hashes target d = Inr (- 1)"
proof -
  define k q where "k = unat d div 8" and "q = unat d mod 8"
  have kq: "k < 32" "unat d = 8 * k + q" "0 < q" "q < 8" using assms by (simp_all add: k_def q_def)
  let ?t = "byte_at k 0" and ?hs = "[byte_at k 1, byte_at k 3, byte_at k 128]"
  have q: "q \<in> {1, 2, 3, 4, 5, 6, 7}" using kq(3,4) by auto
  have c: "check_prefix (byte_at k 128) ?t d = Inr True" "check_prefix (byte_at k 3) ?t d = Inr False"
    "check_prefix (byte_at k 1) ?t d = Inr False"
    using q by (auto simp: check_byte_at [OF kq(1,2,4)] bits_of_Cons)
  have "search_loop ?hs ?t d 0 2 = Inr (- 1)"
    by (subst search_loop.simps, simp add: c byte_at_less, subst search_loop.simps, simp add: c byte_at_less,
        subst search_loop.simps, simp)
  then have miss: "prefix_binary_search ?hs ?t d = Inr (- 1)" by (simp add: prefix_binary_search_def)
  have "sorted ?hs" by (simp add: byte_at_less le_less)
  then show ?thesis
    using c(1) miss kq(1) by (intro exI [of _ ?hs] exI [of _ ?t] exI [of _ "byte_at k 128"]) (simp add: length_byte_at)
qed

theorem binary_search_misses_solution_witness:
  "\<exists>hashes target h. sorted hashes \<and> h \<in> set hashes \<and> check_prefix h target 20 = Inr True \<and>
     prefix_binary_search hashes target 20 = Inr (- 1)"
  using binary_search_misses_solution [of 20] by auto

text \<open>
  A solution that proof of memory reports is the null hash with the zero input, or the hash of one
  of the table's nonces that agrees with the hash of the previous block in the first \<open>d\<close> bits, and
  with that nonce in the input it passes \<open>verify_solution\<close>.
\<close>

lemma pom_solution_is_table_hash:
  assumes "\<And>m. length (blake3 m) = 32" "unat d \<le> 256"
    and "pom_solve_hash blake3 (gen_hashes blake3 memory pom) prev d = Inr (inp, h)"
  shows "inp = zero_HashInput \<and> h = zero_hash \<or>
    (\<exists>i. i < unat memory div 32 \<and> h = blake3 (HashInput_bytes (pom_input pom (of_nat i))) \<and>
       check_prefix h (blake3 prev) d = Inr True \<and>
       pom_verify_solution blake3 (pom_input pom (of_nat i)) h prev d = Inr True)"
  by (rule pom_solve_cases [of blake3 d, OF assms(1,2), where memory = memory and pom = pom and prev = prev])
    (use assms(3) in \<open>auto simp: pom_meets_def pom_table_def pom_verify_solution_def Let_def\<close>)

lemma pom_solution_is_table_hash_witness:
  "\<exists>i. i < unat (64 :: u32) div 32 \<and> 1 # zeros 31 = nonce_byte_hash (HashInput_bytes (pom_input small_pom (of_nat i))) \<and>
     check_prefix (1 # zeros 31) (nonce_byte_hash small_prev) 8 = Inr True"
proof -
  have "1 # zeros 31 \<noteq> zero_hash" by (simp add: zeros_32)
  then show ?thesis
    using pom_solution_is_table_hash [of nonce_byte_hash 8 64 small_pom small_prev
        "pom_input small_pom 69" "1 # zeros 31"] small_solve
    by (auto simp: nonce_byte_hash_def)
qed

text \<open>
  The table has one hash per 32 bytes of memory, fewer than 2 to the 27, so every index fits the
  \<open>int\<close> of the search; it is sorted and is a rearrangement of the hashes of the nonces from 0.
\<close>

lemma gen_hashes_table:
  "let t = pom_hashes (gen_hashes blake3 memory pom) in
     sorted t \<and> length t = unat memory div 32 \<and> length t < 2 ^ 27 \<and>
     mset t = mset (map (\<lambda>i. blake3 (HashInput_bytes (pom_input pom (of_nat i)))) [0..<unat memory div 32])"
  using length_pom_table [of blake3 memory pom] by (simp add: pom_table_def Let_def)

text \<open>
  The input that proof of memory reports carries the fixed nonce 69 instead of the nonce of the
  hash it found, so its own verification can reject it: with a hash function that looks at one byte of
  the nonce, a found solution fails \<open>verify_solution\<close>.
\<close>

lemma pom_reported_input_rejected:
  "\<exists>h. pom_solve_hash nonce_byte_hash (gen_hashes nonce_byte_hash 64 small_pom) small_prev 8 =
         Inr (pom_input small_pom 69, h) \<and> \<not> is_null_hash h \<and>
       pom_verify_solution nonce_byte_hash (pom_input small_pom 69) h small_prev 8 = Inr False"
proof -
  have "\<not> is_null_hash (1 # zeros 31)"
    by (simp add: is_null_hash_iff_zeros) (simp add: zeros_32)
  then show ?thesis
    by (simp add: small_solve pom_verify_solution_def nonce_byte_hash_input nonce_byte_hash_prev small_check)
qed

end
