(* ===== verification/Validator.thy ===== *)
theory Validator
  imports Client ProofOfMemory
begin

text \<open>
  The validator of src/validator.cpp and the set-up that \<open>run_validator\<close> of src/dsc.cpp gives it. It polls the
  blockchain node for a new header, asks the metronome for the difficulty, searches a solution, pops
  transactions from the pool and submits the block to the metronome. The search is the argument \<open>solve\<close> of
  a round: a consensus model with the clock and the random bytes it meets in that round.
\<close>

section \<open>State and requests\<close>

record validator =
  val_blockchain :: string
  val_metronome :: string
  val_tx_pool :: string
  val_wallet :: Wallet

text \<open>The constructor; the consensus model is kept apart, since a round takes its search as an argument.\<close>

definition new_Validator :: "string \<Rightarrow> string \<Rightarrow> string \<Rightarrow> Wallet \<Rightarrow> validator" where
  "new_Validator blockchain metronome tx_pool w =
     \<lparr>val_blockchain = blockchain, val_metronome = metronome, val_tx_pool = tx_pool, val_wallet = w\<rparr>"

definition register_with_metronome :: "alpaca \<Rightarrow> peers \<Rightarrow> validator \<Rightarrow> ('n, bool) action" where
  "register_with_metronome A peers v =
     and_then (round_trip A peers (\<lambda>_. ()) (val_metronome v) P_null REGISTER_VALIDATOR) (\<lambda>(hdr, _).
       return_value (msg_type hdr = STATUS_GOOD))"

definition request_difficulty :: "alpaca \<Rightarrow> peers \<Rightarrow> validator \<Rightarrow> ('n, u32) action" where
  "request_difficulty A peers v =
     and_then (round_trip A peers (de_uint32 A) (val_metronome v) P_null QUERY_DIFFICULTY) (\<lambda>(_, d). return_value d)"

definition request_txs :: "alpaca \<Rightarrow> peers \<Rightarrow> validator \<Rightarrow> ('n, Transaction list) action" where
  "request_txs A peers v =
     and_then (round_trip A peers (de_txs A) (val_tx_pool v) P_null POP_TX) (\<lambda>(_, txs). return_value txs)"

definition send_block :: "alpaca \<Rightarrow> peers \<Rightarrow> validator \<Rightarrow> Block \<Rightarrow> ('n, bool) action" where
  "send_block A peers v b =
     and_then (round_trip A peers (\<lambda>_. ()) (val_metronome v) (P_block b) SUBMIT_BLOCK) (\<lambda>(hdr, _).
       return_value (msg_type hdr = STATUS_GOOD))"

abbreviation UINT32_MAX :: u32 where "UINT32_MAX \<equiv> 4294967295"

text \<open>The loop of \<open>request_new_block_header\<close>; it may poll for ever.\<close>

partial_function (option) poll_header ::
  "alpaca \<Rightarrow> peers \<Rightarrow> validator \<Rightarrow> BlockHeader \<Rightarrow> 'n host \<Rightarrow> ('n host \<times> BlockHeader result) option" where
  "poll_header A peers v curr_block h =
     (case round_trip A peers (de_block_header A) (val_blockchain v) P_null QUERY_LAST_BLOCK h of
        (h', Inl e) \<Rightarrow> Some (h', Inl e)
      | (h', Inr (_, hdr)) \<Rightarrow>
          if hdr_id curr_block < hdr_id hdr \<or> hdr_id curr_block = UINT32_MAX then Some (h', Inr hdr)
          else poll_header A peers v curr_block h')"

section \<open>Blocks\<close>

text \<open>The block that \<open>create_block\<close> builds from the popped transactions; \<open>now1\<close> and \<open>now2\<close> are the two clock readings.\<close>

definition new_block ::
  "u64 \<Rightarrow> u64 \<Rightarrow> Wallet \<Rightarrow> BlockHeader \<Rightarrow> HashInput \<Rightarrow> Blake3Hash \<Rightarrow> u32 \<Rightarrow> Transaction list \<Rightarrow> Block" where
  "new_block now1 now2 w prev_block inp solution d txs =
     \<lparr>header = \<lparr>input = inp, hash = solution, prev_hash = hash prev_block, difficulty = d, timestamp = now2,
                hdr_id = hdr_id prev_block + 1\<rparr>,
      transactions = txs @ [create_reward_transaction now1 w]\<rparr>"

definition create_block ::
  "alpaca \<Rightarrow> peers \<Rightarrow> u64 \<Rightarrow> u64 \<Rightarrow> validator \<Rightarrow> BlockHeader \<Rightarrow> HashInput \<Rightarrow> Blake3Hash \<Rightarrow> u32 \<Rightarrow> ('n, Block) action" where
  "create_block A peers now1 now2 v prev_block inp solution d =
     and_then (request_txs A peers v) (\<lambda>txs.
       return_value (new_block now1 now2 (val_wallet v) prev_block inp solution d txs))"

section \<open>The main loop\<close>

type_synonym solver = "Blake3Hash \<Rightarrow> u32 \<Rightarrow> u64 \<Rightarrow> (HashInput \<times> Blake3Hash) result"

text \<open>The rest of a round once the header is known: \<open>None\<close> when no solution was found in time.\<close>

definition mine_on ::
  "alpaca \<Rightarrow> peers \<Rightarrow> validator \<Rightarrow> solver \<Rightarrow> u64 \<Rightarrow> u64 \<Rightarrow> BlockHeader \<Rightarrow> ('n, (Block \<times> bool) option) action" where
  "mine_on A peers v solve now1 now2 curr_block =
     and_then (request_difficulty A peers v) (\<lambda>d.
     and_then (of_result (solve (hash curr_block) d (timestamp curr_block + of_nat (BLOCK_TIME * 1000000)))) (\<lambda>(inp, solution).
       if is_null_hash solution then return_value None
       else and_then (create_block A peers now1 now2 v curr_block inp solution d) (\<lambda>block.
            and_then (send_block A peers v block) (\<lambda>good. return_value (Some (block, good))))))"

text \<open>
  Rounds of the loop of \<open>start\<close>, one per element of the list of solvers and clock readings; the value is the
  headers mined on. \<open>None\<close> when polling does not end.
\<close>

fun validator_rounds ::
  "alpaca \<Rightarrow> peers \<Rightarrow> validator \<Rightarrow> BlockHeader \<Rightarrow> (solver \<times> u64 \<times> u64) list \<Rightarrow> 'n host
     \<Rightarrow> ('n host \<times> BlockHeader list result) option" where
  "validator_rounds A peers v curr_block [] h = Some (h, Inr [])"
| "validator_rounds A peers v curr_block ((solve, now1, now2) # rs) h =
     (case poll_header A peers v curr_block h of
        None \<Rightarrow> None
      | Some (h1, Inl e) \<Rightarrow> Some (h1, Inl e)
      | Some (h1, Inr hdr) \<Rightarrow>
          (case mine_on A peers v solve now1 now2 hdr h1 of
             (h2, Inl e) \<Rightarrow> Some (h2, Inl e)
           | (h2, Inr _) \<Rightarrow>
               (case validator_rounds A peers v hdr rs h2 of
                  None \<Rightarrow> None
                | Some (h3, r) \<Rightarrow> Some (h3, bind_result r (\<lambda>hs. Inr (hdr # hs))))))"

text \<open>\<open>start\<close> begins with a header of which only the id is set.\<close>

definition validator_start ::
  "alpaca \<Rightarrow> peers \<Rightarrow> validator \<Rightarrow> BlockHeader \<Rightarrow> (solver \<times> u64 \<times> u64) list \<Rightarrow> 'n host
     \<Rightarrow> ('n host \<times> BlockHeader list result) option" where
  "validator_start A peers v junk rs h =
     (case register_with_metronome A peers v h of
        (h1, Inl e) \<Rightarrow> Some (h1, Inl e)
      | (h1, Inr _) \<Rightarrow> validator_rounds A peers v (junk\<lparr>hdr_id := UINT32_MAX\<rparr>) rs h1)"

section \<open>Set-up (dsc.cpp)\<close>

datatype consensus_model = Proof_of_work | Proof_of_memory ProofOfMemory

text \<open>
  \<open>run_validator\<close> until it starts the validator: \<open>None\<close> for an unknown method. The log lines of the table
  generation are left out. The fingerprint is written to,
  and the memory read from, the file named by \<open>args[1]\<close>, which is the key file.
\<close>

definition run_validator ::
  "'n yaml \<Rightarrow> (byte list \<Rightarrow> Blake3Hash) \<Rightarrow> UUID \<Rightarrow> string list \<Rightarrow> ('n, (validator \<times> consensus_model) option) action" where
  "run_validator Y blake3 uuid args =
     and_then (prints (line ''Starting validator.'')) (\<lambda>_.
     and_then (of_result (arg args 0)) (\<lambda>config_file.
     and_then (of_result (arg args 1)) (\<lambda>key_file.
     and_then (reads (get_validator_address Y config_file)) (\<lambda>_.
     and_then (reads (get_blockchain_address Y config_file)) (\<lambda>bc_address.
     and_then (reads (get_metronome_address Y config_file)) (\<lambda>met_address.
     and_then (reads (get_tx_pool_address Y config_file)) (\<lambda>pool_address.
     and_then (reads (get_consensus_method Y config_file)) (\<lambda>consensus_type.
     and_then (reads (load_wallet Y config_file key_file)) (\<lambda>w.
     let v = new_Validator bc_address met_address pool_address w in
     if consensus_type = ''pow'' then return_value (Some (v, Proof_of_work))
     else if consensus_type = ''pom'' then
       and_then (writes (\<lambda>fs. bind_result (set_validator_fingerprint Y uuid key_file fs) (\<lambda>fs'. Inr ((), fs')))) (\<lambda>_.
       and_then (reads (get_validator_memory Y key_file)) (\<lambda>memory.
         return_value (Some (v, Proof_of_memory (gen_hashes blake3 memory (new_ProofOfMemory w uuid))))))
     else and_then (prints (line ''Unknown consensus method.'')) (\<lambda>_. return_value None))))))))))"

section \<open>Polling and rounds\<close>

text \<open>The reply to the \<open>k\<close>-th further query of the last block.\<close>

definition polled :: "alpaca \<Rightarrow> validator \<Rightarrow> wire \<Rightarrow> nat \<Rightarrow> wire" where
  "polled A v w k = w @ replicate k (val_blockchain v, send_message A P_null QUERY_LAST_BLOCK)"

lemma polled_simps [simp]:
  "polled A v w 0 = w" "polled A v w k @ [(val_blockchain v, send_message A P_null QUERY_LAST_BLOCK)] = polled A v w (Suc k)"
  by (simp_all add: polled_def replicate_append_same)

definition newer :: "BlockHeader \<Rightarrow> BlockHeader \<Rightarrow> bool" where
  "newer cur hdr \<longleftrightarrow> hdr_id cur < hdr_id hdr \<or> hdr_id cur = UINT32_MAX"

lemma poll_header_step:
  assumes "length (peers (polled A v (host_wire h) 1)) = 2"
  shows "poll_header A peers v cur h =
    (let hdr = de_block_header A (peers (polled A v (host_wire h) 1) ! 1); h' = h\<lparr>host_wire := polled A v (host_wire h) 1\<rparr>
     in if newer cur hdr then Some (h', Inr hdr) else poll_header A peers v cur h')"
  using assms by (subst poll_header.simps) (simp add: round_trip_def recv_payload_def polled_def newer_def Let_def)

text \<open>Polling ends with the first header that is newer.\<close>

lemma poll_header_first:
  assumes "\<And>i. 1 \<le> i \<Longrightarrow> i \<le> Suc k \<Longrightarrow> length (peers (polled A v (host_wire h) i)) = 2"
    and "\<And>i. 1 \<le> i \<Longrightarrow> i \<le> k \<Longrightarrow> \<not> newer cur (de_block_header A (peers (polled A v (host_wire h) i) ! 1))"
    and "newer cur (de_block_header A (peers (polled A v (host_wire h) (Suc k)) ! 1))"
  shows "poll_header A peers v cur h =
    Some (h\<lparr>host_wire := polled A v (host_wire h) (Suc k)\<rparr>, Inr (de_block_header A (peers (polled A v (host_wire h) (Suc k)) ! 1)))"
  using assms
proof (induction k arbitrary: h)
  case 0
  then show ?case using poll_header_step [of peers A v h cur] by simp
next
  case (Suc k)
  let ?h = "h\<lparr>host_wire := polled A v (host_wire h) 1\<rparr>"
  have pp: "polled A v (polled A v w 1) i = polled A v w (Suc i)" for w i by (simp add: polled_def)
  have "poll_header A peers v cur h = poll_header A peers v cur ?h"
    using poll_header_step [of peers A v h cur] Suc.prems(1,2) [of 1] by simp
  also have "\<dots> = Some (?h\<lparr>host_wire := polled A v (host_wire ?h) (Suc k)\<rparr>,
      Inr (de_block_header A (peers (polled A v (host_wire ?h) (Suc k)) ! 1)))"
  proof (rule Suc.IH)
    show "length (peers (polled A v (host_wire ?h) i)) = 2" if "1 \<le> i" "i \<le> Suc k" for i
      using Suc.prems(1) [of "Suc i"] that by (simp add: pp [simplified])
    show "\<not> newer cur (de_block_header A (peers (polled A v (host_wire ?h) i) ! 1))" if "1 \<le> i" "i \<le> k" for i
      using Suc.prems(2) [of "Suc i"] that by (simp add: pp [simplified])
    show "newer cur (de_block_header A (peers (polled A v (host_wire ?h) (Suc k)) ! 1))"
      using Suc.prems(3) by (simp add: pp [simplified])
  qed
  finally show ?case by (simp add: pp [simplified])
qed

text \<open>What polling returns is newer.\<close>

lemma poll_header_newer:
  assumes "poll_header A peers v cur h = Some (h', Inr hdr)"
  shows "newer cur hdr"
proof -
  let ?P = "\<lambda>A peers v cur (h :: 'a host) (r :: 'a host \<times> BlockHeader result). \<forall>h' hdr. r = (h', Inr hdr) \<longrightarrow> newer cur hdr"
  have "?P A peers v cur h (h', Inr hdr)"
    by (rule poll_header.raw_induct [where P = ?P, OF _ assms])
      (fastforce simp: newer_def split: prod.splits sum.splits if_splits)
  then show ?thesis by blast
qed

lemma mine_on_block:
  assumes "mine_on A peers v solve now1 now2 cur h = (h', Inr (Some (b, good)))"
  obtains d inp sol txs h1 where "request_difficulty A peers v h = (h1, Inr d)"
    "solve (hash cur) d (timestamp cur + of_nat (BLOCK_TIME * 1000000)) = Inr (inp, sol)"
    "\<not> is_null_hash sol" "snd (request_txs A peers v h1) = Inr txs"
    "b = new_block now1 now2 (val_wallet v) cur inp sol d txs"
proof -
  obtain h1 d where 1: "request_difficulty A peers v h = (h1, Inr d)"
    using assms by (auto simp: mine_on_def and_then_def simp del: of_nat_mult split: prod.splits sum.splits)
  obtain inp sol where 2: "solve (hash cur) d (timestamp cur + of_nat (BLOCK_TIME * 1000000)) = Inr (inp, sol)"
    using assms by (auto simp: mine_on_def and_then_def 1 simp del: of_nat_mult split: sum.splits)
  have nn: "\<not> is_null_hash sol" using assms by (auto simp: mine_on_def and_then_def 1 2 simp del: of_nat_mult)
  obtain h2 txs where 3: "request_txs A peers v h1 = (h2, Inr txs)"
    using assms nn by (auto simp: mine_on_def and_then_def 1 2 create_block_def simp del: of_nat_mult split: prod.splits sum.splits)
  have "b = new_block now1 now2 (val_wallet v) cur inp sol d txs"
    using assms nn by (auto simp: mine_on_def and_then_def 1 2 3 create_block_def simp del: of_nat_mult split: prod.splits sum.splits)
  then show thesis using that 1 2 3 nn by simp
qed

end
