(* ===== verification/ProofOfWork.thy ===== *)
theory ProofOfWork
  imports Consensus
begin

text \<open>
  Proof of work, src/pow.hpp and src/pow.cpp. The hash function (the vendored BLAKE3 library under
  external/, called through init, update and finalize; Blake3_Properties models it) is the argument \<open>blake3\<close>; the successive
  results of \<open>get_timestamp()\<close> are a sequence \<open>clock\<close>, of which the search reads one element for
  \<open>start\<close> and one per test of the loop condition; the bytes \<open>rand() % 256\<close> yields are \<open>rnd\<close>.
\<close>

section \<open>The search\<close>

text \<open>\<open>input[i] = base[i] + nonce_buf[i]\<close> for the first eight bytes, in 8-bit arithmetic.\<close>

definition set_nonce :: "byte list \<Rightarrow> u64 \<Rightarrow> byte list \<Rightarrow> byte list" where
  "set_nonce base n inp = map2 (+) (take 8 base) (le_bytes 8 n) @ drop 8 inp"

partial_function (option) solve_loop ::
  "(byte list \<Rightarrow> Blake3Hash) \<Rightarrow> (nat \<Rightarrow> u64) \<Rightarrow> Blake3Hash \<Rightarrow> u32 \<Rightarrow> u64 \<Rightarrow> byte list
     \<Rightarrow> byte list \<Rightarrow> u64 \<Rightarrow> nat \<Rightarrow> (HashInput \<times> Blake3Hash) result option" where
  "solve_loop blake3 clock prev d end_time base inp n k =
     (if clock k < end_time
      then let inp = set_nonce base n inp;
               accepted = check_leading_zeros (blake3 (prev @ inp)) d
           in if accepted = Inr False
              then solve_loop blake3 clock prev d end_time base inp (n + 1) (Suc k)
              else Some (bind_result accepted (\<lambda>_. Inr (zero_HashInput, inp)))
      else Some (Inr (zero_HashInput, zero_hash)))"

definition pow_solve_hash ::
  "(byte list \<Rightarrow> Blake3Hash) \<Rightarrow> (nat \<Rightarrow> u64) \<Rightarrow> byte list \<Rightarrow> Blake3Hash \<Rightarrow> u32 \<Rightarrow> u64
     \<Rightarrow> (HashInput \<times> Blake3Hash) result option" where
  "pow_solve_hash blake3 clock rnd prev d end_time =
     solve_loop blake3 clock prev d end_time rnd rnd 0 1"

definition pow_verify_solution ::
  "(byte list \<Rightarrow> Blake3Hash) \<Rightarrow> HashInput \<Rightarrow> Blake3Hash \<Rightarrow> Blake3Hash \<Rightarrow> u32 \<Rightarrow> bool result" where
  "pow_verify_solution blake3 inp h prev d = check_leading_zeros (blake3 (prev @ h)) d"

section \<open>The attempts\<close>

text \<open>The candidate of attempt \<open>n\<close>, and whether the test accepts it.\<close>

definition attempt :: "byte list \<Rightarrow> u64 \<Rightarrow> byte list" where
  "attempt base n = set_nonce base n base"

definition attempt_result :: "(byte list \<Rightarrow> Blake3Hash) \<Rightarrow> Blake3Hash \<Rightarrow> u32 \<Rightarrow> byte list \<Rightarrow> u64 \<Rightarrow> bool result" where
  "attempt_result blake3 prev d base n = check_leading_zeros (blake3 (prev @ attempt base n)) d"

lemma length_attempt [simp, length_facts]: "8 \<le> length base \<Longrightarrow> length (attempt base n) = length base"
  by (simp add: attempt_def set_nonce_def)

lemma set_nonce_again: "drop 8 inp = drop 8 base \<Longrightarrow> set_nonce base n inp = attempt base n"
  by (simp add: set_nonce_def attempt_def)

lemma drop_attempt: "8 \<le> length base \<Longrightarrow> drop 8 (attempt base n) = drop 8 base"
  by (simp add: set_nonce_def attempt_def)

lemma attempt_inj:
  assumes "8 \<le> length base" "attempt base m = attempt base n"
  shows "m = n"
proof -
  have "map2 (+) (take 8 base) (le_bytes 8 m) = map2 (+) (take 8 base) (le_bytes 8 n)"
    using assms by (simp add: attempt_def set_nonce_def)
  then have "le_bytes 8 m = le_bytes 8 n"
    using assms(1) by (auto simp: list_eq_iff_nth_eq)
  then show ?thesis by (rule le_bytes_inj [rotated]) simp
qed

text \<open>One step of the search, once the bytes behind the nonce are those of the base.\<close>

lemma solve_loop_step:
  assumes "drop 8 inp = drop 8 base"
  shows "solve_loop blake3 clock prev d t base inp n k =
    (if clock k < t
     then case attempt_result blake3 prev d base n of
            Inl e \<Rightarrow> Some (Inl e)
          | Inr b \<Rightarrow> if b then Some (Inr (zero_HashInput, attempt base n))
                    else solve_loop blake3 clock prev d t base (attempt base n) (n + 1) (Suc k)
     else Some (Inr (zero_HashInput, zero_hash)))"
  by (subst solve_loop.simps)
    (auto simp: Let_def set_nonce_again [OF assms] attempt_result_def split: sum.split)

lemma solve_loop_sound:
  assumes "solve_loop blake3 clock prev d t base inp n k = Some (Inr (hi, h))"
    and "drop 8 inp = drop 8 base" "8 \<le> length base"
  shows "hi = zero_HashInput \<and>
    (h = zero_hash \<or> (\<exists>m. h = attempt base m \<and> attempt_result blake3 prev d base m = Inr True))"
proof -
  let ?P = "\<lambda>blake3 (clock :: nat \<Rightarrow> u64) prev d (t :: u64) base inp (n :: u64) (k :: nat)
      (r :: (HashInput \<times> Blake3Hash) result). \<forall>hi h. r = Inr (hi, h) \<longrightarrow>
    drop 8 inp = drop 8 base \<longrightarrow> 8 \<le> length base \<longrightarrow> hi = zero_HashInput \<and>
    (h = zero_hash \<or> (\<exists>m. h = attempt base m \<and> attempt_result blake3 prev d base m = Inr True))"
  have "?P blake3 clock prev d t base inp n k (Inr (hi, h))"
  proof (rule solve_loop.raw_induct [where P = ?P, OF _ assms(1)])
    fix sl blake3 clock prev d t base inp n k r
    assume IH: "\<And>blake3 clock prev d t base inp n k r. sl blake3 clock prev d t base inp n k = Some r \<Longrightarrow>
        ?P blake3 clock prev d t base inp n k r"
      and step: "(if clock k < t
        then let inp = set_nonce base n inp; accepted = check_leading_zeros (blake3 (prev @ inp)) d
             in if accepted = Inr False then sl blake3 clock prev d t base inp (n + 1) (Suc k)
                else Some (bind_result accepted (\<lambda>_. Inr (zero_HashInput, inp)))
        else Some (Inr (zero_HashInput, zero_hash))) = Some r"
    show "?P blake3 clock prev d t base inp n k r"
    proof (intro allI impI)
      fix hi h assume r: "r = Inr (hi, h)" and inp: "drop 8 inp = drop 8 base" "8 \<le> length base"
      have att: "set_nonce base n inp = attempt base n" "drop 8 (attempt base n) = drop 8 base"
        using inp by (simp_all add: set_nonce_again drop_attempt)
      show "hi = zero_HashInput \<and>
        (h = zero_hash \<or> (\<exists>m. h = attempt base m \<and> attempt_result blake3 prev d base m = Inr True))"
        using step IH [of blake3 clock prev d t base "attempt base n" "n + 1" "Suc k" r] inp(2) att
        unfolding r att(1)
        by (auto simp: Let_def attempt_result_def bind_result_eq_Inr split: if_splits)
    qed
  qed
  then show ?thesis using assms(2,3) by blast
qed

text \<open>The search returns as soon as the clock shows the end time.\<close>

lemma solve_loop_returns:
  "t \<le> clock (k + j) \<Longrightarrow> drop 8 inp = drop 8 base \<Longrightarrow> 8 \<le> length base \<Longrightarrow>
     \<exists>r. solve_loop blake3 clock prev d t base inp n k = Some r"
proof (induction j arbitrary: inp n k)
  case 0
  then show ?case by (auto simp: solve_loop_step dest: leD)
next
  case (Suc j)
  have "\<exists>r. solve_loop blake3 clock prev d t base (attempt base n) (n + 1) (Suc k) = Some r"
    by (rule Suc.IH) (use Suc.prems in \<open>simp_all add: drop_attempt\<close>)
  then show ?case
    by (auto simp: solve_loop_step [OF Suc.prems(2)] split: sum.split)
qed

lemma solve_loop_first:
  assumes "\<And>i. i < m \<Longrightarrow> attempt_result blake3 prev d base (n + of_nat i) = Inr False"
    and "\<And>i. i \<le> m \<Longrightarrow> clock (k + i) < t"
    and "attempt_result blake3 prev d base (n + of_nat m) = Inr True"
    and "drop 8 inp = drop 8 base" "8 \<le> length base"
  shows "solve_loop blake3 clock prev d t base inp n k =
    Some (Inr (zero_HashInput, attempt base (n + of_nat m)))"
  using assms
proof (induction m arbitrary: inp n k)
  case 0
  then show ?case using "0.prems"(2) [of 0] by (simp add: solve_loop_step)
next
  case (Suc m)
  have *: "n + of_nat (Suc i) = (n + 1) + of_nat i" for i by simp
  have "solve_loop blake3 clock prev d t base (attempt base n) (n + 1) (Suc k) =
      Some (Inr (zero_HashInput, attempt base ((n + 1) + of_nat m)))"
  proof (rule Suc.IH)
    show "attempt_result blake3 prev d base (n + 1 + of_nat i) = Inr False" if "i < m" for i
      using Suc.prems(1) [of "Suc i"] that by (simp only: * Suc_less_eq)
    show "clock (Suc k + i) < t" if "i \<le> m" for i
      using Suc.prems(2) [of "Suc i"] that by simp
    show "attempt_result blake3 prev d base (n + 1 + of_nat m) = Inr True"
      using Suc.prems(3) by (simp only: *)
  qed (use Suc.prems in \<open>simp_all add: drop_attempt\<close>)
  moreover have "attempt_result blake3 prev d base n = Inr False" "clock k < t"
    using Suc.prems(1) [of 0] Suc.prems(2) [of 0] by simp_all
  ultimately show ?case by (simp only: solve_loop_step [OF Suc.prems(4)] *) simp
qed

section \<open>Proof of work as a consensus model\<close>

text \<open>Every random start and every clock is possible.\<close>

definition pow_solves ::
  "(byte list \<Rightarrow> Blake3Hash) \<Rightarrow> Blake3Hash \<Rightarrow> u32 \<Rightarrow> u64 \<Rightarrow> HashInput \<times> Blake3Hash \<Rightarrow> bool" where
  "pow_solves blake3 prev d t s \<longleftrightarrow>
     (\<exists>clock rnd. length rnd = 32 \<and> pow_solve_hash blake3 clock rnd prev d t = Some (Inr s))"

definition pow_meets :: "(byte list \<Rightarrow> Blake3Hash) \<Rightarrow> Blake3Hash \<Rightarrow> u32 \<Rightarrow> Blake3Hash \<Rightarrow> bool" where
  "pow_meets blake3 prev d h \<longleftrightarrow> check_leading_zeros (blake3 (prev @ h)) d = Inr True"

lemma null_zero_hash [simp]: "is_null_hash zero_hash"
  by (simp add: is_null_hash_iff_zeros)

interpretation pow: verifying_consensus "pow_solves blake3" "pow_meets blake3" "pow_verify_solution blake3"
  for blake3
proof unfold_locales
  fix prev d t inp h
  assume "pow_solves blake3 prev d t (inp, h)" and nn: "\<not> is_null_hash h"
  then obtain clock rnd where "length rnd = 32"
    "solve_loop blake3 clock prev d t rnd rnd 0 1 = Some (Inr (inp, h))"
    by (auto simp: pow_solves_def pow_solve_hash_def)
  from solve_loop_sound [OF this(2)] this(1) nn show "pow_meets blake3 prev d h"
    by (auto simp: pow_meets_def attempt_result_def)
qed (simp add: pow_verify_solution_def pow_meets_def)

section \<open>Properties\<close>

text \<open>
  C21. Every solution that proof of work reports, the null hash apart, passes its own verification
  against the same previous hash and difficulty.
\<close>

theorem pow_solution_verifies:
  assumes "length rnd = 32" "pow_solve_hash blake3 clock rnd prev d t = Some (Inr (inp, h))"
    and "\<not> is_null_hash h"
  shows "pow_verify_solution blake3 inp h prev d = Inr True"
  using assms by (intro pow.solution_verified [of blake3 prev d t]) (auto simp: pow_solves_def)

lemma check_zeros_20: "check_leading_zeros (zeros 32) 20 = Inr True"
  by (simp add: check_leading_zeros_prefix check_prefix_eq)

theorem pow_solution_verifies_witness:
  "pow_verify_solution (\<lambda>_. zeros 32) zero_HashInput (attempt (replicate 32 1) 0) (zeros 32) 20 = Inr True"
proof -
  have "pow_solve_hash (\<lambda>_. zeros 32) (\<lambda>_. 0) (replicate 32 1) (zeros 32) 20 1 =
      Some (Inr (zero_HashInput, attempt (replicate 32 1) 0))"
    unfolding pow_solve_hash_def
    using solve_loop_first [of 0 "\<lambda>_. zeros 32" "zeros 32" 20 "replicate 32 1" 0]
    by (simp add: attempt_result_def check_zeros_20)
  moreover have "\<not> is_null_hash (attempt (replicate 32 1) 0)"
    using drop_attempt [of "replicate 32 1" 0] by (auto simp: is_null_hash_iff_zeros zeros_def)
  ultimately show ?thesis by (intro pow_solution_verifies [of "replicate 32 1"]) simp_all
qed

text \<open>
  C22. The search ends: if the clock shows the end time at any later reading, \<open>solve_hash\<close> returns a
  hash or raises.
\<close>

theorem pow_search_returns:
  assumes "length rnd = 32" "t \<le> clock (Suc k)"
  shows "\<exists>r. pow_solve_hash blake3 clock rnd prev d t = Some r"
  unfolding pow_solve_hash_def
  using solve_loop_returns [of t clock 1 k rnd rnd] assms by simp

theorem pow_search_returns_witness:
  "\<exists>r. pow_solve_hash (\<lambda>m. m) (\<lambda>k. of_nat k) (zeros 32) (zeros 32) 20 6 = Some r"
  using pow_search_returns [of "zeros 32" 6 "\<lambda>k. of_nat k" 5] by simp

text \<open>
  The search returns the first nonce that works: if the test rejects the attempts before the
  \<open>m\<close>-th and accepts that one, and the clock is before the end time until then, the solution is the
  \<open>m\<close>-th attempt.
\<close>

lemma pow_returns_first_solution:
  assumes "length rnd = 32"
    and "\<And>i. i < m \<Longrightarrow> attempt_result blake3 prev d rnd (of_nat i) = Inr False"
    and "attempt_result blake3 prev d rnd (of_nat m) = Inr True"
    and "\<And>i. i \<le> m \<Longrightarrow> clock (Suc i) < t"
  shows "pow_solve_hash blake3 clock rnd prev d t = Some (Inr (zero_HashInput, attempt rnd (of_nat m)))"
  unfolding pow_solve_hash_def
  using solve_loop_first [of m blake3 prev d rnd 0 clock 1 t rnd] assms by simp

lemma pow_returns_first_solution_witness:
  "pow_solve_hash (\<lambda>_. zeros 32) (\<lambda>_. 0) (zeros 32) (zeros 32) 20 1 =
     Some (Inr (zero_HashInput, attempt (zeros 32) 0))"
proof -
  have "attempt_result (\<lambda>_. zeros 32) (zeros 32) 20 (zeros 32) (of_nat 0) = Inr True"
    by (simp add: attempt_result_def check_zeros_20)
  from pow_returns_first_solution [OF _ _ this, of "\<lambda>_. 0" 1] show ?thesis by simp
qed

text \<open>
  No two nonces give the same candidate: the 64-bit nonce is added to the random base byte by
  byte, so the search space has one candidate per nonce and the candidates differ from the base only
  in their first eight bytes.
\<close>

lemma pow_candidates_distinct:
  assumes "length base = 32"
  shows "(attempt base m = attempt base n \<longleftrightarrow> m = n) \<and> drop 8 (attempt base n) = drop 8 base \<and>
    length (attempt base n) = 32"
  using attempt_inj [of base m n] assms by (auto simp: drop_attempt)

lemma pow_candidates_distinct_witness: "attempt (zeros 32) 1 \<noteq> attempt (zeros 32) 2"
  using pow_candidates_distinct [of "zeros 32" 1 2] by simp

end
