(* ===== verification/Persistence.thy ===== *)
theory Persistence
  imports BlockChain_Properties
begin

text \<open>
  The chain file: what \<open>write_block\<close> stores of a block and what \<open>start\<close> reads back, and that a node
  restarted on the file of another node rebuilds the ledger of that node.
\<close>

section \<open>Reading what was written\<close>

lemma y_set_same:
  assumes "yaml_laws Y"
  shows "y_as_string Y (y_set Y n p (Y_str s)) p = Some s"
    and "y_as_uint32 Y (y_set Y n p (Y_uint i)) p = (if i < 2 ^ 32 then Some (of_nat i) else None)"
    and "y_as_uint64 Y (y_set Y n p (Y_uint i)) p = (if i < 2 ^ 64 then Some (of_nat i) else None)"
    and "list_all2 (item_of Y) ms (y_items Y (y_set Y n p (Y_maps ms)) p)"
  using assms by (simp_all add: yaml_laws_def)

lemma y_set_other:
  assumes "yaml_laws Y" "apart p q"
  shows "y_as_string Y (y_set Y n p v) q = y_as_string Y n q"
    and "y_as_uint32 Y (y_set Y n p v) q = y_as_uint32 Y n q"
    and "y_as_uint64 Y (y_set Y n p v) q = y_as_uint64 Y n q"
    and "y_items Y (y_set Y n p v) q = y_items Y n q"
proof -
  have "same_at Y q (y_set Y n p v) n" using assms unfolding yaml_laws_def by blast
  then show "y_as_string Y (y_set Y n p v) q = y_as_string Y n q"
    and "y_as_uint32 Y (y_set Y n p v) q = y_as_uint32 Y n q"
    and "y_as_uint64 Y (y_set Y n p v) q = y_as_uint64 Y n q"
    and "y_items Y (y_set Y n p v) q = y_items Y n q"
    by (simp_all add: same_at_def)
qed

lemma y_reload_same:
  assumes "yaml_laws Y"
  shows "y_as_string Y (y_reload Y n) p = y_as_string Y n p" "y_as_uint32 Y (y_reload Y n) p = y_as_uint32 Y n p"
    "y_as_uint64 Y (y_reload Y n) p = y_as_uint64 Y n p" "y_items Y (y_reload Y n) p = y_items Y n p"
    "y_keys Y (y_reload Y n) = y_keys Y n"
proof -
  have "same_at Y p (y_reload Y n) n" using assms unfolding yaml_laws_def by blast
  then show "y_as_string Y (y_reload Y n) p = y_as_string Y n p" "y_as_uint32 Y (y_reload Y n) p = y_as_uint32 Y n p"
    "y_as_uint64 Y (y_reload Y n) p = y_as_uint64 Y n p" "y_items Y (y_reload Y n) p = y_items Y n p"
    by (simp_all add: same_at_def)
  show "y_keys Y (y_reload Y n) = y_keys Y n" using assms unfolding yaml_laws_def by blast
qed

lemmas y_read_simps = y_set_same y_set_other y_reload_same

section \<open>Transactions\<close>

lemma decode_of_encode:
  "length k = 32 \<Longrightarrow> base58_encode_key k = Inr s \<Longrightarrow> base58_decode_key s = Inr k"
  "length g = 64 \<Longrightarrow> base58_encode_sig g = Inr s \<Longrightarrow> base58_decode_sig s = Inr g"
  "length u = 16 \<Longrightarrow> base58_encode_uuid u = Inr s \<Longrightarrow> base58_decode_uuid s = Inr u"
  unfolding base58_wrapper_defs
  using base58_roundtrip [of k "''key.''" "''key.''"] base58_roundtrip [of g "''signature.''" "''signature.''"]
    base58_roundtrip [of u "''uuid.''" "''uuid.''"]
  by auto

lemma unat_u64_bound [simp]: "unat (w :: u64) < 18446744073709551616"
  using unsigned_less [of w, where 'a = nat] by simp

lemma ucast_ucast_u32: "unat (w :: u64) < 4294967296 \<Longrightarrow> ucast (ucast w :: u32) = w"
  by (simp add: word_unat_eq_iff unsigned_ucast_eq take_bit_eq_mod unat_mod_distrib)

lemma load_stored_tx:
  assumes "tx_wf t" "stored_tx t = Inr m" "item_of Y m iter"
  shows "load_tx Y iter = (if unat (tx_id t) < 2 ^ 32 then Inr t else Inl (Runtime_error ''bad conversion''))"
proof -
  obtain s d g where enc: "base58_encode_key (src t) = Inr s" "base58_encode_key (dest t) = Inr d"
    "base58_encode_sig (signature t) = Inr g"
    and m: "m = [(''src'', s), (''dest'', d), (''signature'', g), (''id'', to_string (unat (tx_id t))),
            (''amount'', to_string (unat (amount t))), (''timestamp'', to_string (unat (tx_timestamp t)))]"
    using assms(2) by (auto simp: stored_tx_def bind_result_eq_Inr)
  have dec: "base58_decode_key s = Inr (src t)" "base58_decode_key d = Inr (dest t)" "base58_decode_sig g = Inr (signature t)"
    using assms(1) decode_of_encode enc by (auto simp: tx_wf_def)
  have strs: "\<And>k v. map_of m k = Some v \<Longrightarrow> y_as_string Y iter [k] = Some v"
    and nums: "\<And>k i. map_of m k = Some (to_string i) \<Longrightarrow>
        y_as_uint32 Y iter [k] = (if i < 2 ^ 32 then Some (of_nat i) else None) \<and>
        y_as_uint64 Y iter [k] = (if i < 2 ^ 64 then Some (of_nat i) else None)"
    using assms(3) by (auto simp: item_of_def)
  have "y_as_string Y iter [''src''] = Some s" "y_as_string Y iter [''dest''] = Some d"
    "y_as_string Y iter [''signature''] = Some g"
    by (rule strs, simp add: m)+
  moreover have "y_as_uint32 Y iter [''id''] = (if unat (tx_id t) < 2 ^ 32 then Some (of_nat (unat (tx_id t))) else None)"
    "y_as_uint32 Y iter [''amount''] = (if unat (amount t) < 2 ^ 32 then Some (of_nat (unat (amount t))) else None)"
    "y_as_uint64 Y iter [''timestamp''] = (if unat (tx_timestamp t) < 2 ^ 64 then Some (of_nat (unat (tx_timestamp t))) else None)"
    using nums [of "''id''" "unat (tx_id t)"] nums [of "''amount''" "unat (amount t)"]
      nums [of "''timestamp''" "unat (tx_timestamp t)"] by (simp_all add: m)
  ultimately show ?thesis by (simp add: load_tx_def key_at_def dec ucast_ucast_u32)
qed

definition short_ids :: "Transaction list \<Rightarrow> bool" where
  "short_ids ts \<longleftrightarrow> (\<forall>t\<in>set ts. unat (tx_id t) < 2 ^ 32)"

lemma load_stored_txs:
  assumes "\<forall>t\<in>set ts. tx_wf t" "map_result stored_tx ts = Inr ms" "list_all2 (item_of Y) ms iters"
  shows "map_result (load_tx Y) iters = (if short_ids ts then Inr ts else Inl (Runtime_error ''bad conversion''))"
  using assms
proof (induction ts arbitrary: ms iters)
  case (Cons t ts)
  then obtain m ms' it its where "ms = m # ms'" "iters = it # its" "stored_tx t = Inr m"
    "map_result stored_tx ts = Inr ms'" "item_of Y m it" "list_all2 (item_of Y) ms' its"
    by (auto simp: bind_result_eq_Inr list_all2_Cons1)
  then show ?case
    using Cons.IH [of ms' its] Cons.prems(1) load_stored_tx [of t m Y it]
    by (auto simp: short_ids_def)
qed (simp add: short_ids_def)

section \<open>Blocks\<close>

text \<open>What comes back of a block: its previous hash is replaced by its hash and its id is lost.\<close>

definition reloaded :: "u32 \<Rightarrow> Block \<Rightarrow> Block" where
  "reloaded junk b = b\<lparr>header := (header b)\<lparr>prev_hash := hash (header b), hdr_id := junk\<rparr>\<rparr>"

lemma write_block_node:
  assumes "yaml_laws Y" "block_wf b" "write_block Y bc b = Inr bc'"
  shows "load_block Y junk (stored_chain bc') (block_name (hdr_id (header b))) =
      (if short_ids (transactions b) then Inr (reloaded junk b) else Inl (Runtime_error ''bad conversion''))"
    and "disk bc' = (disk bc)(file_name bc \<mapsto> y_reload Y (stored_chain bc'))"
    and "y_keys Y (stored_chain bc') =
      (if block_name (hdr_id (header b)) \<in> set (y_keys Y (stored_chain bc)) then y_keys Y (stored_chain bc)
       else y_keys Y (stored_chain bc) @ [block_name (hdr_id (header b))])"
    and "hd p \<noteq> block_name (hdr_id (header b)) \<Longrightarrow> p \<noteq> [] \<Longrightarrow> same_at Y p (stored_chain bc') (stored_chain bc)"
proof -
  let ?h = "header b" and ?name = "block_name (hdr_id (header b))"
  obtain fp pk h ms where enc: "base58_encode_uuid (fingerprint (input ?h)) = Inr fp"
    "base58_encode_key (public_key (input ?h)) = Inr pk" "base58_encode_key (hash ?h) = Inr h"
    "map_result stored_tx (transactions b) = Inr ms"
    and bc': "stored_chain bc' = foldl (\<lambda>n (p, v). y_set Y n p v) (stored_chain bc)
       [([?name, ''header'', ''input'', ''fingerprint''], Y_str fp), ([?name, ''header'', ''input'', ''publickey''], Y_str pk),
        ([?name, ''header'', ''input'', ''nonce''], Y_uint (unat (nonce (input ?h)))), ([?name, ''header'', ''hash''], Y_str h),
        ([?name, ''header'', ''prev_hash''], Y_str h), ([?name, ''header'', ''difficulty''], Y_uint (unat (difficulty ?h))),
        ([?name, ''header'', ''timestamp''], Y_uint (unat (timestamp ?h))), ([?name, ''header'', ''id''], Y_uint (unat (hdr_id ?h))),
        ([?name, ''transactions''], Y_maps ms)]"
      "disk bc' = write_file Y (file_name bc) (stored_chain bc') (disk bc)"
    using assms(3) by (auto simp: write_block_def Let_def bind_result_eq_Inr)
  have dec: "base58_decode_uuid fp = Inr (fingerprint (input ?h))" "base58_decode_key pk = Inr (public_key (input ?h))"
    "base58_decode_key h = Inr (hash ?h)"
    using assms(2) enc decode_of_encode by (auto simp: block_wf_def header_wf_def)
  note rd = y_set_same [OF assms(1)] y_set_other [OF assms(1)]
  have "list_all2 (item_of Y) ms (y_items Y (stored_chain bc') [?name, ''transactions''])"
    by (simp add: bc' rd)
  then have txs: "map_result (load_tx Y) (y_items Y (stored_chain bc') [?name, ''transactions'']) =
      (if short_ids (transactions b) then Inr (transactions b) else Inl (Runtime_error ''bad conversion''))"
    using load_stored_txs [OF _ enc(4)] assms(2) by (auto simp: block_wf_def)
  show "load_block Y junk (stored_chain bc') ?name =
      (if short_ids (transactions b) then Inr (reloaded junk b) else Inl (Runtime_error ''bad conversion''))"
    unfolding load_block_def txs by (simp add: bc' rd key_at_def dec reloaded_def)
  show "disk bc' = (disk bc)(file_name bc \<mapsto> y_reload Y (stored_chain bc'))"
    by (simp add: bc'(2) write_file_def)
  have keys: "\<And>n k p v. y_keys Y (y_set Y n (k # p) v) = (if k \<in> set (y_keys Y n) then y_keys Y n else y_keys Y n @ [k])"
    using assms(1) unfolding yaml_laws_def by blast
  show "y_keys Y (stored_chain bc') = (if ?name \<in> set (y_keys Y (stored_chain bc)) then y_keys Y (stored_chain bc)
       else y_keys Y (stored_chain bc) @ [?name])"
    by (simp add: bc' keys)
  show "same_at Y p (stored_chain bc') (stored_chain bc)" if "hd p \<noteq> ?name" "p \<noteq> []"
    using that by (cases p) (simp_all add: bc' rd same_at_def)
qed

section \<open>The whole file\<close>

definition name_of :: "Block \<Rightarrow> string" where
  "name_of b = block_name (hdr_id (header b))"

lemma block_name_inj: "block_name i = block_name j \<longleftrightarrow> i = j"
  by (simp add: block_name_def to_string_inj word_unat_eq_iff)

lemma load_block_cong:
  assumes "\<And>p. p \<noteq> [] \<Longrightarrow> hd p = name \<Longrightarrow> same_at Y p n n'"
  shows "load_block Y junk n name = load_block Y junk n' name"
  using assms [of "name # _"] by (simp add: load_block_def key_at_def same_at_def)

text \<open>The document holds the blocks \<open>bs\<close>, under their names and in their order, and the file the document.\<close>

definition stores :: "'n yaml \<Rightarrow> 'n BlockChain \<Rightarrow> Block list \<Rightarrow> bool" where
  "stores Y bc bs \<longleftrightarrow> y_keys Y (stored_chain bc) = map name_of bs \<and>
     (\<forall>b\<in>set bs. \<forall>junk. load_block Y junk (stored_chain bc) (name_of b) = Inr (reloaded junk b)) \<and>
     (bs \<noteq> [] \<longrightarrow> disk bc (file_name bc) = Some (y_reload Y (stored_chain bc)))"

lemma write_block_stores:
  assumes "yaml_laws Y" "block_wf b" "short_ids (transactions b)" "write_block Y bc b = Inr bc'"
    and "stores Y bc bs" "name_of b \<notin> set (map name_of bs)" "file_name bc' = file_name bc"
  shows "stores Y bc' (bs @ [b])"
proof -
  note w = write_block_node [OF assms(1,2,4)]
  have "load_block Y junk (stored_chain bc') (name_of c) = Inr (reloaded junk c)" if c: "c \<in> set bs" for c junk
  proof -
    have ne: "name_of c \<noteq> name_of b" using c assms(6) by (metis imageI image_set)
    have "load_block Y junk (stored_chain bc') (name_of c) = load_block Y junk (stored_chain bc) (name_of c)"
      by (rule load_block_cong, rule w(4)) (use ne in \<open>simp_all add: name_of_def\<close>)
    then show ?thesis using assms(5) c by (simp add: stores_def)
  qed
  moreover have "y_keys Y (stored_chain bc') = map name_of (bs @ [b])"
    using w(3) assms(5,6) by (simp add: stores_def name_of_def [symmetric])
  ultimately show ?thesis
    using w(1,2) assms(3,7) by (auto simp: stores_def name_of_def)
qed

lemma add_block_frame:
  assumes "block_wf (de_block A data)" "add_block A Y confirm bc data = Inr (bc', r)"
  obtains bc1 where "write_block Y bc1 (de_block A data) = Inr bc'" "stored_chain bc1 = stored_chain bc"
    "disk bc1 = disk bc" "file_name bc1 = file_name bc" "file_name bc' = file_name bc"
proof -
  let ?b = "de_block A data"
  obtain bc1 where 1: "sync_bal (bc\<lparr>blocks := blocks bc @ [?b]\<rparr>) ?b = Inr bc1" "write_block Y bc1 ?b = Inr bc'"
    using assms(2) by (auto simp: add_block_def Let_def bind_result_eq_Inr)
  then have "stored_chain bc1 = stored_chain bc" "disk bc1 = disk bc" "file_name bc1 = file_name bc"
    by (auto simp: sync_bal_def bind_result_eq_Inr)
  moreover from this have "file_name bc' = file_name bc"
    using write_block_frame [OF assms(1), of Y bc1] 1(2) by auto
  ultimately show thesis using that 1(2) by blast
qed

abbreviation submitted :: "alpaca \<Rightarrow> Message list \<Rightarrow> Block list" where
  "submitted A reqs \<equiv> map (\<lambda>m. de_block A (msg_data m)) (filter (\<lambda>m. msg_type (msg_header m) = SUBMIT_BLOCK) reqs)"

lemma serve_stores:
  assumes "yaml_laws Y" "decodes_arrays A" "serve (chain_request_handler A Y confirm) bc reqs = Inr (bc', rs)"
    and "stores Y bc bs" "distinct (map name_of (bs @ submitted A reqs))"
    and "\<forall>b\<in>set (submitted A reqs). short_ids (transactions b)"
  shows "stores Y bc' (bs @ submitted A reqs) \<and> file_name bc' = file_name bc \<and>
    (\<forall>name. name \<noteq> file_name bc \<longrightarrow> disk bc' name = disk bc name)"
  using assms(3-)
proof (induction reqs arbitrary: bc rs bs)
  case (Cons m reqs)
  from Cons.prems(1) obtain bc1 r rs1 where 1: "chain_request_handler A Y confirm bc m = Inr (bc1, r)"
    "serve (chain_request_handler A Y confirm) bc1 reqs = Inr (bc', rs1)"
    by (auto simp: bind_result_eq_Inr)
  show ?case
  proof (cases "msg_type (msg_header m) = SUBMIT_BLOCK")
    case True
    let ?b = "de_block A (msg_data m)"
    have wf: "block_wf ?b" using assms(2) by (simp add: decodes_arrays_def)
    have "add_block A Y confirm bc (msg_data m) = Inr (bc1, r)"
      using True 1(1) by (simp add: chain_request_handler_def)
    then obtain bc0 where 0: "write_block Y bc0 ?b = Inr bc1" "stored_chain bc0 = stored_chain bc"
      "disk bc0 = disk bc" "file_name bc0 = file_name bc" "file_name bc1 = file_name bc"
      by (rule add_block_frame [OF wf])
    have st0: "stores Y bc0 bs" using Cons.prems(2) 0(2-4) by (simp add: stores_def)
    have st1: "stores Y bc1 (bs @ [?b])"
      by (rule write_block_stores [OF assms(1) wf _ 0(1) st0]) (use Cons.prems(3,4) True 0(4,5) in auto)
    have "stores Y bc' ((bs @ [?b]) @ submitted A reqs) \<and> file_name bc' = file_name bc1 \<and>
        (\<forall>name. name \<noteq> file_name bc1 \<longrightarrow> disk bc' name = disk bc1 name)"
      by (rule Cons.IH [OF 1(2) st1]) (use Cons.prems(3,4) True in auto)
    then show ?thesis
      using True 0 write_block_node(2) [OF assms(1) wf 0(1)] by auto
  next
    case False
    then have "bc1 = bc"
      using 1(1) by (auto simp: chain_request_handler_def get_balance_def last_block_def tx_status_def
          get_num_addr_def get_total_coins_def split: MessageType.splits if_splits)
    then show ?thesis using Cons.IH [OF 1(2)] Cons.prems False by simp
  qed
qed simp

lemma load_blocks_stored:
  assumes "\<forall>b\<in>set bs. load_block Y junk (stored_chain bc) (name_of b) = Inr (reloaded junk b)"
    and "sync_txs (ledger bc) (concat (map transactions bs)) = Inr l"
  shows "load_blocks Y junk bc (map name_of bs) =
    Inr (bc\<lparr>blocks := blocks bc @ map (reloaded junk) bs, ledger := l\<rparr>)"
  using assms
proof (induction bs arbitrary: bc)
  case (Cons b bs)
  have find: "find_str ''Block'' (name_of b) = Some 0"
    using find_str_prefix [of "''Block''"] by (simp add: name_of_def block_name_def)
  obtain l1 where l1: "sync_txs (ledger bc) (transactions b) = Inr l1" "sync_txs l1 (concat (map transactions bs)) = Inr l"
    using Cons.prems(2) by (auto simp: sync_txs_append bind_result_eq_Inr)
  have tx: "transactions (reloaded junk b) = transactions b" by (simp add: reloaded_def)
  let ?bc1 = "bc\<lparr>blocks := blocks bc @ [reloaded junk b], ledger := l1\<rparr>"
  have "load_blocks Y junk ?bc1 (map name_of bs) = Inr (?bc1\<lparr>blocks := blocks ?bc1 @ map (reloaded junk) bs, ledger := l\<rparr>)"
    by (rule Cons.IH) (use Cons.prems(1) l1(2) in simp_all)
  then show ?case using Cons.prems(1) l1(1) find tx by (simp add: sync_bal_def)
qed simp

section \<open>Properties\<close>

text \<open>
  C13. What a node reads back of a block it stored is the block with its previous hash replaced by its
  own hash and with an undefined id; and a block with a transaction id of 32 bits or more is stored but
  makes every later start of the node raise.
\<close>

theorem stored_block_read_back:
  assumes "yaml_laws Y" "block_wf b" "write_block Y bc b = Inr bc'"
  shows "\<exists>n. disk bc' (file_name bc) = Some n \<and> load_block Y junk n (block_name (hdr_id (header b))) =
    (if \<forall>t\<in>set (transactions b). unat (tx_id t) < 2 ^ 32
     then Inr (b\<lparr>header := (header b)\<lparr>prev_hash := hash (header b), hdr_id := junk\<rparr>\<rparr>)
     else Inl (Runtime_error ''bad conversion''))"
proof -
  have "load_block Y junk (y_reload Y (stored_chain bc')) (block_name (hdr_id (header b))) =
      load_block Y junk (stored_chain bc') (block_name (hdr_id (header b)))"
    by (rule load_block_cong) (simp add: same_at_def y_reload_same [OF assms(1)])
  then show ?thesis
    using write_block_node(1,2) [OF assms] by (simp add: short_ids_def reloaded_def)
qed

theorem stored_block_read_back_witness:
  "\<exists>bc n. disk (bc :: snode BlockChain) ''blockchain.yaml'' = Some n \<and>
     load_block sample_yaml 99 n ''Block1'' =
       Inr (reward_block\<lparr>header := (sample_header 1)\<lparr>prev_hash := sample_key 7, hdr_id := 99\<rparr>\<rparr>)"
proof -
  obtain bc :: "snode BlockChain" where bc: "file_name bc = ''blockchain.yaml''" using reward_chain by blast
  obtain bc' where w: "write_block sample_yaml bc reward_block = Inr bc'"
    using write_block_frame [OF reward_block_ok] by blast
  have "block_name 1 = ''Block1''" by code_simp
  with stored_block_read_back [OF sample_yaml_laws reward_block_ok w, of 99] bc show ?thesis
    by (intro exI [of _ bc']) (auto simp: reward_block_def sample_block_def sample_header_def
        create_reward_transaction_def sample_tx_def)
qed

text \<open>A node that has the stored blocks in its chain document and the genesis block on disk replays them.\<close>

lemma start_on_stored_chain:
  assumes "yaml_laws Y" "stores Y bc bs" "get_genesis_block Y (disk bc) = Inr g" "sync_txs [] (transactions g) = Inr l0"
    and sync: "sync_txs l0 (concat (map transactions bs)) = Inr l"
    and node: "f \<noteq> []" "node = \<lparr>file_name = f, blocks = [], ledger = [], stored_chain = y_reload Y (stored_chain bc), disk = disk bc\<rparr>"
  shows "start_chain Y junk node = Inr (node\<lparr>blocks := g # map (reloaded junk) bs, ledger := l\<rparr>)"
proof -
  let ?n = "y_reload Y (stored_chain bc)" and ?loaded = "node\<lparr>blocks := [g], ledger := l0\<rparr>"
  have "load_blocks Y junk ?loaded (map name_of bs) =
      Inr (?loaded\<lparr>blocks := blocks ?loaded @ map (reloaded junk) bs, ledger := l\<rparr>)"
  proof (rule load_blocks_stored)
    show "\<forall>b\<in>set bs. load_block Y junk (stored_chain ?loaded) (name_of b) = Inr (reloaded junk b)"
    proof
      fix b assume b: "b \<in> set bs"
      have "load_block Y junk ?n (name_of b) = load_block Y junk (stored_chain bc) (name_of b)"
        by (rule load_block_cong) (simp add: same_at_def y_reload_same [OF assms(1)])
      moreover have "load_block Y junk (stored_chain bc) (name_of b) = Inr (reloaded junk b)"
        using assms(2) b unfolding stores_def by blast
      ultimately show "load_block Y junk (stored_chain ?loaded) (name_of b) = Inr (reloaded junk b)" by (simp add: node)
    qed
  qed (use sync in simp)
  moreover have "y_keys Y ?n = map name_of bs"
    using assms(2) by (simp add: stores_def y_reload_same [OF assms(1)])
  ultimately show ?thesis
    by (simp add: start_chain_def load_genesis_def assms(3,4) sync_bal_def node)
qed

text \<open>
  C14. A node that starts on the chain file of another node rebuilds that node's ledger: if a node that
  started without a chain file served any requests, the blocks submitted to it have different ids and
  their transactions ids below 2 to the 32, then a second node that is configured with the file of the
  first and the same genesis file starts, holds the same blocks (up to previous hashes and ids) and the
  same ledger.
\<close>

theorem restart_restores_ledger:
  assumes laws: "yaml_laws Y" "decodes_arrays A" "y_as_string Y config [''blockchain'', ''file''] = Some []"
    and start: "new_BlockChain Y fs config_file = Inr bc0" "fs config_file = Some config"
      "start_chain Y junk0 bc0 = Inr bc1"
    and run: "serve (chain_request_handler A Y confirm) bc1 reqs = Inr (bc, rs)" "submitted A reqs \<noteq> []"
    and ids: "distinct (map (\<lambda>b. hdr_id (header b)) (submitted A reqs))"
      "\<forall>b\<in>set (submitted A reqs). \<forall>t\<in>set (transactions b). unat (tx_id t) < 2 ^ 32"
    and second: "disk bc config_file' = Some config'"
      "y_as_string Y config' [''blockchain'', ''file''] = Some ''blockchain.yaml''"
  shows "\<exists>bc0' bc'. new_BlockChain Y (disk bc) config_file' = Inr bc0' \<and> start_chain Y junk bc0' = Inr bc' \<and>
    ledger bc' = ledger bc \<and> blocks bc' = hd (blocks bc) # map (reloaded junk) (submitted A reqs)"
proof -
  have bc0: "bc0 = \<lparr>file_name = [], blocks = [], ledger = [], stored_chain = y_null Y, disk = fs\<rparr>"
    using start(1,2) laws(3) by (auto simp: new_BlockChain_def bind_result_eq_Inr LoadFile_Some)
  obtain g l0 where g: "get_genesis_block Y fs = Inr g" "sync_txs [] (transactions g) = Inr l0"
    and bc1: "bc1 = \<lparr>file_name = ''blockchain.yaml'', blocks = [g], ledger = l0, stored_chain = y_null Y, disk = fs\<rparr>"
    using start(3) bc0 by (auto simp: start_chain_def load_genesis_def bind_result_eq_Inr sync_bal_def)
  have "distinct (map name_of (submitted A reqs))"
    using ids(1) unfolding name_of_def distinct_map by (auto simp: inj_on_def block_name_inj)
  moreover have "stores Y bc1 []" using laws(1) by (simp add: stores_def bc1 yaml_laws_def)
  ultimately have st: "stores Y bc (submitted A reqs)" "file_name bc = ''blockchain.yaml''"
    "disk bc GENESIS_FILE = fs GENESIS_FILE"
    using serve_stores [OF laws(1,2) run(1), of "[]"] ids(2) by (auto simp: short_ids_def bc1 GENESIS_FILE_def)
  let ?bc0' = "\<lparr>file_name = ''blockchain.yaml'', blocks = [], ledger = [], stored_chain = y_reload Y (stored_chain bc), disk = disk bc\<rparr>"
  have "disk bc ''blockchain.yaml'' = Some (y_reload Y (stored_chain bc))" using st(1,2) run(2) by (simp add: stores_def)
  then have new: "new_BlockChain Y (disk bc) config_file' = Inr ?bc0'"
    using second by (simp add: new_BlockChain_def LoadFile_Some)
  have ok: "chain_ok A bc1" using start_chain_wf [OF start(1,3)] laws(2) by (simp add: chain_ok_def)
  have blocks: "blocks bc = g # submitted A reqs" using chain_serve_blocks [OF ok run(1)] by (simp add: bc1)
  have "chain_wf bc" using chain.serve_invar [OF ok run(1)] by (simp add: chain_ok_def)
  then have sync: "sync_txs l0 (concat (map transactions (submitted A reqs))) = Inr (ledger bc)"
    using g(2) by (simp add: chain_wf_def all_txs_def blocks sync_txs_append)
  have gen: "get_genesis_block Y (disk bc) = Inr g"
    using g(1) st(3) by (simp add: get_genesis_block_def LoadFile_def)
  from start_on_stored_chain [OF laws(1) st(1) gen g(2) sync _ refl] new show ?thesis by (simp add: blocks)
qed

text \<open>A second configuration beside the files of the genesis node, which names the chain file.\<close>

definition two_node_files :: "snode files" where
  "two_node_files = genesis_files(''second.yaml'' \<mapsto> [([''blockchain'', ''file''], Y_str ''blockchain.yaml'')])"

lemma two_node_genesis: "get_genesis_block sample_yaml two_node_files = Inr genesis_block"
  using genesis_loaded by (simp add: get_genesis_block_def LoadFile_def two_node_files_def GENESIS_FILE_def)

lemma two_node_start:
  "\<exists>bc0 bc. new_BlockChain sample_yaml two_node_files ''dsc-config.yaml'' = Inr bc0 \<and>
     start_chain sample_yaml 0 bc0 = Inr bc \<and> stored_chain bc = [] \<and> disk bc = two_node_files \<and>
     file_name bc = ''blockchain.yaml'' \<and> blocks bc = [genesis_block]"
proof -
  let ?bc0 = "\<lparr>file_name = [], blocks = [], ledger = [], stored_chain = [] :: snode, disk = two_node_files\<rparr>"
  have "new_BlockChain sample_yaml two_node_files ''dsc-config.yaml'' = Inr ?bc0"
    by (simp add: new_BlockChain_def LoadFile_def two_node_files_def genesis_files_def GENESIS_FILE_def)
  moreover obtain bc where "sync_bal (?bc0\<lparr>blocks := blocks ?bc0 @ [genesis_block]\<rparr>) genesis_block = Inr bc"
    "blocks bc = blocks ?bc0 @ [genesis_block]" "file_name bc = file_name ?bc0" "stored_chain bc = stored_chain ?bc0"
    "disk bc = disk ?bc0"
    using sync_bal_wf [of ?bc0 genesis_block] genesis_block_ok by auto
  ultimately show ?thesis by (simp add: start_chain_def load_genesis_def two_node_genesis)
qed

theorem restart_restores_ledger_witness:
  "\<exists>(bc :: snode BlockChain) bc0' bc'. new_BlockChain sample_yaml (disk bc) ''second.yaml'' = Inr bc0' \<and>
     start_chain sample_yaml 99 bc0' = Inr bc' \<and> ledger bc' = ledger bc \<and>
     blocks bc' = [genesis_block, reloaded 99 reward_block]"
proof -
  let ?A = "sample_alpaca (sample_tx 1 7 20) reward_block" and ?reqs = "[request SUBMIT_BLOCK []]"
  obtain bc0 bc1 where start: "new_BlockChain sample_yaml two_node_files ''dsc-config.yaml'' = Inr bc0"
    "start_chain sample_yaml 0 bc0 = Inr bc1" "stored_chain bc1 = []" "disk bc1 = two_node_files"
    "file_name bc1 = ''blockchain.yaml''" "blocks bc1 = [genesis_block]"
    using two_node_start by blast
  have ok: "chain_ok ?A bc1" using start_chain_wf [OF start(1,2)] reward_alpaca by (simp add: chain_ok_def)
  have "\<exists>bc rs. serve (chain_request_handler ?A sample_yaml (\<lambda>b. Inr ())) bc1 ?reqs = Inr (bc, rs)"
    by (rule chain.supported_requests_served) (use ok in \<open>auto simp: chain_requests_def\<close>)
  then obtain bc rs where run: "serve (chain_request_handler ?A sample_yaml (\<lambda>b. Inr ())) bc1 ?reqs = Inr (bc, rs)"
    by blast
  have short: "\<forall>b\<in>set (submitted ?A ?reqs). short_ids (transactions b)"
    by (simp add: short_ids_def reward_block_def sample_block_def create_reward_transaction_def sample_tx_def)
  have "stores sample_yaml bc1 []" by (simp add: stores_def start(3))
  then have "disk bc ''second.yaml'' = disk bc1 ''second.yaml''"
    using serve_stores [OF sample_yaml_laws reward_alpaca run, of "[]"] short by (simp add: start(5))
  then have second: "disk bc ''second.yaml'' = Some [([''blockchain'', ''file''], Y_str ''blockchain.yaml'')]"
    by (simp add: start(4) two_node_files_def)
  have blocks: "hd (blocks bc) = genesis_block" using chain_serve_blocks [OF ok run] start(6) by simp
  obtain config where config: "two_node_files ''dsc-config.yaml'' = Some config"
      "y_as_string sample_yaml config [''blockchain'', ''file''] = Some []"
    by (simp add: two_node_files_def genesis_files_def GENESIS_FILE_def)
  have "\<exists>bc0' bc'. new_BlockChain sample_yaml (disk bc) ''second.yaml'' = Inr bc0' \<and>
      start_chain sample_yaml 99 bc0' = Inr bc' \<and> ledger bc' = ledger bc \<and>
      blocks bc' = hd (blocks bc) # map (reloaded 99) (submitted ?A ?reqs)"
    by (rule restart_restores_ledger [OF sample_yaml_laws reward_alpaca config(2) start(1) config(1) start(2) run _ _ _ second])
      (use short in \<open>simp_all add: short_ids_def\<close>)
  then show ?thesis by (simp add: blocks) blast
qed

end
