(* ===== verification/Config_Correct.thy ===== *)
theory Config_Correct
  imports Config Persistence
begin

text \<open>
  Correctness of the settings files: the wallet that was stored is loaded, the transaction counter gives
  consecutive ids and leaves the other settings alone, and the memory a validator may use is read with
  its unit.
\<close>

section \<open>A persistent counter\<close>

text \<open>
  The interface of \<open>get_tx_id\<close> and \<open>set_tx_id\<close>: \<open>stored s n\<close> says that the next id is \<open>n\<close>.
\<close>

locale id_counter =
  fixes next_id :: "'s \<Rightarrow> (u64 \<times> 's) result"
    and store_id :: "u64 \<Rightarrow> 's \<Rightarrow> 's result"
    and stored :: "'s \<Rightarrow> u64 \<Rightarrow> bool"
  assumes next_stored: "stored s n \<Longrightarrow> \<exists>s'. next_id s = Inr (n, s') \<and> stored s' (n + 1)"
    and store_stored: "stored s m \<Longrightarrow> \<exists>s'. store_id n s = Inr s' \<and> stored s' n"

text \<open>The ids of \<open>k\<close> calls.\<close>

fun take_ids :: "('s \<Rightarrow> (u64 \<times> 's) result) \<Rightarrow> nat \<Rightarrow> 's \<Rightarrow> (u64 list \<times> 's) result" where
  "take_ids next_id 0 s = Inr ([], s)"
| "take_ids next_id (Suc k) s =
     bind_result (next_id s) (\<lambda>(n, s'). bind_result (take_ids next_id k s') (\<lambda>(ns, t). Inr (n # ns, t)))"

context id_counter
begin

lemma take_ids_consecutive:
  "stored s n \<Longrightarrow> \<exists>t. take_ids next_id k s = Inr (map (\<lambda>i. n + of_nat i) [0..<k], t) \<and> stored t (n + of_nat k)"
proof (induction k arbitrary: s n)
  case (Suc k)
  obtain s' where s': "next_id s = Inr (n, s')" "stored s' (n + 1)" using next_stored [OF Suc.prems] by blast
  obtain t where t: "take_ids next_id k s' = Inr (map (\<lambda>i. n + 1 + of_nat i) [0..<k], t)" "stored t (n + 1 + of_nat k)"
    using Suc.IH [OF s'(2)] by blast
  have "map (\<lambda>i. n + of_nat i) [0..<Suc k] = n # map (\<lambda>i. n + 1 + of_nat i) [0..<k]"
    by (simp add: upt_conv_Cons map_Suc_upt [symmetric] comp_def add.assoc del: upt_Suc map_Suc_upt)
  then show ?case using s'(1) t by (simp add: add.assoc del: upt_Suc)
qed simp

end

section \<open>The settings file\<close>

text \<open>A setter replaces one entry of the file and leaves every other file and entry as it is.\<close>

definition only_changes :: "'n yaml \<Rightarrow> string \<Rightarrow> string list \<Rightarrow> 'n files \<Rightarrow> 'n files \<Rightarrow> bool" where
  "only_changes Y f p fs fs' \<longleftrightarrow> (\<forall>g. g \<noteq> f \<longrightarrow> fs' g = fs g) \<and>
     (\<exists>n n'. fs f = Some n \<and> fs' f = Some n' \<and> (\<forall>q. apart p q \<longrightarrow> same_at Y q n' n))"

lemma same_at_trans: "same_at Y q a b \<Longrightarrow> same_at Y q b c \<Longrightarrow> same_at Y q a c"
  by (simp add: same_at_def)

lemma only_changes_trans: "only_changes Y f p a b \<Longrightarrow> only_changes Y f p b c \<Longrightarrow> only_changes Y f p a c"
  by (fastforce simp: only_changes_def intro: same_at_trans)

lemma only_changes_write:
  assumes "yaml_laws Y" "fs f = Some n"
  shows "only_changes Y f p fs (write_file Y f (y_set Y n p v) fs)"
proof -
  have "same_at Y q (y_reload Y (y_set Y n p v)) n" if "apart p q" for q
    using assms(1) that by (simp add: same_at_def y_read_simps)
  then show ?thesis using assms(2) by (simp add: only_changes_def write_file_def)
qed

lemma only_changes_setting:
  "only_changes Y f p fs fs' \<Longrightarrow> apart p q \<Longrightarrow> setting Y q g fs' = setting Y q g fs"
  by (cases "g = f") (auto simp: only_changes_def setting_def LoadFile_def same_at_def)

lemma only_changes_load_wallet:
  "only_changes Y f nonce_path fs fs' \<Longrightarrow> load_wallet Y f key_file fs' = load_wallet Y f key_file fs"
  by (cases "key_file = f") (auto simp: only_changes_def load_wallet_def LoadFile_def same_at_def split: option.splits)

definition nonce_stored :: "'n yaml \<Rightarrow> string \<Rightarrow> 'n files \<Rightarrow> u64 \<Rightarrow> bool" where
  "nonce_stored Y f fs n \<longleftrightarrow> yaml_laws Y \<and> (\<exists>c. fs f = Some c \<and> y_as_uint64 Y c nonce_path = Some n)"

lemma nonce_stored_write:
  "yaml_laws Y \<Longrightarrow> nonce_stored Y f (write_file Y f (y_set Y c nonce_path (Y_uint (unat n))) fs) n"
  by (simp add: nonce_stored_def write_file_def y_read_simps)

lemma get_tx_id_stored:
  assumes "nonce_stored Y f fs n"
  shows "\<exists>fs'. get_tx_id Y f fs = Inr (n, fs') \<and> nonce_stored Y f fs' (n + 1) \<and> only_changes Y f nonce_path fs fs'"
proof -
  obtain c where c: "yaml_laws Y" "fs f = Some c" "y_as_uint64 Y c nonce_path = Some n"
    using assms by (auto simp: nonce_stored_def)
  then show ?thesis
    using nonce_stored_write [OF c(1), of f c "n + 1" fs] only_changes_write [OF c(1), of fs f c nonce_path]
    by (simp add: get_tx_id_def LoadFile_def)
qed

lemma set_tx_id_stored:
  assumes "nonce_stored Y f fs m"
  shows "\<exists>fs'. set_tx_id Y n f fs = Inr fs' \<and> nonce_stored Y f fs' n \<and> only_changes Y f nonce_path fs fs'"
proof -
  obtain c where c: "yaml_laws Y" "fs f = Some c" using assms by (auto simp: nonce_stored_def)
  then show ?thesis
    using nonce_stored_write [OF c(1), of f c n fs] only_changes_write [OF c(1), of fs f c nonce_path]
    by (simp add: set_tx_id_def LoadFile_def)
qed

interpretation tx_ids: id_counter "get_tx_id Y f" "\<lambda>n. set_tx_id Y n f" "nonce_stored Y f" for Y f
  using get_tx_id_stored set_tx_id_stored by unfold_locales blast+

lemma take_tx_ids_frame:
  "nonce_stored Y f fs n \<Longrightarrow> take_ids (get_tx_id Y f) k fs = Inr (ns, fs') \<Longrightarrow> 0 < k \<Longrightarrow> only_changes Y f nonce_path fs fs'"
proof (induction k arbitrary: fs n ns)
  case (Suc k)
  obtain fs1 where 1: "get_tx_id Y f fs = Inr (n, fs1)" "nonce_stored Y f fs1 (n + 1)" "only_changes Y f nonce_path fs fs1"
    using get_tx_id_stored [OF Suc.prems(1)] by blast
  show ?case
  proof (cases k)
    case 0
    then show ?thesis using 1 Suc.prems(2) by simp
  next
    case k: (Suc k')
    obtain ms where "take_ids (get_tx_id Y f) k fs1 = Inr (ms, fs')"
      using 1(1) Suc.prems(2) by (auto simp: bind_result_eq_Inr)
    then show ?thesis using Suc.IH [OF 1(2)] only_changes_trans [OF 1(3)] k by blast
  qed
qed simp

section \<open>Concrete files\<close>

definition client_config :: snode where
  "client_config =
     [([''wallet'', ''public_key''], Y_str ''69''), ([''wallet'', ''nonce''], Y_uint 41),
      ([''tx_pool'', ''address''], Y_str ''tcp://127.0.0.1:10001''),
      ([''blockchain'', ''address''], Y_str ''tcp://127.0.0.1:10004''), ([''validator'', ''memory''], Y_str ''3GB'')]"

definition client_key :: snode where
  "client_key = [([''wallet'', ''private_key''], Y_str ''69'')]"

definition client_files :: "snode files" where
  "client_files = [''dsc-config.yaml'' \<mapsto> client_config, ''dsc-key.yaml'' \<mapsto> client_key]"

lemma client_nonce: "nonce_stored sample_yaml ''dsc-config.yaml'' client_files 41"
  by (simp add: nonce_stored_def sample_yaml_laws client_files_def client_config_def parse_uint_def)

section \<open>Properties\<close>

text \<open>
  A wallet is loaded as it was stored: \<open>store_wallet\<close> into two existing, different files succeeds, and
  \<open>load_wallet\<close> then returns the same two keys, while no other file changes and the settings in both
  files stay.
\<close>

lemma stored_wallet_is_loaded:
  assumes "yaml_laws Y" "config_file \<noteq> key_file" "fs config_file \<noteq> None" "fs key_file \<noteq> None"
    and "length (pub_key w) = 32" "length (priv_key w) = 32"
  shows "\<exists>fs'. store_wallet Y w config_file key_file fs = Inr fs' \<and> load_wallet Y config_file key_file fs' = Inr w \<and>
    (\<forall>f. f \<notin> {config_file, key_file} \<longrightarrow> fs' f = fs f) \<and>
    (\<forall>q f. apart public_key_path q \<and> apart private_key_path q \<longrightarrow> setting Y q f fs' = setting Y q f fs)"
proof -
  obtain c k where ck: "fs config_file = Some c" "fs key_file = Some k" using assms(3,4) by blast
  obtain p s where enc: "base58_encode_key (pub_key w) = Inr p" "base58_encode_key (priv_key w) = Inr s"
    using encode_total(1) assms(5,6) by metis
  let ?fs1 = "write_file Y key_file (y_set Y k private_key_path (Y_str s)) fs"
  let ?fs' = "write_file Y config_file (y_set Y c public_key_path (Y_str p)) ?fs1"
  have "?fs1 config_file = Some c" using ck assms(2) by (simp add: write_file_def)
  then have ch: "only_changes Y key_file private_key_path fs ?fs1" "only_changes Y config_file public_key_path ?fs1 ?fs'"
    using ck by (simp_all only: only_changes_write [OF assms(1)])
  have "store_wallet Y w config_file key_file fs = Inr ?fs'"
    by (simp add: store_wallet_def LoadFile_def ck enc)
  moreover have "load_wallet Y config_file key_file ?fs' = Inr w"
    using assms(2) decode_of_encode(1) [OF assms(5) enc(1)] decode_of_encode(1) [OF assms(6) enc(2)]
    by (simp add: load_wallet_def y_read_simps [OF assms(1)])
  moreover have "\<forall>f. f \<notin> {config_file, key_file} \<longrightarrow> ?fs' f = fs f" by (simp add: write_file_def)
  moreover have "\<forall>q f. apart public_key_path q \<and> apart private_key_path q \<longrightarrow> setting Y q f ?fs' = setting Y q f fs"
    using only_changes_setting [OF ch(1)] only_changes_setting [OF ch(2)] by simp
  ultimately show ?thesis by blast
qed

lemma stored_wallet_is_loaded_witness:
  "\<exists>fs'. store_wallet sample_yaml \<lparr>priv_key = sample_key 1, pub_key = sample_key 2\<rparr> ''dsc-config.yaml'' ''dsc-key.yaml'' client_files
       = Inr fs' \<and>
     load_wallet sample_yaml ''dsc-config.yaml'' ''dsc-key.yaml'' fs' = Inr \<lparr>priv_key = sample_key 1, pub_key = sample_key 2\<rparr>"
  using stored_wallet_is_loaded [OF sample_yaml_laws, of "''dsc-config.yaml''" "''dsc-key.yaml''" client_files
      "\<lparr>priv_key = sample_key 1, pub_key = sample_key 2\<rparr>"]
  by (auto simp: client_files_def)

text \<open>
  A wallet never gives an id twice before the 64-bit counter wraps around: \<open>k\<close> calls of \<open>get_tx_id\<close>
  return the stored number and its successors, across program runs, since each call writes the counter
  back; and they leave the wallet's keys and all other settings as they are.
\<close>

lemma tx_ids_are_consecutive:
  assumes "nonce_stored Y f fs n" "0 < k"
  shows "\<exists>fs'. take_ids (get_tx_id Y f) k fs = Inr (map (\<lambda>i. n + of_nat i) [0..<k], fs') \<and>
    (k \<le> 2 ^ 64 \<longrightarrow> distinct (map (\<lambda>i. n + of_nat i) [0..<k])) \<and>
    load_wallet Y f key_file fs' = load_wallet Y f key_file fs \<and>
    (\<forall>q g. apart nonce_path q \<longrightarrow> setting Y q g fs' = setting Y q g fs)"
proof -
  obtain fs' where t: "take_ids (get_tx_id Y f) k fs = Inr (map (\<lambda>i. n + of_nat i) [0..<k], fs')"
    using tx_ids.take_ids_consecutive [OF assms(1)] by blast
  have ch: "only_changes Y f nonce_path fs fs'" by (rule take_tx_ids_frame [OF assms(1) t assms(2)])
  have "inj_on (\<lambda>i. n + of_nat i) {0..<k}" if "k \<le> 2 ^ 64"
    using that by (auto simp: inj_on_def word_of_nat_eq_iff take_bit_eq_mod)
  then show ?thesis
    using t only_changes_load_wallet [OF ch] only_changes_setting [OF ch]
    by (intro exI [of _ fs'] conjI impI allI) (simp_all add: distinct_map)
qed

lemma tx_ids_are_consecutive_witness:
  "\<exists>fs'. take_ids (get_tx_id sample_yaml ''dsc-config.yaml'') 3 client_files = Inr ([41, 42, 43], fs')"
proof -
  obtain fs' where "take_ids (get_tx_id sample_yaml ''dsc-config.yaml'') 3 client_files = Inr (map (\<lambda>i. 41 + of_nat i) [0..<3], fs')"
    using tx_ids_are_consecutive [OF client_nonce, of 3] by fastforce
  moreover have "map (\<lambda>i. 41 + of_nat i :: u64) [0..<3] = [41, 42, 43]" by (simp add: upt_rec)
  ultimately show ?thesis by auto
qed

text \<open>
  The memory of a validator, written as a number and KB, MB or GB, is read as that many bytes when the
  product fits an \<open>int\<close>; a larger number of units overflows the multiplication, from 3GB on.
\<close>

lemma validator_memory_units:
  assumes "(u, k) \<in> {(''KB'', 1000), (''MB'', 1000000), (''GB'', 1000000000)}" "n < 2 ^ 31"
    and "setting Y [''validator'', ''memory''] f fs = Inr (to_string n @ u)"
  shows "get_validator_memory Y f fs =
    (if n * k < 2 ^ 31 then Inr (of_nat (n * k)) else Inl (Undefined ''signed overflow''))"
  using parse_memory_unit [OF assms(1), of n] assms(2,3) by (auto simp: get_validator_memory_def)

lemma validator_memory_units_witness:
  "get_validator_memory sample_yaml ''dsc-config.yaml'' client_files = Inl (Undefined ''signed overflow'')"
proof -
  have "to_string 3 = ''3''" by code_simp
  then have "setting sample_yaml [''validator'', ''memory''] ''dsc-config.yaml'' client_files = Inr (to_string 3 @ ''GB'')"
    by (simp add: setting_def LoadFile_def client_files_def client_config_def)
  then show ?thesis
    using validator_memory_units [of "''GB''" 1000000000 3 sample_yaml "''dsc-config.yaml''" client_files] by simp
qed

end
