(* ===== verification/Validator_Correct.thy ===== *)
theory Validator_Correct
  imports Validator TxPool_Correct Metronome_Correct ProofOfWork Config_Correct
begin

text \<open>
  Correctness of the validator: the blocks it submits prove their work and continue the chain, they take
  their transactions out of the pool when they are confirmed, and it mines on every header at most once.
\<close>

section \<open>The interface of the consensus model\<close>

text \<open>A solver whose results are results of the model.\<close>

definition solver_of :: "(Blake3Hash \<Rightarrow> u32 \<Rightarrow> u64 \<Rightarrow> HashInput \<times> Blake3Hash \<Rightarrow> bool) \<Rightarrow> solver \<Rightarrow> bool" where
  "solver_of solves solve \<longleftrightarrow> (\<forall>prev d t s. solve prev d t = Inr s \<longrightarrow> solves prev d t s)"

context verifying_consensus
begin

lemma mined_block_verified:
  assumes "solver_of solves solve" "mine_on A peers v solve now1 now2 cur h = (h', Inr (Some (b, good)))"
  shows "verify (input (header b)) (hash (header b)) (prev_hash (header b)) (difficulty (header b)) = Inr True"
proof -
  obtain d inp sol txs h1 where "request_difficulty A peers v h = (h1, Inr d)"
    "solve (hash cur) d (timestamp cur + of_nat (BLOCK_TIME * 1000000)) = Inr (inp, sol)" "\<not> is_null_hash sol"
    "snd (request_txs A peers v h1) = Inr txs" "b = new_block now1 now2 (val_wallet v) cur inp sol d txs"
    by (rule mine_on_block [OF assms(2)])
  note b = this
  have "solves (hash cur) d (timestamp cur + of_nat (BLOCK_TIME * 1000000)) (inp, sol)"
    using assms(1) b(2) unfolding solver_of_def by blast
  then have "verify inp sol (hash cur) d = Inr True" using b(3) by (rule solution_verified)
  then show ?thesis by (simp add: b(5) new_block_def)
qed

end

text \<open>Proof of work with given clock readings and random bytes; a search that does not end raises here.\<close>

definition pow_solver :: "(byte list \<Rightarrow> Blake3Hash) \<Rightarrow> (nat \<Rightarrow> u64) \<Rightarrow> byte list \<Rightarrow> solver" where
  "pow_solver blake3 clock rnd prev d t =
     (case pow_solve_hash blake3 clock rnd prev d t of None \<Rightarrow> Inl (Undefined ''search does not end'') | Some r \<Rightarrow> r)"

lemma pow_solver_of: "length rnd = 32 \<Longrightarrow> solver_of (pow_solves blake3) (pow_solver blake3 clock rnd)"
  by (auto simp: solver_of_def pow_solver_def pow_solves_def split: option.splits)

lemma new_block_sel [simp]:
  "hdr_id (header (new_block n1 n2 w prev i s d txs)) = hdr_id prev + 1"
  "prev_hash (header (new_block n1 n2 w prev i s d txs)) = hash prev"
  "transactions (new_block n1 n2 w prev i s d txs) = txs @ [create_reward_transaction n1 w]"
  by (simp_all add: new_block_def)

section \<open>Peers for the witnesses\<close>

text \<open>Peers that give the same two parts to every request.\<close>

definition same_reply :: "alpaca \<Rightarrow> payload \<Rightarrow> MessageType \<Rightarrow> peers" where
  "same_reply A p ty w = send_message A p ty"

definition sample_validator :: validator where
  "sample_validator = \<lparr>val_blockchain = ''bc'', val_metronome = ''met'', val_tx_pool = ''pool'',
     val_wallet = \<lparr>priv_key = sample_key 1, pub_key = sample_key 1\<rparr>\<rparr>"

definition empty_host :: "snode host" where
  "empty_host = \<lparr>host_files = Map.empty, host_wire = [], host_console = []\<rparr>"

abbreviation val_alpaca :: alpaca where
  "val_alpaca \<equiv> (sample_alpaca (sample_tx 1 7 20) (sample_block [sample_tx 1 7 20]))\<lparr>de_uint32 := \<lambda>_. 20\<rparr>"

lemma val_trip:
  "round_trip val_alpaca (same_reply val_alpaca P_null STATUS_GOOD) de addr q ty' h =
     (h\<lparr>host_wire := host_wire h @ [(addr, send_message val_alpaca q ty')]\<rparr>, Inr (\<lparr>msg_type = STATUS_GOOD, msg_size = 0\<rparr>, de []))"
  by (simp add: round_trip_def recv_payload_def same_reply_def send_message_def Let_def sample_header_roundtrip sample_alpaca_def)

lemma val_header: "de_block_header (sample_alpaca t b) bs = header b" "header (sample_block txs) = sample_header 1"
  by (simp_all add: sample_alpaca_def sample_block_def)

section \<open>Properties\<close>

text \<open>
  C9. With proof of work, every block that a round of the validator submits passes \<open>verify_solution\<close> against its
  own previous hash and difficulty; it has the next id and the previous hash of the header it was mined
  on, it ends with the reward for the validator's wallet, and a metronome that still has that header as
  its last block accepts it.
\<close>

theorem mined_block_verifies_and_is_accepted:
  assumes "length rnd = 32"
    and "mine_on A peers v (pow_solver blake3 clock rnd) now1 now2 cur h = (h', Inr (Some (b, good)))"
  shows "pow_verify_solution blake3 (input (header b)) (hash (header b)) (prev_hash (header b)) (difficulty (header b)) = Inr True
    \<and> hdr_id (header b) = hdr_id cur + 1 \<and> prev_hash (header b) = hash cur
    \<and> last (transactions b) = create_reward_transaction now1 (val_wallet v)
    \<and> (\<forall>m data. met_last_block m = cur \<and> de_block A data = b \<longrightarrow>
        (\<exists>m'. handle_block A (\<lambda>_. Inr STATUS_GOOD) m data = Inr (m', (P_null, STATUS_GOOD)) \<and> met_last_block m' = header b))"
proof -
  obtain d inp sol txs where b: "b = new_block now1 now2 (val_wallet v) cur inp sol d txs"
    using mine_on_block [OF assms(2)] by metis
  show ?thesis
    using pow.mined_block_verified [OF pow_solver_of [OF assms(1)] assms(2)] b
    by (simp add: handle_block_def submit_block_def Let_def)
qed

theorem mined_block_verifies_and_is_accepted_witness:
  "\<exists>h' b. mine_on val_alpaca (same_reply val_alpaca P_null STATUS_GOOD) sample_validator
      (pow_solver (\<lambda>_. zeros 32) (\<lambda>_. 0) (replicate 32 1)) 5 6 (sample_header 3) empty_host = (h', Inr (Some (b, True))) \<and>
    hdr_id (header b) = 4 \<and>
    pow_verify_solution (\<lambda>_. zeros 32) (input (header b)) (hash (header b)) (prev_hash (header b)) (difficulty (header b)) = Inr True"
proof -
  let ?rnd = "replicate 32 1 :: byte list"
  have "pow_solver (\<lambda>_. zeros 32) (\<lambda>_. 0) ?rnd (sample_key 7) 20 7000000 = Inr (zero_HashInput, attempt ?rnd 0)"
    using solve_loop_first [of 0 "\<lambda>_. zeros 32" "sample_key 7" 20 ?rnd 0 "\<lambda>_. 0" 1 7000000 ?rnd]
    by (simp add: pow_solver_def pow_solve_hash_def attempt_result_def check_zeros_20)
  moreover have "\<not> is_null_hash (attempt ?rnd 0)"
    using drop_attempt [of ?rnd 0] by (auto simp: is_null_hash_iff_zeros zeros_def)
  ultimately obtain h' b where run: "mine_on val_alpaca (same_reply val_alpaca P_null STATUS_GOOD) sample_validator
      (pow_solver (\<lambda>_. zeros 32) (\<lambda>_. 0) ?rnd) 5 6 (sample_header 3) empty_host = (h', Inr (Some (b, True)))"
    by (simp add: mine_on_def and_then_def request_difficulty_def request_txs_def create_block_def send_block_def val_trip
        sample_header_def BLOCK_TIME_def)
  have "hdr_id (sample_header 3) + 1 = 4" by (simp add: sample_header_def)
  then show ?thesis
    using mined_block_verifies_and_is_accepted [OF _ run] run by auto
qed

text \<open>
  What a validator pops is settled by its block: if the pool has nothing unconfirmed when the validator
  pops, the block built from the popped transactions holds at most \<open>BLOCK_SIZE\<close> of them with the reward,
  and confirming it leaves the pool with exactly the transactions that were not popped, in order.
\<close>

lemma popped_block_confirms_exactly:
  assumes "pool_exact p" "unconfirmed_queue p = []" "(zero_key, 0) \<notin> keys_of (submitted_queue p)"
    and "pop_transactions p data = (p1, (P_txs txs, STATUS_GOOD))"
    and "de_block A data' = new_block now1 now2 w prev inp sol d txs"
  shows "length (transactions (de_block A data')) \<le> BLOCK_SIZE \<and>
    submitted_queue (fst (confirm_transactions A p1 data')) = drop (BLOCK_SIZE - 1) (submitted_queue p) \<and>
    unconfirmed_queue (fst (confirm_transactions A p1 data')) = []"
proof -
  have txs: "txs = popped p" and p1: "unconfirmed_queue p1 = txs" "submitted_queue p1 = drop (BLOCK_SIZE - 1) (submitted_queue p)"
    using assms(2,4) by (auto simp: pop_transactions_eq)
  have sub: "keys_of txs \<subseteq> keys_of (submitted_queue p)"
    unfolding txs by (metis Un_upper1 keys_of_simps(3) popped_split)
  let ?K = "keys_of (transactions (de_block A data'))"
  have K: "?K = insert (zero_key, 0) (keys_of txs)" by (auto simp: assms(5) reward_key)
  obtain r u e where st: "settle ?K (unconfirmed_queue p1) = (r, u, e)" by (metis prod_cases3)
  have "distinct (map tx_key txs)"
    using assms(1) by (simp add: txs popped_def pool_exact_def take_map [symmetric])
  then obtain pre where "unconfirmed_queue p1 = pre @ u" "r = filter (\<lambda>t. tx_key t \<notin> ?K) pre"
    using settle_distinct [OF st] p1(1) by auto
  moreover have "u = []" using settle_drains [OF st] K p1(1) sub assms(3) by auto
  ultimately have "r = []" "u = []"
    unfolding K p1(1) by (auto simp: filter_empty_conv key_in_keys_of)
  moreover have "length (transactions (de_block A data')) \<le> BLOCK_SIZE"
    by (simp add: assms(5) txs popped_def BLOCK_SIZE_def)
  ultimately show ?thesis using confirm_transactions_settle [OF st] p1(2) by auto
qed

lemma popped_block_confirms_exactly_witness:
  "let p = empty_pool\<lparr>submitted_queue := [sample_tx 1 5 10], submitted_set := [sample_tx 1 5 10]\<rparr>;
       b = new_block 0 0 (val_wallet sample_validator) (sample_header 3) zero_HashInput zero_hash 20 [sample_tx 1 5 10]
   in submitted_queue (fst (confirm_transactions (sample_alpaca (sample_tx 1 5 10) b) (fst (pop_transactions p [])) [])) = []"
proof -
  let ?p = "empty_pool\<lparr>submitted_queue := [sample_tx 1 5 10], submitted_set := [sample_tx 1 5 10]\<rparr>"
  let ?b = "new_block 0 0 (val_wallet sample_validator) (sample_header 3) zero_HashInput zero_hash 20 [sample_tx 1 5 10]"
  have "pool_exact ?p" by (simp add: pool_exact_def pool_key_defs empty_pool_def uset_invar_def)
  moreover have "snd (pop_transactions ?p []) = (P_txs [sample_tx 1 5 10], STATUS_GOOD)"
    by (simp add: pop_transactions_eq popped_def BLOCK_SIZE_def)
  moreover have "(zero_key, 0) \<notin> keys_of (submitted_queue ?p)" by (simp add: sample_tx_def tx_key_def)
  ultimately show ?thesis
    using popped_block_confirms_exactly [of ?p "[]" "fst (pop_transactions ?p [])" "[sample_tx 1 5 10]"
        "sample_alpaca (sample_tx 1 5 10) ?b" "[]" 0 0 "val_wallet sample_validator" "sample_header 3" zero_HashInput zero_hash 20]
    by (simp add: Let_def empty_pool_def BLOCK_SIZE_def prod_eq_iff)
qed

text \<open>
  The validator never mines twice on the same header: in a run of its loop, as long as the chain has not
  reached the last 32-bit id, the ids of the headers it mined on strictly increase.
\<close>

lemma mined_headers_strictly_newer:
  assumes "validator_start A peers v junk rs h = Some (h', Inr hs)" "\<forall>hdr\<in>set hs. hdr_id hdr \<noteq> UINT32_MAX"
  shows "sorted_wrt (\<lambda>a b. hdr_id a < hdr_id b) hs"
proof -
  have rounds: "sorted_wrt (\<lambda>a b. hdr_id a < hdr_id b) hs \<and> (hdr_id cur \<noteq> UINT32_MAX \<longrightarrow> (\<forall>hdr\<in>set hs. hdr_id cur < hdr_id hdr))"
    if "validator_rounds A peers v cur rs h = Some (h', Inr hs)" "\<forall>hdr\<in>set hs. hdr_id hdr \<noteq> UINT32_MAX" for cur rs h h' hs
    using that
  proof (induction rs arbitrary: cur h hs)
    case (Cons x rs)
    obtain solve now1 now2 where x: "x = (solve, now1, now2)" by (cases x)
    obtain h1 hdr h2 m hs1 where 1: "poll_header A peers v cur h = Some (h1, Inr hdr)"
      "mine_on A peers v solve now1 now2 hdr h1 = (h2, Inr m)"
      "validator_rounds A peers v hdr rs h2 = Some (h', Inr hs1)" "hs = hdr # hs1"
      using Cons.prems(1) by (auto simp: x bind_result_eq_Inr split: option.splits prod.splits sum.splits)
    have "sorted_wrt (\<lambda>a b. hdr_id a < hdr_id b) hs1 \<and> (\<forall>g\<in>set hs1. hdr_id hdr < hdr_id g)"
      using Cons.IH [OF 1(3)] Cons.prems(2) by (simp add: 1(4))
    then show ?case
      using poll_header_newer [OF 1(1)] by (fastforce simp: 1(4) newer_def)
  qed simp
  obtain h1 cur where "validator_rounds A peers v cur rs h1 = Some (h', Inr hs)"
    using assms(1) by (auto simp: validator_start_def split: prod.splits sum.splits)
  then show ?thesis using rounds assms(2) by blast
qed

lemma mined_headers_strictly_newer_witness:
  "\<exists>h' hs. validator_start val_alpaca (same_reply val_alpaca P_null STATUS_GOOD) sample_validator (sample_header 9)
      [(\<lambda>_ _ _. Inr (zero_HashInput, zero_hash), 0, 0)] empty_host = Some (h', Inr hs) \<and> hs = [sample_header 1] \<and>
    sorted_wrt (\<lambda>a b. hdr_id a < hdr_id b) hs"
proof -
  obtain h' where run: "validator_start val_alpaca (same_reply val_alpaca P_null STATUS_GOOD) sample_validator (sample_header 9)
      [(\<lambda>_ _ _. Inr (zero_HashInput, zero_hash), 0, 0)] empty_host = Some (h', Inr [sample_header 1])"
    by (simp add: validator_start_def register_with_metronome_def and_then_def val_trip poll_header.simps val_header mine_on_def
        request_difficulty_def)
  show ?thesis
    using mined_headers_strictly_newer [OF run] run by (simp add: sample_header_def)
qed

end
