(* ===== verification/Mining.thy ===== *)
theory Mining
  imports Network_Properties Validator_Correct
begin

text \<open>
  Rounds of honest mining on the network: a validator pops transactions, submits the block it builds from them,
  and the pool confirms it. Each round is a run of the network, and enough rounds empty the pool.
\<close>

section \<open>A round\<close>

text \<open>What a validator brings to a round: its wallet, two clock readings, and the solution it found.\<close>

record mined =
  mined_wallet :: Wallet
  mined_time1 :: u64
  mined_time2 :: u64
  mined_input :: HashInput
  mined_solution :: Blake3Hash
  mined_difficulty :: u32

definition mined_block :: "mined \<Rightarrow> BlockHeader \<Rightarrow> Transaction list \<Rightarrow> Block" where
  "mined_block r prev txs =
     new_block (mined_time1 r) (mined_time2 r) (mined_wallet r) prev (mined_input r) (mined_solution r) (mined_difficulty r) txs"

text \<open>The exchange of messages of one round, by the handlers of the three nodes.\<close>

definition mining_round :: "alpaca \<Rightarrow> 'n yaml \<Rightarrow> mined \<Rightarrow> 'n network \<Rightarrow> 'n network result" where
  "mining_round A Y r s =
     (case pop_transactions (pool s) [] of
        (p1, (P_txs txs, _)) \<Rightarrow>
          let b = mined_block r (met_last_block (metro s)) txs; data = ser_payload A (P_block b) in
          bind_result (add_block A Y (\<lambda>_. Inr ()) (chain s) data) (\<lambda>(c', (_, ty)).
          bind_result (handle_block A (\<lambda>_. Inr ty) (metro s) data) (\<lambda>(m', _).
            Inr (s\<lparr>pool := fst (confirm_transactions A p1 data), chain := c', metro := m'\<rparr>)))
      | _ \<Rightarrow> Inl (Runtime_error ''unexpected reply''))"

fun mining_rounds :: "alpaca \<Rightarrow> 'n yaml \<Rightarrow> mined list \<Rightarrow> 'n network \<Rightarrow> 'n network result" where
  "mining_rounds A Y [] s = Inr s"
| "mining_rounds A Y (r # rs) s = bind_result (mining_round A Y r s) (mining_rounds A Y rs)"

section \<open>The pool in a round\<close>

text \<open>A key that is in the queue and in the block drops a transaction.\<close>

lemma settle_hits: "settle K q = (r, u, d) \<Longrightarrow> k \<in> K \<Longrightarrow> k \<in> keys_of q \<Longrightarrow> k \<in> keys_of d"
  by (induction rule: settle_induct) auto

text \<open>
  The miner's reward is in no queue, so the round settles the whole unconfirmed queue. What comes back are the
  transactions handed out earlier, and the further copies of the ones in the block, if some were posted repeatedly;
  at least one transaction leaves the pool if one was popped.
\<close>

lemma round_pool:
  assumes "(zero_key, 0) \<notin> keys_of (submitted_queue p) \<union> keys_of (unconfirmed_queue p)"
    and "pop_transactions p [] = (p1, (P_txs txs, st))" "de_block A data = b"
    and "keys_of (transactions b) = insert (zero_key, 0) (keys_of txs)"
  shows "unconfirmed_queue (fst (confirm_transactions A p1 data)) = []"
    and "length (submitted_queue (fst (confirm_transactions A p1 data))) + (if submitted_queue p = [] then 0 else 1) \<le>
      length (submitted_queue p) + length (unconfirmed_queue p)"
    and "pool_exact p \<Longrightarrow>
      submitted_queue (fst (confirm_transactions A p1 data)) = drop (BLOCK_SIZE - 1) (submitted_queue p) @ unconfirmed_queue p"
proof -
  have p1: "txs = popped p" "submitted_queue p1 = drop (BLOCK_SIZE - 1) (submitted_queue p)"
    "unconfirmed_queue p1 = unconfirmed_queue p @ popped p"
    using assms(2) by (auto simp: pop_transactions_eq)
  let ?K = "keys_of (transactions (de_block A data))"
  have K: "?K = insert (zero_key, 0) (keys_of (popped p))" using assms(3,4) p1(1) by simp
  have split: "keys_of (submitted_queue p) = keys_of (popped p) \<union> keys_of (drop (BLOCK_SIZE - 1) (submitted_queue p))"
    by (metis keys_of_simps(3) popped_split)
  then have zero: "(zero_key, 0) \<notin> keys_of (unconfirmed_queue p1)" using assms(1) p1(3) by auto
  obtain r u e where st: "settle ?K (unconfirmed_queue p1) = (r, u, e)" by (metis prod_cases3)
  have u: "u = []" using settle_drains [OF st] K zero by blast
  have q: "submitted_queue (fst (confirm_transactions A p1 data)) = drop (BLOCK_SIZE - 1) (submitted_queue p) @ r"
    "unconfirmed_queue (fst (confirm_transactions A p1 data)) = []"
    using confirm_transactions_settle [OF st] p1(2) u by auto
  then show "unconfirmed_queue (fst (confirm_transactions A p1 data)) = []" by simp
  have len: "length (unconfirmed_queue p1) = length r + length e"
    using arg_cong [OF settle_mset [OF st], of size] u by simp
  have e: "e \<noteq> []" if "submitted_queue p \<noteq> []"
  proof -
    have "popped p \<noteq> []" using that by (simp add: popped_def BLOCK_SIZE_def)
    then have "tx_key (hd (popped p)) \<in> ?K \<inter> keys_of (unconfirmed_queue p1)"
      using key_in_keys_of [OF hd_in_set] by (simp add: K p1(3))
    then show ?thesis using settle_hits [OF st, of "tx_key (hd (popped p))"] by auto
  qed
  have "length (submitted_queue p) = length (popped p) + length (drop (BLOCK_SIZE - 1) (submitted_queue p))"
    by (metis length_append popped_split)
  then show "length (submitted_queue (fst (confirm_transactions A p1 data))) + (if submitted_queue p = [] then 0 else 1) \<le>
      length (submitted_queue p) + length (unconfirmed_queue p)"
    using len e p1(3) by (cases e) (auto simp: q(1))
  show "submitted_queue (fst (confirm_transactions A p1 data)) = drop (BLOCK_SIZE - 1) (submitted_queue p) @ unconfirmed_queue p"
    if "pool_exact p"
  proof -
    have d: "distinct (map tx_key (submitted_queue p @ unconfirmed_queue p))" using that by (simp add: pool_exact_def)
    have "distinct (map tx_key (popped p))" using d by (simp add: popped_def take_map [symmetric])
    then have d1: "distinct (map tx_key (unconfirmed_queue p1))" and dis: "keys_of (unconfirmed_queue p) \<inter> keys_of (popped p) = {}"
      using d split by (auto simp: p1(3))
    have "r = filter (\<lambda>t. tx_key t \<notin> ?K) (unconfirmed_queue p @ popped p)"
      using settle_distinct [OF st d1] p1(3) u by auto
    moreover have "tx_key t \<notin> ?K" if "t \<in> set (unconfirmed_queue p)" for t
      using key_in_keys_of [OF that] dis zero by (auto simp: K p1(3))
    moreover have "tx_key t \<in> ?K" if "t \<in> set (popped p)" for t using key_in_keys_of [OF that] by (simp add: K)
    ultimately show ?thesis by (simp add: q(1) filter_id_conv filter_empty_conv)
  qed
qed

section \<open>A round is a run of the network\<close>

definition mined_ok :: "mined \<Rightarrow> bool" where
  "mined_ok r \<longleftrightarrow> length (pub_key (mined_wallet r)) = 32 \<and> length (fingerprint (mined_input r)) = 16 \<and>
     length (public_key (mined_input r)) = 32 \<and> length (mined_solution r) = 32"

text \<open>Transactions are decoded into arrays of their lengths, and so are all in the pool.\<close>

definition decodes_txs :: "alpaca \<Rightarrow> bool" where
  "decodes_txs A \<longleftrightarrow> (\<forall>data. tx_wf (de_tx A data))"

definition queue_wf :: "'n network \<Rightarrow> bool" where
  "queue_wf s \<longleftrightarrow> (\<forall>t\<in>set (submitted_queue (pool s)) \<union> set (unconfirmed_queue (pool s)). tx_wf t)"

lemma confirm_queue_wf:
  assumes "confirm_transactions A p data = (p', r)"
  shows "set (submitted_queue p') \<union> set (unconfirmed_queue p') \<subseteq> set (submitted_queue p) \<union> set (unconfirmed_queue p)"
proof -
  obtain r' u d where st: "settle (keys_of (transactions (de_block A data))) (unconfirmed_queue p) = (r', u, d)"
    by (metis prod_cases3)
  have "set (unconfirmed_queue p) = set r' \<union> set u \<union> set d"
    using arg_cong [OF settle_mset [OF st], of set_mset] by simp
  then show ?thesis using confirm_transactions_settle [OF st] assms by auto
qed

lemma net_step_queue_wf:
  assumes "net_step A Y ossl s t" "decodes_txs A" "queue_wf s"
  shows "queue_wf t"
  using assms(1)
proof (cases rule: net_step.cases)
  case (post data pad p')
  then show ?thesis using assms(2,3)
    by (auto simp: queue_wf_def decodes_txs_def add_transaction_def Let_def split: if_splits)
next
  case (post_bad pad data p')
  then show ?thesis using assms(3) by (auto simp: queue_wf_def add_transaction_def Let_def split: if_splits)
next
  case (pop data p' r)
  then show ?thesis using assms(3)
    by (fastforce simp: queue_wf_def pop_transactions_eq popped_def dest: in_set_takeD in_set_dropD)
next
  case (confirm b p' r)
  then show ?thesis using confirm_queue_wf [OF confirm(3)] assms(3) by (auto simp: queue_wf_def)
qed (use assms(3) in \<open>simp_all add: queue_wf_def\<close>)

lemma net_run_queue_wf: "net_run A Y ossl s t \<Longrightarrow> decodes_txs A \<Longrightarrow> queue_wf s \<Longrightarrow> queue_wf t"
  unfolding net_run_def by (induction rule: rtranclp_induct) (auto intro: net_step_queue_wf)

text \<open>A network between two rounds.\<close>

definition at_rest :: "'n network \<Rightarrow> bool" where
  "at_rest s \<longleftrightarrow> net_inv s \<and> queue_wf s \<and> in_flight s = None \<and> (zero_key, 0) \<notin># posted s"

lemma mined_block_wf:
  assumes "mined_ok r" "header_wf prev" "\<forall>t\<in>set txs. tx_wf t"
  shows "block_wf (mined_block r prev txs)"
  using assms
  by (auto simp: mined_block_def new_block_def block_wf_def header_wf_def mined_ok_def create_reward_transaction_def tx_wf_def)

lemma mining_round_run:
  assumes "at_rest s" "faithful A" "decodes_txs A" "mined_ok r"
  obtains u where "mining_round A Y r s = Inr u" "net_run A Y ossl s u" "at_rest u" "posted u = posted s"
    "unconfirmed_queue (pool u) = []" "length (blocks (chain u)) = length (blocks (chain s)) + 1"
    "length (submitted_queue (pool u)) + (if submitted_queue (pool s) = [] then 0 else 1) \<le>
      length (submitted_queue (pool s)) + length (unconfirmed_queue (pool s))"
    "posted_once (posted s) \<longrightarrow>
      submitted_queue (pool u) = drop (BLOCK_SIZE - 1) (submitted_queue (pool s)) @ unconfirmed_queue (pool s)"
proof -
  have inv: "net_inv s" "queue_wf s" "in_flight s = None" "(zero_key, 0) \<notin># posted s" using assms(1) by (simp_all add: at_rest_def)
  obtain p1 txs where pop: "pop_transactions (pool s) [] = (p1, (P_txs txs, STATUS_GOOD))" by (simp add: pop_transactions_eq)
  have txs: "txs = popped (pool s)" using pop by (simp add: pop_transactions_eq)
  let ?b = "mined_block r (met_last_block (metro s)) txs" and ?s1 = "s\<lparr>pool := p1\<rparr>"
  have "header_wf (met_last_block (metro s))" using inv(1) last_header_wf by (auto simp: net_inv_def)
  moreover have "\<forall>t\<in>set txs. tx_wf t" using inv(2) by (auto simp: txs popped_def queue_wf_def dest: in_set_takeD)
  ultimately have wf: "block_wf ?b" by (rule mined_block_wf [OF assms(4)])
  then have d: "de_block A (ser_payload A (P_block ?b)) = ?b" using assms(2) by (simp add: faithful_def received_block_def)
  have step1: "net_step A Y ossl s ?s1" by (rule net_step.pop [OF pop])
  have inv1: "net_inv ?s1" by (rule net_step_inv [OF step1 assms(2) inv(1)])
  have nxt: "hdr_id (header ?b) = hdr_id (header (last (blocks (chain ?s1)))) + 1"
    using inv(1) by (simp add: mined_block_def net_inv_def)
  have idle: "in_flight ?s1 = None" using inv(3) by simp
  obtain c' m' where 2: "blocks c' = blocks (chain ?s1) @ [?b]" "met_last_block m' = header ?b"
    "add_block A Y (\<lambda>_. Inr ()) (chain ?s1) (ser_payload A (P_block ?b)) = Inr (c', (P_null, STATUS_GOOD))"
    "handle_block A (\<lambda>_. Inr STATUS_GOOD) (metro ?s1) (ser_payload A (P_block ?b)) = Inr (m', (P_null, STATUS_GOOD))"
    "net_step A Y ossl ?s1 (?s1\<lparr>chain := c', metro := m', in_flight := Some ?b\<rparr>)"
    by (rule next_block_step [OF inv1 assms(2) idle wf nxt])
  obtain p2 r' where p2: "confirm_transactions A p1 (ser_payload A (P_block ?b)) = (p2, r')"
    by (cases "confirm_transactions A p1 (ser_payload A (P_block ?b))")
  let ?u = "s\<lparr>pool := p2, chain := c', metro := m'\<rparr>"
  have "net_step A Y ossl (?s1\<lparr>chain := c', metro := m', in_flight := Some ?b\<rparr>)
      ((?s1\<lparr>chain := c', metro := m', in_flight := Some ?b\<rparr>)\<lparr>pool := p2, in_flight := None\<rparr>)"
    by (rule net_step.confirm [where b = ?b and r = r']) (simp_all add: p2)
  also have "(?s1\<lparr>chain := c', metro := m', in_flight := Some ?b\<rparr>)\<lparr>pool := p2, in_flight := None\<rparr> = ?u" using inv(3) by simp
  finally have run: "net_run A Y ossl s ?u" using step1 2(5) unfolding net_run_def by (meson converse_rtranclp_into_rtranclp r_into_rtranclp)
  have rest: "at_rest ?u"
    using net_run_inv [OF run assms(2) inv(1)] net_run_queue_wf [OF run assms(3) inv(2)] inv(3,4) by (simp add: at_rest_def)
  have keys: "keys_of (transactions ?b) = insert (zero_key, 0) (keys_of txs)" by (auto simp: mined_block_def reward_key)
  have "(zero_key, 0) \<notin> keys_of (submitted_queue (pool s)) \<union> keys_of (unconfirmed_queue (pool s))"
    using queued_posted [OF inv(1)] inv(4) by blast
  note pool = round_pool [OF this pop d keys]
  have ex: "posted_once (posted s) \<longrightarrow> pool_exact (pool s)" using inv(1) by (simp add: net_inv_def)
  have "mining_round A Y r s = Inr ?u" using 2(3,4) by (simp add: mining_round_def pop Let_def p2)
  then show thesis using run rest ex pool p2 2(1) by (intro that [of ?u]) auto
qed

section \<open>Many rounds\<close>

lemma mining_rounds_drain:
  assumes "at_rest s" "faithful A" "decodes_txs A" "\<forall>r\<in>set rs. mined_ok r" "unconfirmed_queue (pool s) = []"
  shows "\<exists>u. mining_rounds A Y rs s = Inr u \<and> net_run A Y ossl s u \<and> at_rest u \<and> posted u = posted s \<and>
    unconfirmed_queue (pool u) = [] \<and> length (blocks (chain u)) = length (blocks (chain s)) + length rs \<and>
    length (submitted_queue (pool u)) \<le> length (submitted_queue (pool s)) - length rs \<and>
    (posted_once (posted s) \<longrightarrow> submitted_queue (pool u) = drop (length rs * (BLOCK_SIZE - 1)) (submitted_queue (pool s)))"
  using assms
proof (induction rs arbitrary: s)
  case Nil
  then show ?case by (simp add: net_run_def)
next
  case (Cons r rs)
  have "mined_ok r" using Cons.prems(4) by simp
  then obtain v where v: "mining_round A Y r s = Inr v" "net_run A Y ossl s v" "at_rest v" "posted v = posted s"
    "unconfirmed_queue (pool v) = []" "length (blocks (chain v)) = length (blocks (chain s)) + 1"
    "length (submitted_queue (pool v)) + (if submitted_queue (pool s) = [] then 0 else 1) \<le>
      length (submitted_queue (pool s)) + length (unconfirmed_queue (pool s))"
    "posted_once (posted s) \<longrightarrow>
      submitted_queue (pool v) = drop (BLOCK_SIZE - 1) (submitted_queue (pool s)) @ unconfirmed_queue (pool s)"
    by (rule mining_round_run [OF Cons.prems(1-3), where Y = Y and ossl = ossl])
  obtain u where u: "mining_rounds A Y rs v = Inr u" "net_run A Y ossl v u" "at_rest u" "posted u = posted v"
    "unconfirmed_queue (pool u) = []" "length (blocks (chain u)) = length (blocks (chain v)) + length rs"
    "length (submitted_queue (pool u)) \<le> length (submitted_queue (pool v)) - length rs"
    "posted_once (posted v) \<longrightarrow> submitted_queue (pool u) = drop (length rs * (BLOCK_SIZE - 1)) (submitted_queue (pool v))"
    using Cons.IH [OF v(3) Cons.prems(2,3) _ v(5)] Cons.prems(4) by auto
  have "net_run A Y ossl s u" using v(2) u(2) unfolding net_run_def by (rule rtranclp_trans)
  moreover have "length (submitted_queue (pool u)) \<le> length (submitted_queue (pool s)) - length (r # rs)"
    using u(7) v(7) Cons.prems(5) by (auto split: if_splits)
  ultimately show ?case using v(1,4,6,8) u(1,3-6,8) Cons.prems(5) by (intro exI [of _ u]) (simp add: add.commute)
qed

text \<open>The queues hold no more transactions than were posted.\<close>

lemma queues_bounded:
  assumes "net_inv s"
  shows "length (submitted_queue (pool s)) + length (unconfirmed_queue (pool s)) \<le> size (posted s)"
  using size_mset_mono [of "queued (pool s)" "posted s"] assms by (simp add: net_inv_def queued_def)

section \<open>Properties\<close>

text \<open>
  C5. Honest mining confirms everything: from every reachable state in which no confirmation is on its way, any
  sequence of rounds, whatever solutions and clock readings they bring, goes through, extends the chain by one
  block each and is a run of the network; and enough rounds leave both queues empty and the status of every
  accepted transaction CONFIRMED, also of those that a validator popped before and never mined. If no key was
  posted twice, enough is one round more than it takes to hand out all waiting transactions, \<open>BLOCK_SIZE - 1\<close> per
  round; with repetitions, whose further copies come back to the queue, enough is one round more than there are
  waiting transactions. The key of a miner's reward, of the zero key and id 0, must not have been posted.
\<close>

theorem mining_rounds_confirm_everything:
  assumes "new_BlockChain Y fs config_file = Inr bc0" "start_chain Y junk bc0 = Inr bc" "faithful A" "decodes_txs A"
    and "net_run A Y ossl (net_start bc prev cur) t" "in_flight t = None" "(zero_key, 0) \<notin># posted t"
    and "\<forall>r\<in>set rs. mined_ok r" "rs \<noteq> []"
    and "length (submitted_queue (pool t)) + length (unconfirmed_queue (pool t)) \<le>
      (length rs - 1) * (if posted_once (posted t) then BLOCK_SIZE - 1 else 1)"
  shows "\<exists>u. mining_rounds A Y rs t = Inr u \<and> net_run A Y ossl t u \<and> length (blocks (chain u)) = length (blocks (chain t)) + length rs \<and>
    submitted_queue (pool u) = [] \<and> unconfirmed_queue (pool u) = [] \<and>
    (\<forall>data. de_txkey A data \<in># posted t \<longrightarrow>
       query_tx_status A (\<lambda>k. Inr (status_in_blocks k (blocks (chain u)))) (pool u) data =
         Inr (pool u, (P_status CONFIRMED, STATUS_GOOD)))"
proof -
  have "queue_wf t"
    by (rule net_run_queue_wf [OF assms(5,4)]) (simp add: queue_wf_def net_start_def empty_pool_def)
  then have rest: "at_rest t" using reached_inv(1) [OF assms(1-3,5)] assms(6,7) by (simp add: at_rest_def)
  obtain r rs' where rs: "rs = r # rs'" using assms(9) by (cases rs) auto
  then have "mined_ok r" using assms(8) by simp
  then obtain v where v: "mining_round A Y r t = Inr v" "net_run A Y ossl t v" "at_rest v" "posted v = posted t"
    "unconfirmed_queue (pool v) = []" "length (blocks (chain v)) = length (blocks (chain t)) + 1"
    "length (submitted_queue (pool v)) + (if submitted_queue (pool t) = [] then 0 else 1) \<le>
      length (submitted_queue (pool t)) + length (unconfirmed_queue (pool t))"
    "posted_once (posted t) \<longrightarrow>
      submitted_queue (pool v) = drop (BLOCK_SIZE - 1) (submitted_queue (pool t)) @ unconfirmed_queue (pool t)"
    by (rule mining_round_run [OF rest assms(3,4), where Y = Y and ossl = ossl])
  obtain u where u: "mining_rounds A Y rs' v = Inr u" "net_run A Y ossl v u" "at_rest u" "posted u = posted v"
    "unconfirmed_queue (pool u) = []" "length (blocks (chain u)) = length (blocks (chain v)) + length rs'"
    "length (submitted_queue (pool u)) \<le> length (submitted_queue (pool v)) - length rs'"
    "posted_once (posted v) \<longrightarrow> submitted_queue (pool u) = drop (length rs' * (BLOCK_SIZE - 1)) (submitted_queue (pool v))"
    using mining_rounds_drain [OF v(3) assms(3,4) _ v(5), of rs' Y ossl] assms(8) rs by auto
  have run: "net_run A Y ossl t u" using v(2) u(2) unfolding net_run_def by (rule rtranclp_trans)
  have empty: "submitted_queue (pool u) = []"
  proof (cases "posted_once (posted t)")
    case True
    then show ?thesis using assms(10) u(8) v(4,8) by (simp add: rs)
  next
    case False
    then show ?thesis using assms(10) u(7) v(7) by (simp add: rs split: if_splits)
  qed
  have inv: "net_inv u" using u(3) by (simp add: at_rest_def)
  then have keys: "submitted_keys (pool u) = {}" "unconfirmed_keys (pool u) = {}" "set_mset (posted t) \<subseteq> chain_keys (chain u)"
    using empty u(4,5) v(4) by (auto simp: net_inv_def pool_wf_def)
  have "query_tx_status A (\<lambda>k. Inr (status_in_blocks k (blocks (chain u)))) (pool u) data =
      Inr (pool u, (P_status CONFIRMED, STATUS_GOOD))" if "de_txkey A data \<in># posted t" for data
  proof -
    have "status_in_blocks (de_txkey A data) (blocks (chain u)) = CONFIRMED"
      using that keys(3) by (auto simp: status_in_blocks_eq in_chain_keys)
    then show ?thesis using keys(1,2)
      by (simp add: query_tx_status_def Let_def uset_contains_key submitted_keys_def unconfirmed_keys_def)
  qed
  then show ?thesis using v(1,6) u(1,5,6) run empty rs by (intro exI [of _ u]) simp
qed

definition sample_mined :: mined where
  "sample_mined =
     \<lparr>mined_wallet = val_wallet sample_validator, mined_time1 = 5, mined_time2 = 6, mined_input = zero_HashInput,
      mined_solution = sample_key 3, mined_difficulty = 20\<rparr>"

theorem mining_rounds_confirm_everything_witness:
  "\<exists>(t :: snode network) u. posted t = {#tx_key run_tx#} \<and> blocks (chain t) = [genesis_block] \<and>
     mining_rounds codec_alpaca sample_yaml [sample_mined, sample_mined] t = Inr u \<and> length (blocks (chain u)) = 3 \<and>
     query_tx_status codec_alpaca (\<lambda>k. Inr (status_in_blocks k (blocks (chain u)))) (pool u)
       (ser_payload codec_alpaca (P_txkey (tx_key run_tx))) = Inr (pool u, (P_status CONFIRMED, STATUS_GOOD))"
proof -
  obtain bc t where t: "start_chain sample_yaml 0 genesis_node_state = Inr bc"
    "net_run codec_alpaca sample_yaml accepting_openssl (net_start bc 0 0) t"
    "posted t = {#tx_key run_tx#}" "in_flight t = None" "chain t = bc" "blocks bc = [genesis_block]"
    using genesis_posted [of 0] by auto
  have ok: "\<forall>r\<in>set [sample_mined, sample_mined]. mined_ok r"
    by (simp add: mined_ok_def sample_mined_def sample_validator_def zero_HashInput_def)
  have txs: "decodes_txs codec_alpaca"
    by (simp add: decodes_txs_def codec_alpaca_def Let_def sample_tx_def tx_wf_def)
  have zero: "(zero_key, 0) \<notin># posted t" by (simp add: t(3) run_tx_def sample_tx_def tx_key_def)
  have "length (submitted_queue (pool t)) + length (unconfirmed_queue (pool t)) \<le> 1"
    using queues_bounded [OF reached_inv(1) [OF genesis_new t(1) codec_faithful t(2)]] t(3) by simp
  then have few: "length (submitted_queue (pool t)) + length (unconfirmed_queue (pool t)) \<le>
      (length [sample_mined, sample_mined] - 1) * (if posted_once (posted t) then BLOCK_SIZE - 1 else 1)" by (simp add: BLOCK_SIZE_def)
  have k: "de_txkey codec_alpaca (ser_payload codec_alpaca (P_txkey (tx_key run_tx))) = tx_key run_tx"
    using codec_sel(3) [of "src run_tx" "tx_id run_tx"] run_wf(1) by (simp add: tx_key_def tx_wf_def)
  from mining_rounds_confirm_everything [OF genesis_new t(1) codec_faithful txs t(2,4) zero ok _ few] show ?thesis
    using t(3,5,6) k by (fastforce simp del: mining_rounds.simps)
qed

end
