(* ===== verification/Transactions.thy ===== *)
theory Transactions
  imports Samples
begin

text \<open>
  Properties of signing and verifying transactions, src/transaction.cpp and src/keys.cpp. What OpenSSL
  promises is a hypothesis: verification of a signature with the key of its pair returns 1.
\<close>

section \<open>Signature schemes\<close>

text \<open>\<open>EVP_DigestVerify\<close> returns 1 for the signature that the private key gives the message.\<close>

definition key_pair :: "openssl \<Rightarrow> Wallet \<Rightarrow> bool" where
  "key_pair ossl w \<longleftrightarrow>
     (\<forall>m. evp_digest_verify ossl (pub_key w) (evp_digest_sign ossl (priv_key w) m) m = 1)"

text \<open>
  It returns 0 for the signature of \<open>m\<close> on every other message. This is asked of one message at a time: with
  signatures of 64 bytes no scheme can do it for all messages at once.
\<close>

definition binding_pair :: "openssl \<Rightarrow> Wallet \<Rightarrow> byte list \<Rightarrow> bool" where
  "binding_pair ossl w m \<longleftrightarrow>
     (\<forall>m'. m' \<noteq> m \<longrightarrow> evp_digest_verify ossl (pub_key w) (evp_digest_sign ossl (priv_key w) m) m' = 0)"

lemma verify_signed_bytes:
  "verify_transaction_signature ossl pad tx \<longleftrightarrow>
     evp_digest_verify ossl (src tx) (signature tx) (signed_bytes pad tx) \<noteq> 0"
  by (simp add: verify_iff signed_bytes_def)

text \<open>The signed bytes determine every field except the signature.\<close>

lemma signed_bytes_inj:
  assumes "length (src t) = 32" "length (dest t) = 32" "length (src t') = 32" "length (dest t') = 32"
    "length pad = 4" "length pad' = 4"
  shows "signed_bytes pad t = signed_bytes pad' t' \<longleftrightarrow> pad = pad' \<and> t\<lparr>signature := zeros 64\<rparr> = t'\<lparr>signature := zeros 64\<rparr>"
  unfolding signed_bytes_def using assms by (intro tx_bytes_inj_iff) (simp_all add: tx_wf_def)

lemma verify_of_created:
  "verify_transaction_signature ossl pad (create_transaction ossl pad' now w d a i) \<longleftrightarrow>
     evp_digest_verify ossl (pub_key w)
       (evp_digest_sign ossl (priv_key w) (signed_bytes pad' (create_transaction ossl pad' now w d a i)))
       (signed_bytes pad (create_transaction ossl pad' now w d a i)) \<noteq> 0"
  by (simp only: verify_signed_bytes create_transaction_sel signature_create_transaction [symmetric])

text \<open>
  A scheme for evaluation, in which one message has a signature of its own and all others share another:
  a pair is correct, and binding for that message.
\<close>

definition marking_openssl :: "byte list \<Rightarrow> openssl" where
  "marking_openssl m0 =
     (let f = (\<lambda>m. replicate 64 (if m = m0 then 1 else 0))
      in \<lparr>evp_digest_sign = (\<lambda>priv m. f m), evp_digest_verify = (\<lambda>pub sig m. if sig = f m then 1 else 0)\<rparr>)"

lemma marking_pairs: "key_pair (marking_openssl m) w" "binding_pair (marking_openssl m) w m"
  by (auto simp: key_pair_def binding_pair_def marking_openssl_def Let_def)

lemma length_marking: "length (evp_digest_sign (marking_openssl m0) priv m) = 64"
  by (simp add: marking_openssl_def Let_def)

text \<open>What is signed does not depend on the library.\<close>

lemma signed_bytes_created:
  "signed_bytes pad (create_transaction ossl pad' now w d a i) =
     tx_bytes pad \<lparr>src = pub_key w, dest = d, signature = zeros 64, tx_id = i, amount = a, tx_timestamp = now\<rparr>"
  by (simp add: signed_bytes_def create_transaction_def sign_transaction_def Let_def)

definition sample_wallet :: Wallet where
  "sample_wallet = \<lparr>priv_key = sample_key 1, pub_key = sample_key 2\<rparr>"

section \<open>Properties\<close>

text \<open>
  The signature also covers the four padding bytes of the structure, which no field determines: a
  transaction of the signer's key with the signature of a created one is accepted exactly when the
  padding bytes of the verifier's copy are those of the signer's copy and all fields agree.
\<close>

lemma accepted_copies:
  assumes "key_pair ossl w" "binding_pair ossl w (signed_bytes pad (create_transaction ossl pad now w d a i))"
    and "length (pub_key w) = 32" "length d = 32" "length pad = 4" "length pad' = 4"
    and "src t' = pub_key w" "length (dest t') = 32" "signature t' = signature (create_transaction ossl pad now w d a i)"
  shows "verify_transaction_signature ossl pad' t' \<longleftrightarrow>
    pad' = pad \<and> dest t' = d \<and> tx_id t' = i \<and> amount t' = a \<and> tx_timestamp t' = now"
proof -
  let ?t = "create_transaction ossl pad now w d a i"
  have "signature t' = evp_digest_sign ossl (priv_key w) (signed_bytes pad ?t)"
    using assms(9) signature_create_transaction [of ossl pad now w d a i] by simp
  then have "verify_transaction_signature ossl pad' t' \<longleftrightarrow> signed_bytes pad' t' = signed_bytes pad ?t"
    using assms(1,2) unfolding verify_signed_bytes assms(7) key_pair_def binding_pair_def by force
  also have "\<dots> \<longleftrightarrow> pad' = pad \<and> t'\<lparr>signature := zeros 64\<rparr> = ?t\<lparr>signature := zeros 64\<rparr>"
    using assms(3-8) by (subst signed_bytes_inj) simp_all
  also have "t'\<lparr>signature := zeros 64\<rparr> = ?t\<lparr>signature := zeros 64\<rparr> \<longleftrightarrow>
      dest t' = d \<and> tx_id t' = i \<and> amount t' = a \<and> tx_timestamp t' = now"
  proof -
    have "src ?t = pub_key w" "dest ?t = d" "tx_id ?t = i" "amount ?t = a" "tx_timestamp ?t = now" by simp_all
    then show ?thesis using assms(7) by (cases t', cases ?t) auto
  qed
  finally show ?thesis .
qed

text \<open>
  C31. What the pool's check makes of a created transaction and of copies that carry its signature, for a
  correct signature scheme that is binding for the signed bytes: the transaction that
  \<open>create_transaction\<close> made is accepted exactly when the four padding bytes of the verifier's copy, which
  the code does not initialise, are those of the signer's copy; and any transaction of the signer's key with
  that signature is accepted exactly when besides the padding the destination, the id, the amount and the time
  are the ones that were signed.
\<close>

theorem created_transactions_verify_and_bind:
  assumes "key_pair ossl w" "binding_pair ossl w (signed_bytes pad t)"
    and "length (pub_key w) = 32" "length d = 32" "length pad = 4" "length pad' = 4"
    and "t = create_transaction ossl pad now w d a i"
    and "src t' = pub_key w" "length (dest t') = 32" "signature t' = signature t"
  shows "(verify_transaction_signature ossl pad' t \<longleftrightarrow> pad' = pad) \<and>
    (verify_transaction_signature ossl pad' t' \<longleftrightarrow>
       pad' = pad \<and> dest t' = d \<and> tx_id t' = i \<and> amount t' = a \<and> tx_timestamp t' = now)"
  using accepted_copies [OF assms(1) assms(2) [unfolded assms(7)] assms(3-6), of t]
    accepted_copies [OF assms(1) assms(2) [unfolded assms(7)] assms(3-6,8,9)] assms(4,10)
  by (simp add: assms(7))

theorem created_transactions_verify_and_bind_witness:
  "\<exists>ossl. let t = create_transaction ossl (zeros 4) 5 sample_wallet (sample_key 9) 10 1 in
     verify_transaction_signature ossl (zeros 4) t \<and>
     \<not> verify_transaction_signature ossl [0, 0, 0, 1] t \<and>
     \<not> verify_transaction_signature ossl (zeros 4) (t\<lparr>amount := 1000\<rparr>)"
proof -
  let ?m = "tx_bytes (zeros 4) \<lparr>src = pub_key sample_wallet, dest = sample_key 9, signature = zeros 64, tx_id = 1,
    amount = 10, tx_timestamp = 5\<rparr>"
  let ?t = "create_transaction (marking_openssl ?m) (zeros 4) 5 sample_wallet (sample_key 9) 10 1"
  have b: "binding_pair (marking_openssl ?m) sample_wallet (signed_bytes (zeros 4) ?t)"
    using marking_pairs(2) by (simp add: signed_bytes_created)
  have l: "length (pub_key sample_wallet) = 32" by (simp add: sample_wallet_def)
  have ne: "[0, 0, 0, 1 :: byte] \<noteq> zeros 4" by (simp add: zeros_def numeral_eq_Suc)
  note acc = created_transactions_verify_and_bind [OF marking_pairs(1) b l, of "sample_key 9"]
  show ?thesis
    using acc [of "zeros 4" 5 10 1 "?t\<lparr>amount := 1000\<rparr>"] acc [of "[0, 0, 0, 1]" 5 10 1 ?t] ne
    by (intro exI [of _ "marking_openssl ?m"]) (simp add: Let_def)
qed

text \<open>
  The result of \<open>EVP_DigestVerify\<close> is stored in a \<open>bool\<close>, so an error code is acceptance: whenever
  the library reports a negative value for a transaction, the pool's check accepts it.
\<close>

lemma openssl_error_accepts_transaction:
  assumes "evp_digest_verify ossl (src tx) (signature tx) (signed_bytes pad tx) < 0"
  shows "verify_transaction_signature ossl pad tx"
  using assms by (simp add: verify_signed_bytes)

lemma openssl_error_accepts_transaction_witness:
  "verify_transaction_signature failing_openssl (zeros 4) (sample_tx 1 7 20)"
  by (rule openssl_error_accepts_transaction) (simp add: failing_openssl_def)

end
