(* ===== verification/Client_Correct.thy ===== *)
theory Client_Correct
  imports Client Config_Correct TxPool_Correct Transactions Codec
begin

text \<open>
  Correctness of the wallet commands: what they send, how they move the transaction counter, and what
  becomes of a sent transaction in the pool.
\<close>

section \<open>Replies\<close>

text \<open>The reply of a server in state \<open>s\<close> to the parts of a request.\<close>

definition answer_parts :: "alpaca \<Rightarrow> ('s \<Rightarrow> Message \<Rightarrow> 's handled) \<Rightarrow> 's \<Rightarrow> byte list list \<Rightarrow> byte list list" where
  "answer_parts A handler s parts =
     (case bind_result (recv_message A parts) (handler s) of
        Inl _ \<Rightarrow> []
      | Inr (_, p, ty) \<Rightarrow> send_message A p ty)"

text \<open>What the wallet relies on: headers and transactions arrive as they were sent.\<close>

definition carries_txs :: "alpaca \<Rightarrow> bool" where
  "carries_txs A \<longleftrightarrow> (\<forall>hdr. de_header A (ser_header A hdr) = hdr) \<and>
     (\<forall>t. tx_wf t \<longrightarrow> de_tx A (ser_payload A (P_tx t)) = t)"

lemma codec_carries_txs: "carries_txs codec_alpaca"
proof -
  have "de_header codec_alpaca (ser_header codec_alpaca hdr) = hdr" for hdr
    using sample_header_roundtrip by (simp add: codec_alpaca_def)
  then show ?thesis by (simp add: carries_txs_def codec_sel)
qed

text \<open>The type of the reply to everything sent so far.\<close>

definition replied :: "alpaca \<Rightarrow> peers \<Rightarrow> wire \<Rightarrow> MessageType \<Rightarrow> bool" where
  "replied A peers w ty \<longleftrightarrow> length (peers w) = 2 \<and> msg_type (de_header A (peers w ! 0)) = ty"

definition sent :: "alpaca \<Rightarrow> Transaction \<Rightarrow> string \<Rightarrow> string \<times> byte list list" where
  "sent A tx addr = (addr, send_message A (P_tx tx) POST_TX)"

lemma submit_replied:
  assumes "replied A peers (host_wire h @ [sent A tx addr]) ty"
  shows "submit_transaction A peers tx addr h =
    (h\<lparr>host_wire := host_wire h @ [sent A tx addr]\<rparr>, Inr (if ty = STATUS_GOOD then 0 else - 1))"
  using assms by (simp add: submit_transaction_def and_then_def round_trip_def recv_payload_def replied_def sent_def Let_def)

section \<open>The loop of \<open>send multi\<close>\<close>

definition multi_txs ::
  "openssl \<Rightarrow> byte list \<Rightarrow> (nat \<Rightarrow> u64) \<Rightarrow> Wallet \<Rightarrow> Ed25519Key \<Rightarrow> u32 \<Rightarrow> u32 \<Rightarrow> nat \<Rightarrow> Transaction list" where
  "multi_txs ossl pad now w dst amt ident n =
     map (\<lambda>i. create_transaction ossl pad (now i) w dst amt (ucast (ident + of_nat i))) [0..<n]"

lemma multi_txs_Suc:
  "multi_txs ossl pad now w dst amt ident (Suc n) =
     multi_txs ossl pad now w dst amt ident n @ [create_transaction ossl pad (now n) w dst amt (ucast (ident + of_nat n))]"
  by (simp add: multi_txs_def)

definition posting :: "alpaca \<Rightarrow> string \<Rightarrow> wire \<Rightarrow> Transaction list \<Rightarrow> wire" where
  "posting A addr w txs = w @ map (\<lambda>t. sent A t addr) txs"

lemma posting_simps [simp]:
  "posting A addr w [] = w" "posting A addr w (txs @ [t]) = posting A addr w txs @ [sent A t addr]"
  by (simp_all add: posting_def)

lemma send_loop_good:
  assumes "\<And>j. j < m \<Longrightarrow> replied A peers (posting A addr (host_wire h) (multi_txs ossl pad now w dst amt ident (Suc j))) STATUS_GOOD"
    and "m \<le> k"
  shows "send_loop A ossl pad peers now w dst amt ident addr 0 k h =
    send_loop A ossl pad peers now w dst amt ident addr m (k - m)
      (h\<lparr>host_wire := posting A addr (host_wire h) (multi_txs ossl pad now w dst amt ident m)\<rparr>)"
  using assms
proof (induction m)
  case 0
  then show ?case by (simp add: multi_txs_def)
next
  case (Suc m)
  let ?tx = "create_transaction ossl pad (now m) w dst amt (ucast (ident + of_nat m))"
  let ?h = "h\<lparr>host_wire := posting A addr (host_wire h) (multi_txs ossl pad now w dst amt ident m)\<rparr>"
  have "k - m = Suc (k - Suc m)" using Suc.prems(2) by simp
  moreover have "submit_transaction A peers ?tx addr ?h =
      (h\<lparr>host_wire := posting A addr (host_wire h) (multi_txs ossl pad now w dst amt ident (Suc m))\<rparr>, Inr 0)"
    using submit_replied [of A peers ?h ?tx addr STATUS_GOOD] Suc.prems(1) [of m] by (simp add: multi_txs_Suc)
  ultimately have "send_loop A ossl pad peers now w dst amt ident addr m (k - m) ?h =
      send_loop A ossl pad peers now w dst amt ident addr (Suc m) (k - Suc m)
        (h\<lparr>host_wire := posting A addr (host_wire h) (multi_txs ossl pad now w dst amt ident (Suc m))\<rparr>)"
    by (simp add: and_then_def)
  then show ?case using Suc.IH Suc.prems by simp
qed

lemma send_loop_bad:
  assumes "replied A peers (posting A addr (host_wire h) (multi_txs ossl pad now w dst amt ident (Suc m))) STATUS_BAD"
  shows "send_loop A ossl pad peers now w dst amt ident addr m (Suc k)
      (h\<lparr>host_wire := posting A addr (host_wire h) (multi_txs ossl pad now w dst amt ident m)\<rparr>) =
    (h\<lparr>host_wire := posting A addr (host_wire h) (multi_txs ossl pad now w dst amt ident (Suc m)),
       host_console := host_console h @ line (''Transaction '' @ fmt_d (of_nat m) @ '' failed to post.'')\<rparr>, Inr False)"
proof -
  let ?tx = "create_transaction ossl pad (now m) w dst amt (ucast (ident + of_nat m))"
  let ?h = "h\<lparr>host_wire := posting A addr (host_wire h) (multi_txs ossl pad now w dst amt ident m)\<rparr>"
  have "submit_transaction A peers ?tx addr ?h =
      (h\<lparr>host_wire := posting A addr (host_wire h) (multi_txs ossl pad now w dst amt ident (Suc m))\<rparr>, Inr (- 1))"
    using submit_replied [of A peers ?h ?tx addr STATUS_BAD] assms by (simp add: multi_txs_Suc)
  then show ?thesis by (simp add: and_then_def)
qed

text \<open>A host whose files are set up for a wallet, with the parsed arguments of a send command.\<close>

definition ready :: "'n yaml \<Rightarrow> string \<Rightarrow> string \<Rightarrow> 'n host \<Rightarrow> Wallet \<Rightarrow> string \<Rightarrow> u64 \<Rightarrow> bool" where
  "ready Y config_file key_file h w addr n \<longleftrightarrow>
     load_wallet Y config_file key_file (host_files h) = Inr w \<and>
     get_tx_pool_address Y config_file (host_files h) = Inr addr \<and> nonce_stored Y config_file (host_files h) n"

lemma load_wallet_lengths:
  "load_wallet Y c k fs = Inr w \<Longrightarrow> length (pub_key w) = 32 \<and> length (priv_key w) = 32"
  by (auto simp: load_wallet_def bind_result_eq_Inr base58_decode_key_def intro: length_decode)

lemma ready_take:
  assumes "ready Y c k h w addr n"
  obtains fs' where "get_tx_id Y c (host_files h) = Inr (n, fs')" "ready Y c k (h\<lparr>host_files := fs'\<rparr>) w addr (n + 1)"
proof -
  have st: "nonce_stored Y c (host_files h) n" using assms by (simp add: ready_def)
  obtain fs' where fs': "get_tx_id Y c (host_files h) = Inr (n, fs')" "nonce_stored Y c fs' (n + 1)"
    "only_changes Y c nonce_path (host_files h) fs'"
    using get_tx_id_stored [OF st] by blast
  have "ready Y c k (h\<lparr>host_files := fs'\<rparr>) w addr (n + 1)"
    using assms fs'(2) only_changes_load_wallet [OF fs'(3)]
      only_changes_setting [OF fs'(3), of "[''tx_pool'', ''address'']"]
    by (simp add: ready_def get_tx_pool_address_def)
  then show thesis using that fs'(1) by blast
qed

text \<open>Being ready depends on the files only.\<close>

lemma ready_frame [simp, frame_simps]:
  "ready Y c k (h\<lparr>host_wire := wr\<rparr>) w addr n = ready Y c k h w addr n"
  "ready Y c k (h\<lparr>host_console := out\<rparr>) w addr n = ready Y c k h w addr n"
  "ready Y c k (h\<lparr>host_files := fs, host_wire := wr\<rparr>) w addr n = ready Y c k (h\<lparr>host_files := fs\<rparr>) w addr n"
  "ready Y c k (h\<lparr>host_files := fs, host_console := out\<rparr>) w addr n = ready Y c k (h\<lparr>host_files := fs\<rparr>) w addr n"
  by (simp_all add: ready_def)

text \<open>The transactions of a \<open>send multi\<close> and what it does after its loop.\<close>

abbreviation multi_posted ::
  "openssl \<Rightarrow> byte list \<Rightarrow> (nat \<Rightarrow> u64) \<Rightarrow> Wallet \<Rightarrow> Ed25519Key \<Rightarrow> int \<Rightarrow> u64 \<Rightarrow> nat \<Rightarrow> Transaction list" where
  "multi_posted ossl pad clock w dst amt n m \<equiv>
     multi_txs ossl pad (\<lambda>i. clock (Suc i)) w dst (word_of_int amt) (ucast n) m"

definition multi_end :: "'n yaml \<Rightarrow> (nat \<Rightarrow> u64) \<Rightarrow> string \<Rightarrow> int \<Rightarrow> u32 \<Rightarrow> bool \<Rightarrow> ('n, int) action" where
  "multi_end Y clock c cnt ident posted_all =
     (if \<not> posted_all then return_value (- 1)
      else and_then (prints (line (''Transactions submitted successfully! ['' @ fmt_lu (clock (Suc (nat cnt)) - clock 0) @ '' ms]''))) (\<lambda>_.
           and_then (writes (\<lambda>fs. bind_result (set_tx_id Y (ucast (ident + word_of_int cnt)) c fs) (\<lambda>fs'. Inr ((), fs'))))
             (\<lambda>_. return_value 0)))"

lemma send_multi_start:
  assumes "ready Y c k h w addr n" "base58_decode_key dst_text = Inr dst" "stoi amt_text = Inr amt" "stoi cnt_text = Inr cnt"
  obtains h1 where "ready Y c k h1 w addr (n + 1)" "host_wire h1 = host_wire h"
    "host_console h1 = host_console h @ line (''Submitting '' @ fmt_d (word_of_int cnt) @ '' transactions...'')"
    "cl_wallet_send_multi Y A ossl pad peers clock c k amt_text dst_text cnt_text h =
       and_then (send_loop A ossl pad peers (\<lambda>i. clock (Suc i)) w dst (word_of_int amt) (ucast n) addr 0 (nat cnt))
         (multi_end Y clock c cnt (ucast n)) h1"
proof -
  obtain fs' where fs': "get_tx_id Y c (host_files h) = Inr (n, fs')" "ready Y c k (h\<lparr>host_files := fs'\<rparr>) w addr (n + 1)"
    using ready_take [OF assms(1)] by blast
  show thesis
    using assms fs'
    by (intro that [of "h\<lparr>host_files := fs',
        host_console := host_console h @ line (''Submitting '' @ fmt_d (word_of_int cnt) @ '' transactions...'')\<rparr>"])
      (simp_all add: cl_wallet_send_multi_def ready_def Let_def multi_end_def [abs_def])
qed

text \<open>Both ways a run of the command ends: every reply good, or the one to transaction \<open>m\<close> bad.\<close>

lemma send_multi_good:
  assumes "ready Y c k h w addr n" "base58_decode_key dst_text = Inr dst" "stoi amt_text = Inr amt"
    and "stoi cnt_text = Inr (int m)"
    and "\<And>j. j < m \<Longrightarrow> replied A peers (posting A addr (host_wire h) (multi_posted ossl pad clock w dst amt n (Suc j))) STATUS_GOOD"
  obtains h' where "cl_wallet_send_multi Y A ossl pad peers clock c k amt_text dst_text cnt_text h = (h', Inr 0)"
    "ready Y c k h' w addr (ucast (ucast n + of_nat m :: u32))"
    "host_wire h' = posting A addr (host_wire h) (multi_posted ossl pad clock w dst amt n m)"
proof -
  obtain h1 where h1: "ready Y c k h1 w addr (n + 1)" "host_wire h1 = host_wire h"
    "cl_wallet_send_multi Y A ossl pad peers clock c k amt_text dst_text cnt_text h =
       and_then (send_loop A ossl pad peers (\<lambda>i. clock (Suc i)) w dst (word_of_int amt) (ucast n) addr 0 (nat (int m)))
         (multi_end Y clock c (int m) (ucast n)) h1"
    using send_multi_start [OF assms(1-4)] by blast
  let ?w = "posting A addr (host_wire h) (multi_posted ossl pad clock w dst amt n m)"
  have loop: "send_loop A ossl pad peers (\<lambda>i. clock (Suc i)) w dst (word_of_int amt) (ucast n) addr 0 m h1 =
      (h1\<lparr>host_wire := ?w\<rparr>, Inr True)"
    using send_loop_good [of m A peers addr h1 ossl pad "\<lambda>i. clock (Suc i)" w dst "word_of_int amt" "ucast n" m] assms(5) h1(2)
    by simp
  have st: "nonce_stored Y c (host_files h1) (n + 1)" using h1(1) by (simp add: ready_def)
  obtain fs' where fs': "set_tx_id Y (ucast (ucast n + of_nat m :: u32)) c (host_files h1) = Inr fs'"
    "nonce_stored Y c fs' (ucast (ucast n + of_nat m :: u32))" "only_changes Y c nonce_path (host_files h1) fs'"
    using set_tx_id_stored [OF st] by blast
  let ?out = "host_console h1 @ line (''Transactions submitted successfully! ['' @ fmt_lu (clock (Suc m) - clock 0) @ '' ms]'')"
  have "ready Y c k (h1\<lparr>host_wire := ?w, host_console := ?out, host_files := fs'\<rparr>) w addr (ucast (ucast n + of_nat m :: u32))"
    using h1(1) fs'(2) only_changes_load_wallet [OF fs'(3)] only_changes_setting [OF fs'(3), of "[''tx_pool'', ''address'']"]
    by (simp add: ready_def get_tx_pool_address_def)
  then show thesis
    using h1(3) loop fs'(1)
    by (intro that [of "h1\<lparr>host_wire := ?w, host_console := ?out, host_files := fs'\<rparr>"])
      (simp_all add: and_then_def multi_end_def)
qed

lemma send_multi_bad:
  assumes "ready Y c k h w addr n" "base58_decode_key dst_text = Inr dst" "stoi amt_text = Inr amt"
    and "stoi cnt_text = Inr cnt" "int m < cnt"
    and "\<And>j. j < m \<Longrightarrow> replied A peers (posting A addr (host_wire h) (multi_posted ossl pad clock w dst amt n (Suc j))) STATUS_GOOD"
    and "replied A peers (posting A addr (host_wire h) (multi_posted ossl pad clock w dst amt n (Suc m))) STATUS_BAD"
  obtains h' where "cl_wallet_send_multi Y A ossl pad peers clock c k amt_text dst_text cnt_text h = (h', Inr (- 1))"
    "ready Y c k h' w addr (n + 1)"
    "host_wire h' = posting A addr (host_wire h) (multi_posted ossl pad clock w dst amt n (Suc m))"
proof -
  obtain h1 where h1: "ready Y c k h1 w addr (n + 1)" "host_wire h1 = host_wire h"
    "cl_wallet_send_multi Y A ossl pad peers clock c k amt_text dst_text cnt_text h =
       and_then (send_loop A ossl pad peers (\<lambda>i. clock (Suc i)) w dst (word_of_int amt) (ucast n) addr 0 (nat cnt))
         (multi_end Y clock c cnt (ucast n)) h1"
    using send_multi_start [OF assms(1-4)] by blast
  let ?w = "posting A addr (host_wire h) (multi_posted ossl pad clock w dst amt n (Suc m))"
  let ?out = "host_console h1 @ line (''Transaction '' @ fmt_d (of_nat m) @ '' failed to post.'')"
  obtain r where r: "nat cnt = m + Suc r" using assms(5) by (metis add_Suc_right less_imp_Suc_add nat_int zless_nat_eq_int_zless)
  have "send_loop A ossl pad peers (\<lambda>i. clock (Suc i)) w dst (word_of_int amt) (ucast n) addr 0 (nat cnt) h1 =
      (h1\<lparr>host_wire := ?w, host_console := ?out\<rparr>, Inr False)"
    using send_loop_good [of m A peers addr h1 ossl pad "\<lambda>i. clock (Suc i)" w dst "word_of_int amt" "ucast n" "nat cnt"]
      send_loop_bad [of A peers addr h1 ossl pad "\<lambda>i. clock (Suc i)" w dst "word_of_int amt" "ucast n" m r] assms(6,7) h1(2) r
    by simp
  then show thesis
    using h1(1,3) by (intro that [of "h1\<lparr>host_wire := ?w, host_console := ?out\<rparr>"])
      (simp_all add: and_then_def multi_end_def ready_def)
qed

text \<open>A created transaction has arrays of the right lengths, and is accepted under the padding it was signed with.\<close>

lemma created_wf:
  assumes "length (pub_key w) = 32" "length d = 32" "length pad = 4"
    and "\<And>m. length m = sizeof_Transaction \<Longrightarrow> length (evp_digest_sign ossl (priv_key w) m) = 64"
  shows "tx_wf (create_transaction ossl pad now w d a i)"
proof -
  let ?tx = "create_transaction ossl pad now w d a i"
  have "length (signed_bytes pad ?tx) = sizeof_Transaction"
    using assms(1-3) length_tx_bytes [of "?tx\<lparr>signature := zeros 64\<rparr>" pad]
    unfolding signed_bytes_def by (simp add: tx_wf_def)
  then show ?thesis
    using assms signature_create_transaction [of ossl pad now w d a i] by (simp add: tx_wf_def)
qed

lemma created_accepted:
  assumes "key_pair ossl w" "pad' \<noteq> pad \<Longrightarrow> binding_pair ossl w (signed_bytes pad (create_transaction ossl pad now w d a i))"
    and "length (pub_key w) = 32" "length d = 32" "length pad = 4" "length pad' = 4"
  shows "verify_transaction_signature ossl pad' (create_transaction ossl pad now w d a i) \<longleftrightarrow> pad' = pad"
proof (cases "pad' = pad")
  case True
  then show ?thesis using assms(1) unfolding verify_of_created by (simp add: key_pair_def)
next
  case False
  from accepted_copies [OF assms(1) assms(2) [OF False] assms(3-6), of "create_transaction ossl pad now w d a i"]
  show ?thesis using assms(4) by simp
qed

section \<open>A concrete host\<close>

definition client_host :: "snode host" where
  "client_host = \<lparr>host_files = client_files, host_wire = [], host_console = []\<rparr>"

definition client_wallet :: Wallet where
  "client_wallet = \<lparr>priv_key = genesis_key, pub_key = genesis_key\<rparr>"

lemma client_ready:
  "ready sample_yaml ''dsc-config.yaml'' ''dsc-key.yaml'' client_host client_wallet ''tcp://127.0.0.1:10001'' 41"
  using client_nonce
  by (simp add: ready_def client_host_def load_wallet_def get_tx_pool_address_def setting_def LoadFile_def client_files_def
      client_config_def client_key_def decode_69 client_wallet_def)

lemma client_numbers: "stoi ''10'' = Inr 10" "stoi ''3'' = Inr 3" "base58_decode_key ''69'' = Inr genesis_key"
  by code_simp+

text \<open>Peers that give the \<open>n\<close>-th request the \<open>n\<close>-th of the given answers, and STATUS_GOOD afterwards.\<close>

definition scripted :: "alpaca \<Rightarrow> MessageType list \<Rightarrow> peers" where
  "scripted A tys w = send_message A P_null (if length w \<le> length tys then tys ! (length w - 1) else STATUS_GOOD)"

lemma scripted_replied:
  "carries_txs A \<Longrightarrow> replied A (scripted A tys) w (if length w \<le> length tys then tys ! (length w - 1) else STATUS_GOOD)"
  by (simp add: replied_def scripted_def send_message_def Let_def carries_txs_def)

lemma length_posting [simp]: "length (posting A addr w txs) = length w + length txs"
  by (simp add: posting_def)

lemma length_multi_txs [simp]: "length (multi_txs ossl pad now w dst amt ident n) = n"
  by (simp add: multi_txs_def)

section \<open>Properties\<close>

text \<open>
  C32. What becomes of a sent transaction: with a correct signature scheme and the pool at the configured
  address, \<open>wallet send\<close> moves the counter on by one and sends a request for the transaction with the wallet's
  key, the given destination and amount and the id that the counter gave. If the four padding bytes of the
  pool's copy are those of the wallet's copy, which the code leaves to chance, the pool appends the transaction
  to its submitted queue and the wallet reports success; if they are not, and the scheme is binding for the
  signed bytes, the pool refuses the transaction and stays as it was, and the wallet reports failure, with
  the counter moved on all the same.
\<close>

theorem wallet_send_reaches_pool:
  assumes "ready Y c k h w addr n" "base58_decode_key dst_text = Inr dst" "stoi amt_text = Inr amt"
    and "carries_txs A" "key_pair ossl w" "length pad = 4" "length pad' = 4"
    and "pad' \<noteq> pad \<Longrightarrow> binding_pair ossl w (signed_bytes pad (create_transaction ossl pad now w dst (word_of_int amt) n))"
    and "\<And>m. length m = sizeof_Transaction \<Longrightarrow> length (evp_digest_sign ossl (priv_key w) m) = 64"
    and "\<And>parts. peers (host_wire h @ [(addr, parts)]) = answer_parts A (pool_request_handler A ossl pad' ask) p parts"
  shows "\<exists>h' parts req p'.
    cl_wallet_send Y A ossl pad peers now c k amt_text dst_text h = (h', Inr (if pad' = pad then 0 else - 1)) \<and>
    nonce_stored Y c (host_files h') (n + 1) \<and> host_wire h' = host_wire h @ [(addr, parts)] \<and>
    recv_message A parts = Inr req \<and> msg_type (msg_header req) = POST_TX \<and>
    de_tx A (msg_data req) = create_transaction ossl pad now w dst (word_of_int amt) n \<and>
    pool_request_handler A ossl pad' ask p req = Inr (p', (P_null, if pad' = pad then STATUS_GOOD else STATUS_BAD)) \<and>
    (if pad' = pad
     then submitted_queue p' = submitted_queue p @ [create_transaction ossl pad now w dst (word_of_int amt) n]
     else p' = p)"
proof -
  let ?tx = "create_transaction ossl pad now w dst (word_of_int amt) n"
  let ?parts = "send_message A (P_tx ?tx) POST_TX" and ?st = "if pad' = pad then STATUS_GOOD else STATUS_BAD"
  obtain fs' where fs': "get_tx_id Y c (host_files h) = Inr (n, fs')" "ready Y c k (h\<lparr>host_files := fs'\<rparr>) w addr (n + 1)"
    using ready_take [OF assms(1)] by blast
  have len: "length (pub_key w) = 32" "length dst = 32"
    using load_wallet_lengths [of Y c k "host_files h" w] assms(1) length_decode [OF assms(2) [unfolded base58_decode_key_def]]
    by (simp_all add: ready_def)
  have wf: "tx_wf ?tx" by (rule created_wf [OF len assms(6,9)])
  have ver: "verify_transaction_signature ossl pad' ?tx \<longleftrightarrow> pad' = pad"
    by (rule created_accepted [OF assms(5,8) len assms(6,7)])
  obtain req where req: "recv_message A ?parts = Inr req" "msg_type (msg_header req) = POST_TX"
    "de_tx A (msg_data req) = ?tx"
    using assms(4) wf recv_send_message [of A "P_tx ?tx" POST_TX] by (simp add: carries_txs_def)
  obtain p' where p': "pool_request_handler A ossl pad' ask p req = Inr (p', (P_null, ?st))"
    "if pad' = pad then submitted_queue p' = submitted_queue p @ [?tx] else p' = p"
    using req ver by (cases "pad' = pad") (simp_all add: pool_request_handler_def add_transaction_def Let_def)
  obtain s d where enc: "base58_encode_key (pub_key w) = Inr s" "base58_encode_key dst = Inr d"
    using encode_total(1) [OF len(1)] encode_total(1) [OF len(2)] by blast
  let ?out = "host_console h @ line ''Creating transaction...'' @ transaction_text s d ?tx"
  let ?h = "h\<lparr>host_files := fs', host_console := ?out\<rparr>"
  have "replied A peers (host_wire h @ [sent A ?tx addr]) ?st"
    using assms(4,10) req(1) p'(1) by (simp add: replied_def sent_def answer_parts_def send_message_def Let_def carries_txs_def)
  then have sub: "submit_transaction A peers ?tx addr ?h =
      (?h\<lparr>host_wire := host_wire h @ [(addr, ?parts)]\<rparr>, Inr (if pad' = pad then 0 else - 1))"
    using submit_replied [of A peers ?h ?tx addr ?st] by (simp add: sent_def split: if_splits)
  let ?last = "if pad' = pad then ''Transaction submitted successfully!'' else ''Transaction failed to post.''"
  have "cl_wallet_send Y A ossl pad peers now c k amt_text dst_text h =
      (?h\<lparr>host_wire := host_wire h @ [(addr, ?parts)], host_console := ?out @ line ?last\<rparr>, Inr (if pad' = pad then 0 else - 1))"
    using assms(1-3) fs' enc sub by (cases "pad' = pad") (simp_all add: cl_wallet_send_def ready_def Let_def display_transaction_def)
  moreover have "nonce_stored Y c fs' (n + 1)" using fs'(2) by (simp add: ready_def)
  ultimately show ?thesis using req p' by (intro exI conjI) (assumption | simp)+
qed

text \<open>A wallet and a pool whose library singles out the message that the wallet signs.\<close>

definition client_openssl :: openssl where
  "client_openssl = marking_openssl (tx_bytes (zeros 4)
     \<lparr>src = pub_key client_wallet, dest = genesis_key, signature = zeros 64, tx_id = 41, amount = 10, tx_timestamp = 5\<rparr>)"

abbreviation sending_client :: "byte list \<Rightarrow> snode host \<Rightarrow> snode host \<times> int result" where
  "sending_client pad' \<equiv> cl_wallet_send sample_yaml codec_alpaca client_openssl (zeros 4)
     (\<lambda>w. answer_parts codec_alpaca (pool_request_handler codec_alpaca client_openssl pad' (\<lambda>_. Inr UNKNOWN)) empty_pool (snd (last w)))
     5 ''dsc-config.yaml'' ''dsc-key.yaml'' ''10'' ''69''"

theorem wallet_send_reaches_pool_witness:
  "(\<exists>h' parts req p'. sending_client (zeros 4) client_host = (h', Inr 0) \<and>
     host_wire h' = [(''tcp://127.0.0.1:10001'', parts)] \<and> recv_message codec_alpaca parts = Inr req \<and>
     pool_request_handler codec_alpaca client_openssl (zeros 4) (\<lambda>_. Inr UNKNOWN) empty_pool req = Inr (p', (P_null, STATUS_GOOD)) \<and>
     map tx_id (submitted_queue p') = [41]) \<and>
   (\<exists>h' req. sending_client [0, 0, 0, 1] client_host = (h', Inr (- 1)) \<and>
     pool_request_handler codec_alpaca client_openssl [0, 0, 0, 1] (\<lambda>_. Inr UNKNOWN) empty_pool req =
       Inr (empty_pool, (P_null, STATUS_BAD)))"
proof -
  have pair: "key_pair client_openssl client_wallet" by (simp add: client_openssl_def marking_pairs)
  have b: "binding_pair client_openssl client_wallet
      (signed_bytes (zeros 4) (create_transaction client_openssl (zeros 4) 5 client_wallet genesis_key (word_of_int 10) 41))"
    unfolding signed_bytes_created by (simp add: client_openssl_def marking_pairs)
  have ne: "[0, 0, 0, 1 :: byte] \<noteq> zeros 4" by (simp add: zeros_def numeral_eq_Suc)
  have send: "\<exists>h' parts req p'. sending_client pad' client_host = (h', Inr (if pad' = zeros 4 then 0 else - 1)) \<and>
     host_wire h' = [(''tcp://127.0.0.1:10001'', parts)] \<and> recv_message codec_alpaca parts = Inr req \<and>
     pool_request_handler codec_alpaca client_openssl pad' (\<lambda>_. Inr UNKNOWN) empty_pool req =
       Inr (p', (P_null, if pad' = zeros 4 then STATUS_GOOD else STATUS_BAD)) \<and>
     (if pad' = zeros 4 then map tx_id (submitted_queue p') = [41] else p' = empty_pool)" if "length pad' = 4" for pad'
    using wallet_send_reaches_pool [OF client_ready client_numbers(3,1) codec_carries_txs pair _ that b,
        where peers = "\<lambda>w. answer_parts codec_alpaca (pool_request_handler codec_alpaca client_openssl pad' (\<lambda>_. Inr UNKNOWN)) empty_pool (snd (last w))"
          and ask = "\<lambda>_. Inr UNKNOWN" and p = empty_pool] length_marking
    by (fastforce simp: client_host_def empty_pool_def client_openssl_def)
  show ?thesis using send [of "zeros 4"] send [of "[0, 0, 0, 1]"] ne by simp blast
qed

text \<open>
  When the pool accepts every transaction, \<open>send multi\<close> with a count of \<open>m\<close> posts exactly \<open>m\<close> transactions
  with the ids that follow the counter and leaves the counter behind the last of them, all modulo 2 to the 32:
  while the ids fit 32 bits they are consecutive and the next id is new, a larger counter is cut off.
\<close>

lemma send_multi_posts_consecutive_ids:
  assumes "ready Y c k h w addr n" "base58_decode_key dst_text = Inr dst" "stoi amt_text = Inr amt"
    and "stoi cnt_text = Inr (int m)"
    and "\<And>j. j < m \<Longrightarrow> replied A peers (posting A addr (host_wire h) (multi_posted ossl pad clock w dst amt n (Suc j))) STATUS_GOOD"
  shows "\<exists>h' txs. cl_wallet_send_multi Y A ossl pad peers clock c k amt_text dst_text cnt_text h = (h', Inr 0) \<and>
    host_wire h' = host_wire h @ map (\<lambda>t. (addr, send_message A (P_tx t) POST_TX)) txs \<and>
    map (\<lambda>t. unat (tx_id t)) txs = map (\<lambda>i. (unat n + i) mod 2 ^ 32) [0..<m] \<and>
    nonce_stored Y c (host_files h') (of_nat ((unat n + m) mod 2 ^ 32))"
proof -
  obtain h' where h': "cl_wallet_send_multi Y A ossl pad peers clock c k amt_text dst_text cnt_text h = (h', Inr 0)"
    "ready Y c k h' w addr (ucast (ucast n + of_nat m :: u32))"
    "host_wire h' = posting A addr (host_wire h) (multi_posted ossl pad clock w dst amt n m)"
    using send_multi_good [OF assms] by blast
  have id: "unat (ucast (ucast n + of_nat i :: u32) :: u64) = (unat n + i) mod 2 ^ 32" for i
    by (simp add: unsigned_ucast_eq take_bit_eq_mod unat_word_ariths unsigned_of_nat mod_simps)
  then have "(ucast (ucast n + of_nat m :: u32) :: u64) = of_nat ((unat n + m) mod 2 ^ 32)"
    by (simp only: id [symmetric] of_nat_unat ucast_id)
  then show ?thesis
    using h' id by (intro exI [of _ h'] exI [of _ "multi_posted ossl pad clock w dst amt n m"])
      (simp add: posting_def sent_def multi_txs_def ready_def comp_def)
qed

lemma send_multi_posts_consecutive_ids_witness:
  "\<exists>h'. cl_wallet_send_multi sample_yaml codec_alpaca sample_openssl (zeros 4) (scripted codec_alpaca []) (\<lambda>_. 5)
      ''dsc-config.yaml'' ''dsc-key.yaml'' ''10'' ''69'' ''3'' client_host = (h', Inr 0) \<and> length (host_wire h') = 3 \<and>
    nonce_stored sample_yaml ''dsc-config.yaml'' (host_files h') 44"
proof -
  have cnt: "stoi ''3'' = Inr (int 3)" using client_numbers(2) by simp
  have nonempty: "posting A addr w (multi_txs ossl pad now wl dst amt ident (Suc j)) \<noteq> []" for A addr w ossl pad now wl dst amt ident j
    by (simp add: multi_txs_Suc)
  have good: "replied codec_alpaca (scripted codec_alpaca []) w STATUS_GOOD" if "w \<noteq> []" for w
    using scripted_replied [OF codec_carries_txs, of "[]" w] that by simp
  show ?thesis
    using send_multi_posts_consecutive_ids [OF client_ready client_numbers(3,1) cnt good [OF nonempty],
        of sample_openssl "zeros 4" "\<lambda>_. 5"]
    by (auto simp: client_host_def dest!: map_eq_imp_length_eq)
qed

text \<open>
  C33. When the pool refuses the transaction with index \<open>m\<close> of a \<open>send multi\<close>, the command fails with the
  counter behind the first id only, although \<open>m\<close> transactions were accepted: for \<open>m\<close> of at least 2, the
  next command gets an id that an accepted transaction of this wallet already has.
\<close>

theorem failed_send_multi_reuses_ids:
  assumes "ready Y c k h w addr n" "base58_decode_key dst_text = Inr dst" "stoi amt_text = Inr amt"
    and "stoi cnt_text = Inr cnt" "2 \<le> m" "int m < cnt" "unat n + m < 2 ^ 32"
    and "\<And>j. j < m \<Longrightarrow> replied A peers (posting A addr (host_wire h) (multi_posted ossl pad clock w dst amt n (Suc j))) STATUS_GOOD"
    and "replied A peers (posting A addr (host_wire h) (multi_posted ossl pad clock w dst amt n (Suc m))) STATUS_BAD"
  shows "\<exists>h' fs' t. cl_wallet_send_multi Y A ossl pad peers clock c k amt_text dst_text cnt_text h = (h', Inr (- 1)) \<and>
    get_tx_id Y c (host_files h') = Inr (n + 1, fs') \<and>
    host_wire h' ! (length (host_wire h) + 1) = (addr, send_message A (P_tx t) POST_TX) \<and> tx_key t = (pub_key w, n + 1)"
proof -
  let ?txs = "multi_posted ossl pad clock w dst amt n"
  obtain h' where h': "cl_wallet_send_multi Y A ossl pad peers clock c k amt_text dst_text cnt_text h = (h', Inr (- 1))"
    "ready Y c k h' w addr (n + 1)" "host_wire h' = posting A addr (host_wire h) (?txs (Suc m))"
    using send_multi_bad [OF assms(1-4,6,8,9)] by blast
  obtain fs' where fs': "get_tx_id Y c (host_files h') = Inr (n + 1, fs')" using ready_take [OF h'(2)] by blast
  have at1: "?txs (Suc m) ! 1 = create_transaction ossl pad (clock (Suc 1)) w dst (word_of_int amt) (ucast (ucast n + 1 :: u32))"
    using assms(5) by (simp add: multi_txs_def del: upt_Suc)
  have "unat n + 1 < 2 ^ 32" using assms(5,7) by linarith
  then have "(ucast (ucast n + 1 :: u32) :: u64) = n + 1"
    by (simp add: word_unat_eq_iff unsigned_ucast_eq take_bit_eq_mod unat_word_ariths mod_simps)
  then show ?thesis
    using h'(1,3) fs' at1 assms(5)
    by (intro exI [of _ h'] exI [of _ fs'] exI [of _ "?txs (Suc m) ! 1"]) (simp add: posting_def nth_append sent_def tx_key_def)
qed

theorem failed_send_multi_reuses_ids_witness:
  "\<exists>h' fs' t. cl_wallet_send_multi sample_yaml codec_alpaca sample_openssl (zeros 4)
      (scripted codec_alpaca [STATUS_GOOD, STATUS_GOOD, STATUS_BAD]) (\<lambda>_. 5)
      ''dsc-config.yaml'' ''dsc-key.yaml'' ''10'' ''69'' ''3'' client_host = (h', Inr (- 1)) \<and>
    get_tx_id sample_yaml ''dsc-config.yaml'' (host_files h') = Inr (42, fs') \<and>
    host_wire h' ! 1 = (''tcp://127.0.0.1:10001'', send_message codec_alpaca (P_tx t) POST_TX) \<and> tx_key t = (genesis_key, 42)"
proof -
  let ?tys = "[STATUS_GOOD, STATUS_GOOD, STATUS_BAD]"
  have rep: "replied codec_alpaca (scripted codec_alpaca ?tys) w (?tys ! (length w - 1))" if "length w \<le> 3" for w
    using scripted_replied [OF codec_carries_txs, of ?tys w] that by simp
  let ?w = "\<lambda>j. posting codec_alpaca ''tcp://127.0.0.1:10001'' (host_wire client_host)
    (multi_posted sample_openssl (zeros 4) (\<lambda>_. 5) client_wallet genesis_key 10 41 (Suc j))"
  have len: "length (?w j) = Suc j" for j by (simp add: client_host_def)
  have good: "replied codec_alpaca (scripted codec_alpaca ?tys) (?w j) STATUS_GOOD" if "j < 2" for j
    using rep [of "?w j"] that unfolding len by (auto simp: less_2_cases_iff)
  have bad: "replied codec_alpaca (scripted codec_alpaca ?tys) (?w 2) STATUS_BAD"
    using rep [of "?w 2"] unfolding len by simp
  show ?thesis
    using failed_send_multi_reuses_ids [OF client_ready client_numbers(3,1,2) _ _ _ good bad]
    by (simp add: client_host_def client_wallet_def)
qed

end
