(* ===== verification/ThreadPool.thy ===== *)
theory ThreadPool
  imports Prelude
begin

text \<open>
  The thread pool of src/thread_pool.cpp as a step relation over the positions of its threads. A wait
  on the condition variable ends by a notification only; the C++ standard allows, but does not promise,
  that it also ends without one.
\<close>

section \<open>State\<close>

text \<open>
  A thread is about to take the lock, has found nothing to do and still holds the lock, sleeps on the
  condition variable, runs a job, or has returned.
\<close>

datatype thread_phase = Fetch | Will_wait | Asleep | Running nat | Exited

text \<open>
  The destructor has not begun, has set \<open>interrupt\<close>, has notified all and joins the threads, or has
  returned. \<open>pending\<close> counts calls of \<open>queue_job\<close> that have pushed their job and not notified yet;
  \<open>finished\<close> and \<open>pushed\<close> record the jobs that ran to their end and the jobs given to \<open>queue_job\<close>.
\<close>

datatype teardown = Alive | Interrupting | Joining | Gone

record thread_pool =
  work_queue :: "nat list"
  interrupt :: bool
  threads :: "thread_phase list"
  pending :: nat
  teardown_phase :: teardown
  finished :: "nat list"
  pushed :: "nat list"

definition new_ThreadPool :: "nat \<Rightarrow> thread_pool" where
  "new_ThreadPool n =
     \<lparr>work_queue = [], interrupt = False, threads = replicate n Fetch, pending = 0, teardown_phase = Alive, finished = [],
      pushed = []\<rparr>"

text \<open>Only a thread between its test and its wait keeps \<open>queue_lock\<close> over a step.\<close>

definition lock_free :: "thread_pool \<Rightarrow> bool" where
  "lock_free s \<longleftrightarrow> Will_wait \<notin> set (threads s)"

definition wake :: "thread_phase \<Rightarrow> thread_phase" where
  "wake p = (if p = Asleep then Fetch else p)"

section \<open>Steps\<close>

inductive pool_step :: "thread_pool \<Rightarrow> thread_pool \<Rightarrow> bool" where
  take_job: "i < length (threads s) \<Longrightarrow> threads s ! i = Fetch \<Longrightarrow> lock_free s \<Longrightarrow> \<not> interrupt s \<Longrightarrow>
     work_queue s = j # q \<Longrightarrow> pool_step s (s\<lparr>threads := (threads s)[i := Running j], work_queue := q\<rparr>)"
| leave: "i < length (threads s) \<Longrightarrow> threads s ! i = Fetch \<Longrightarrow> lock_free s \<Longrightarrow> interrupt s \<Longrightarrow>
     pool_step s (s\<lparr>threads := (threads s)[i := Exited]\<rparr>)"
| nothing_to_do: "i < length (threads s) \<Longrightarrow> threads s ! i = Fetch \<Longrightarrow> lock_free s \<Longrightarrow> \<not> interrupt s \<Longrightarrow>
     work_queue s = [] \<Longrightarrow> pool_step s (s\<lparr>threads := (threads s)[i := Will_wait]\<rparr>)"
| fall_asleep: "i < length (threads s) \<Longrightarrow> threads s ! i = Will_wait \<Longrightarrow>
     pool_step s (s\<lparr>threads := (threads s)[i := Asleep]\<rparr>)"
| end_job: "i < length (threads s) \<Longrightarrow> threads s ! i = Running j \<Longrightarrow>
     pool_step s (s\<lparr>threads := (threads s)[i := Fetch], finished := finished s @ [j]\<rparr>)"
| push: "lock_free s \<Longrightarrow> teardown_phase s = Alive \<Longrightarrow>
     pool_step s (s\<lparr>work_queue := work_queue s @ [j], pending := Suc (pending s), pushed := pushed s @ [j]\<rparr>)"
| notify_one: "pending s = Suc n \<Longrightarrow> i < length (threads s) \<Longrightarrow> threads s ! i = Asleep \<Longrightarrow>
     pool_step s (s\<lparr>threads := (threads s)[i := Fetch], pending := n\<rparr>)"
| notify_none: "pending s = Suc n \<Longrightarrow> Asleep \<notin> set (threads s) \<Longrightarrow> pool_step s (s\<lparr>pending := n\<rparr>)"
| set_interrupt: "teardown_phase s = Alive \<Longrightarrow> pending s = 0 \<Longrightarrow>
     pool_step s (s\<lparr>interrupt := True, teardown_phase := Interrupting\<rparr>)"
| notify_all: "teardown_phase s = Interrupting \<Longrightarrow>
     pool_step s (s\<lparr>threads := map wake (threads s), teardown_phase := Joining\<rparr>)"
| join_all: "teardown_phase s = Joining \<Longrightarrow> set (threads s) \<subseteq> {Exited} \<Longrightarrow>
     pool_step s (s\<lparr>threads := [], work_queue := [], teardown_phase := Gone\<rparr>)"

inductive pool_reach :: "nat \<Rightarrow> thread_pool \<Rightarrow> bool" for n where
  reach_new: "pool_reach n (new_ThreadPool n)"
| reach_step: "pool_reach n s \<Longrightarrow> pool_step s t \<Longrightarrow> pool_reach n t"

inductive_cases pool_stepE: "pool_step s t"

section \<open>No job is lost\<close>

definition running :: "thread_phase list \<Rightarrow> nat multiset" where
  "running ts = mset (concat (map (\<lambda>p. case p of Running j \<Rightarrow> [j] | _ \<Rightarrow> []) ts))"

lemma running_Nil [simp]: "running [] = {#}"
  by (simp add: running_def)

lemma running_Cons [simp]:
  "running (p # ts) = (case p of Running j \<Rightarrow> {#j#} | _ \<Rightarrow> {#}) + running ts"
  by (simp add: running_def split: thread_phase.split)

lemma running_update:
  "i < length ts \<Longrightarrow> running (ts[i := p]) + running [ts ! i] = running ts + running [p]"
proof (induction ts arbitrary: i)
  case (Cons q ts)
  then show ?case by (cases i) (auto simp: ac_simps split: thread_phase.splits)
qed simp

lemma running_wake: "running (map wake ts) = running ts"
  by (induction ts) (auto simp: wake_def split: thread_phase.splits)

text \<open>The jobs that were pushed: queued, running or finished.\<close>

definition all_jobs :: "thread_pool \<Rightarrow> nat multiset" where
  "all_jobs s = mset (work_queue s) + running (threads s) + mset (finished s)"

text \<open>
  While the pool is not torn down no job waits unnoticed: when there is work, some thread is about to
  look for it, or runs a job and will look then, or a notification is still to come. A thread that holds
  the lock over a step has seen an empty queue.
\<close>

definition work_noticed :: "thread_pool \<Rightarrow> bool" where
  "work_noticed s \<longleftrightarrow>
     (teardown_phase s = Alive \<longrightarrow> \<not> interrupt s \<and> Exited \<notin> set (threads s)) \<and>
     (Will_wait \<in> set (threads s) \<longrightarrow> teardown_phase s = Alive \<longrightarrow> work_queue s = []) \<and>
     (teardown_phase s = Alive \<longrightarrow> work_queue s \<noteq> [] \<longrightarrow> threads s \<noteq> [] \<longrightarrow>
        0 < pending s \<or> (\<exists>p\<in>set (threads s). p = Fetch \<or> (\<exists>j. p = Running j)))"

lemma pool_step_noticed: "pool_step s t \<Longrightarrow> work_noticed s \<Longrightarrow> work_noticed t"
proof (induction rule: pool_step.induct)
  case (take_job i s j q)
  then have "\<exists>p\<in>set ((threads s)[i := Running j]). p = Fetch \<or> (\<exists>j. p = Running j)"
    using in_set_update [of i "threads s" "Running j"] by blast
  then show ?case using take_job
    by (auto simp: work_noticed_def lock_free_def dest!: set_update_cases)
next
  case (nothing_to_do i s)
  then show ?case by (auto simp: work_noticed_def dest!: set_update_cases)
next
  case (fall_asleep i s)
  then have "Will_wait \<in> set (threads s)" by (metis nth_mem)
  then show ?case using fall_asleep by (auto simp: work_noticed_def dest!: set_update_cases)
next
  case (end_job i s j)
  then have "\<exists>p\<in>set ((threads s)[i := Fetch]). p = Fetch \<or> (\<exists>j. p = Running j)"
    using in_set_update [of i "threads s" Fetch] by blast
  then show ?case using end_job
    by (auto simp: work_noticed_def dest!: set_update_cases)
next
  case (notify_one s n i)
  then have "\<exists>p\<in>set ((threads s)[i := Fetch]). p = Fetch \<or> (\<exists>j. p = Running j)"
    using in_set_update [of i "threads s" Fetch] by blast
  then show ?case using notify_one
    by (auto simp: work_noticed_def dest!: set_update_cases)
next
  case (notify_none s n)
  show ?case
  proof (cases "threads s = []")
    case False
    then obtain p where p: "p \<in> set (threads s)" by (cases "threads s") auto
    have "p \<noteq> Asleep" using p notify_none.hyps(2) by auto
    then show ?thesis using notify_none p by (cases p) (auto simp: work_noticed_def)
  qed (use notify_none in \<open>auto simp: work_noticed_def\<close>)
qed (auto simp: work_noticed_def lock_free_def dest!: set_update_cases)

text \<open>Every pushed job is queued, running or finished, and the queue is the end of what was pushed.\<close>

definition jobs_kept :: "nat \<Rightarrow> thread_pool \<Rightarrow> bool" where
  "jobs_kept n s \<longleftrightarrow> teardown_phase s \<noteq> Gone \<longrightarrow>
     all_jobs s = mset (pushed s) \<and> (\<exists>taken. pushed s = taken @ work_queue s) \<and> length (threads s) = n"

lemma pool_step_jobs: "pool_step s t \<Longrightarrow> jobs_kept n s \<Longrightarrow> jobs_kept n t"
proof (induction rule: pool_step.induct)
  case (take_job i s j q)
  have r: "running ((threads s)[i := Running j]) = running (threads s) + {#j#}"
    using running_update [of i "threads s" "Running j"] take_job by simp
  show ?case
    unfolding jobs_kept_def
  proof (intro impI conjI)
    assume "teardown_phase (s\<lparr>threads := (threads s)[i := Running j], work_queue := q\<rparr>) \<noteq> Gone"
    then have k: "all_jobs s = mset (pushed s)" "\<exists>taken. pushed s = taken @ j # q" "length (threads s) = n"
      using take_job by (simp_all add: jobs_kept_def)
    then show "all_jobs (s\<lparr>threads := (threads s)[i := Running j], work_queue := q\<rparr>) =
        mset (pushed (s\<lparr>threads := (threads s)[i := Running j], work_queue := q\<rparr>))"
      using r take_job.hyps(5) by (simp add: all_jobs_def)
    from k(2) obtain taken where "pushed s = (taken @ [j]) @ q" by auto
    then show "\<exists>taken. pushed (s\<lparr>threads := (threads s)[i := Running j], work_queue := q\<rparr>) =
        taken @ work_queue (s\<lparr>threads := (threads s)[i := Running j], work_queue := q\<rparr>)"
      by (intro exI [of _ "taken @ [j]"]) simp
    show "length (threads (s\<lparr>threads := (threads s)[i := Running j], work_queue := q\<rparr>)) = n" using k(3) by simp
  qed
next
  case (end_job i s j)
  then have "running (threads s) = add_mset j (running ((threads s)[i := Fetch]))"
    using running_update [of i "threads s" Fetch] by simp
  then show ?case using end_job by (auto simp: jobs_kept_def all_jobs_def)
next
  case (leave i s)
  then show ?case using running_update [of i "threads s" Exited] by (auto simp: jobs_kept_def all_jobs_def)
next
  case (nothing_to_do i s)
  then show ?case using running_update [of i "threads s" Will_wait] by (auto simp: jobs_kept_def all_jobs_def)
next
  case (fall_asleep i s)
  then show ?case using running_update [of i "threads s" Asleep] by (auto simp: jobs_kept_def all_jobs_def)
next
  case (notify_one s m i)
  then show ?case using running_update [of i "threads s" Fetch] by (auto simp: jobs_kept_def all_jobs_def)
qed (auto simp: jobs_kept_def all_jobs_def running_wake)

lemma pool_reach_invariants: "pool_reach n s \<Longrightarrow> work_noticed s \<and> jobs_kept n s"
proof (induction rule: pool_reach.induct)
  case reach_new
  have "running (replicate n Fetch) = {#}" by (induction n) simp_all
  then show ?case by (auto simp: new_ThreadPool_def work_noticed_def jobs_kept_def all_jobs_def)
next
  case (reach_step s t)
  then show ?case using pool_step_noticed pool_step_jobs by blast
qed

text \<open>The destructor sets \<open>interrupt\<close> first, and nothing resets it.\<close>

lemma pool_reach_interrupt: "pool_reach n s \<Longrightarrow> teardown_phase s = Alive \<or> interrupt s"
proof (induction rule: pool_reach.induct)
  case reach_new
  then show ?case by (simp add: new_ThreadPool_def)
next
  case (reach_step s t)
  then show ?case by (auto elim!: pool_stepE)
qed

section \<open>No wakeup is lost\<close>

definition fetching :: "thread_pool \<Rightarrow> nat" where
  "fetching s = sum_list (map (\<lambda>p. if p = Fetch then 1 else 0) (threads s))"

text \<open>While a thread sleeps or is going to, no more jobs wait than notifications are to come and threads about to look.\<close>

definition enough_awake :: "thread_pool \<Rightarrow> bool" where
  "enough_awake s \<longleftrightarrow> (teardown_phase s = Alive \<longrightarrow> Asleep \<in> set (threads s) \<or> Will_wait \<in> set (threads s) \<longrightarrow>
     length (work_queue s) \<le> pending s + fetching s)"

lemma fetching_update:
  "i < length (threads s) \<Longrightarrow> fetching (s\<lparr>threads := (threads s)[i := p]\<rparr>) + (if threads s ! i = Fetch then 1 else 0) =
     fetching s + (if p = Fetch then 1 else 0)"
  using sum_list_map_update [of i "threads s" "\<lambda>p. if p = Fetch then 1 else (0 :: nat)" p] by (simp add: fetching_def)

lemma fetching_frame [simp]:
  "fetching (s\<lparr>work_queue := q\<rparr>) = fetching s" "fetching (s\<lparr>pending := n\<rparr>) = fetching s"
  "fetching (s\<lparr>pushed := js\<rparr>) = fetching s" "fetching (s\<lparr>finished := js\<rparr>) = fetching s"
  by (simp_all add: fetching_def)

lemma pool_step_awake: "pool_step s t \<Longrightarrow> work_noticed s \<Longrightarrow> enough_awake s \<Longrightarrow> enough_awake t"
proof (induction rule: pool_step.induct)
  case (take_job i s j q)
  then show ?case using fetching_update [of i s "Running j"]
    by (auto simp: enough_awake_def dest!: set_update_cases)
next
  case (nothing_to_do i s)
  then show ?case by (simp add: enough_awake_def)
next
  case (fall_asleep i s)
  then have "Will_wait \<in> set (threads s)" by (metis nth_mem)
  then show ?case using fall_asleep fetching_update [of i s Asleep] by (simp add: enough_awake_def)
next
  case (end_job i s j)
  then show ?case using fetching_update [of i s Fetch]
    by (auto simp: enough_awake_def dest!: set_update_cases)
next
  case (notify_one s n i)
  then have "Asleep \<in> set (threads s)" by (metis nth_mem)
  then show ?case using notify_one fetching_update [of i s Fetch] by (simp add: enough_awake_def)
next
  case (notify_none s n)
  then show ?case by (auto simp: enough_awake_def work_noticed_def)
next
  case (leave i s)
  then show ?case by (auto simp: enough_awake_def work_noticed_def)
qed (auto simp: enough_awake_def)

lemma pool_reach_awake: "pool_reach n s \<Longrightarrow> enough_awake s"
proof (induction rule: pool_reach.induct)
  case reach_new
  then show ?case by (simp add: enough_awake_def new_ThreadPool_def)
next
  case (reach_step s t)
  then show ?case using pool_step_awake pool_reach_invariants by blast
qed

section \<open>The destructor\<close>

text \<open>A thread that falls asleep after \<open>notify_all\<close> is never woken.\<close>

definition sleeps_forever :: "thread_pool \<Rightarrow> bool" where
  "sleeps_forever s \<longleftrightarrow> teardown_phase s = Joining \<and> pending s = 0 \<and> Asleep \<in> set (threads s)"

lemma sleeps_forever_step: "pool_step s t \<Longrightarrow> sleeps_forever s \<Longrightarrow> sleeps_forever t"
proof (induction rule: pool_step.induct)
  case (take_job i s j q)
  then show ?case using other_in_update [of Asleep "threads s" i "Running j"] by (simp add: sleeps_forever_def)
next
  case (leave i s)
  then show ?case using other_in_update [of Asleep "threads s" i Exited] by (simp add: sleeps_forever_def)
next
  case (nothing_to_do i s)
  then show ?case using other_in_update [of Asleep "threads s" i Will_wait] by (simp add: sleeps_forever_def)
next
  case (fall_asleep i s)
  then show ?case using in_set_update [of i "threads s" Asleep] by (simp add: sleeps_forever_def)
next
  case (end_job i s j)
  then show ?case using other_in_update [of Asleep "threads s" i Fetch] by (simp add: sleeps_forever_def)
qed (auto simp: sleeps_forever_def)

lemma sleeps_forever_run: "pool_step\<^sup>*\<^sup>* s t \<Longrightarrow> sleeps_forever s \<Longrightarrow> sleeps_forever t"
  by (induction rule: rtranclp_induct) (auto dest: sleeps_forever_step)

lemma lost_wakeup_reachable: "0 < n \<Longrightarrow> \<exists>s. pool_reach n s \<and> sleeps_forever s"
proof -
  assume n: "0 < n"
  let ?s0 = "new_ThreadPool n"
  let ?s1 = "?s0\<lparr>threads := (threads ?s0)[0 := Will_wait]\<rparr>"
  let ?s2 = "?s1\<lparr>interrupt := True, teardown_phase := Interrupting\<rparr>"
  let ?s3 = "?s2\<lparr>threads := map wake (threads ?s2), teardown_phase := Joining\<rparr>"
  let ?s4 = "?s3\<lparr>threads := (threads ?s3)[0 := Asleep]\<rparr>"
  have "pool_reach n ?s0" by (rule reach_new)
  moreover have "pool_step ?s0 ?s1"
    by (rule nothing_to_do) (use n in \<open>simp_all add: new_ThreadPool_def lock_free_def\<close>)
  moreover have "pool_step ?s1 ?s2" by (rule set_interrupt) (simp_all add: new_ThreadPool_def)
  moreover have "pool_step ?s2 ?s3" by (rule notify_all) simp
  moreover have "pool_step ?s3 ?s4"
    by (rule fall_asleep) (use n in \<open>simp_all add: new_ThreadPool_def wake_def\<close>)
  ultimately have "pool_reach n ?s4" by (meson reach_step)
  moreover have "sleeps_forever ?s4"
    using n in_set_update [of 0 "threads ?s3" Asleep] by (simp add: sleeps_forever_def new_ThreadPool_def)
  ultimately show ?thesis by blast
qed

section \<open>Properties\<close>



text \<open>
  C40. The destructor can hang: because \<open>interrupt\<close> is set and the threads are notified without the lock,
  a thread that has tested its condition but not yet begun to wait misses the notification. For every
  number of threads there is a reachable state from which no continuation ends the join.
\<close>

theorem destructor_can_hang:
  assumes "0 < n"
  shows "\<exists>s. pool_reach n s \<and> (\<forall>t. pool_step\<^sup>*\<^sup>* s t \<longrightarrow> teardown_phase t = Joining \<and> Asleep \<in> set (threads t))"
  using lost_wakeup_reachable [OF assms] sleeps_forever_run unfolding sleeps_forever_def by blast

theorem destructor_can_hang_witness:
  "\<exists>s. pool_reach 1 s \<and> (\<forall>t. pool_step\<^sup>*\<^sup>* s t \<longrightarrow> teardown_phase t = Joining \<and> Asleep \<in> set (threads t))"
  using destructor_can_hang [of 1] by simp

end
