(* ===== verification/Server_Start.thy ===== *)
theory Server_Start
  imports ThreadPool
begin

text \<open>
  The server object of src/server.cpp around its thread pool: \<open>Server::start\<close> queues one server loop per
  thread, and the destructor sets the interrupt flag and deletes the pool. The sockets are left out; what a
  loop shows of them is whether it waits in \<open>recv_message\<close>. Job \<open>j\<close> of the pool is the loop that iteration
  \<open>j\<close> of \<open>start\<close> has queued.
\<close>

section \<open>State and steps\<close>

datatype loop_phase = At_test | Receiving

text \<open>\<open>srv_queued\<close> is the loop variable of \<open>start\<close>.\<close>

record server_state =
  srv_pool :: thread_pool
  srv_interrupt :: bool
  srv_queued :: nat
  loop_phases :: "nat \<Rightarrow> loop_phase"

definition new_Server :: "nat \<Rightarrow> server_state" where
  "new_Server n = \<lparr>srv_pool = new_ThreadPool n, srv_interrupt = False, srv_queued = 0, loop_phases = \<lambda>_. At_test\<rparr>"

text \<open>A step of the pool's threads or of a notification: no job comes or ends, the destructor does not move.\<close>

definition thread_move :: "thread_pool \<Rightarrow> thread_pool \<Rightarrow> bool" where
  "thread_move p q \<longleftrightarrow> pool_step p q \<and> pushed q = pushed p \<and> finished q = finished p \<and> teardown_phase q = teardown_phase p"

definition runs_loop :: "server_state \<Rightarrow> nat \<Rightarrow> nat \<Rightarrow> bool" where
  "runs_loop s i j \<longleftrightarrow> i < length (threads (srv_pool s)) \<and> threads (srv_pool s) ! i = Running j"

text \<open>
  \<open>loop_receive\<close> is the receipt of a message together with its handler. \<open>begin_shutdown\<close> is the first
  statement of the destructor of the server, \<open>shutdown\<close> a step of the destructor of the pool.
\<close>

inductive server_step :: "server_state \<Rightarrow> server_state \<Rightarrow> bool" where
  queue_loop: "srv_queued s < length (threads (srv_pool s)) \<Longrightarrow> \<not> srv_interrupt s \<Longrightarrow> lock_free (srv_pool s) \<Longrightarrow>
     teardown_phase (srv_pool s) = Alive \<Longrightarrow>
     server_step s (s\<lparr>srv_pool := (srv_pool s)\<lparr>work_queue := work_queue (srv_pool s) @ [srv_queued s],
         pending := Suc (pending (srv_pool s)), pushed := pushed (srv_pool s) @ [srv_queued s]\<rparr>,
       srv_queued := Suc (srv_queued s)\<rparr>)"
| worker: "thread_move (srv_pool s) p \<Longrightarrow> server_step s (s\<lparr>srv_pool := p\<rparr>)"
| loop_test: "runs_loop s i j \<Longrightarrow> loop_phases s j = At_test \<Longrightarrow> \<not> srv_interrupt s \<Longrightarrow>
     server_step s (s\<lparr>loop_phases := (loop_phases s)(j := Receiving)\<rparr>)"
| loop_receive: "runs_loop s i j \<Longrightarrow> loop_phases s j = Receiving \<Longrightarrow>
     server_step s (s\<lparr>loop_phases := (loop_phases s)(j := At_test)\<rparr>)"
| loop_returns: "runs_loop s i j \<Longrightarrow> loop_phases s j = At_test \<Longrightarrow> srv_interrupt s \<Longrightarrow>
     server_step s (s\<lparr>srv_pool := (srv_pool s)\<lparr>threads := (threads (srv_pool s))[i := Fetch],
       finished := finished (srv_pool s) @ [j]\<rparr>\<rparr>)"
| begin_shutdown: "\<not> srv_interrupt s \<Longrightarrow> srv_queued s = length (threads (srv_pool s)) \<Longrightarrow>
     server_step s (s\<lparr>srv_interrupt := True\<rparr>)"
| shutdown: "srv_interrupt s \<Longrightarrow> pool_step (srv_pool s) p \<Longrightarrow> teardown_phase p \<noteq> teardown_phase (srv_pool s) \<Longrightarrow>
     server_step s (s\<lparr>srv_pool := p\<rparr>)"

inductive server_reach :: "nat \<Rightarrow> server_state \<Rightarrow> bool" for n where
  server_new: "server_reach n (new_Server n)"
| server_next: "server_reach n s \<Longrightarrow> server_step s t \<Longrightarrow> server_reach n t"

section \<open>The server uses its pool\<close>

lemma thread_move_step: "thread_move p q \<Longrightarrow> pool_step p q"
  by (simp add: thread_move_def)

lemma server_step_pool:
  "server_step s t \<Longrightarrow> srv_pool t = srv_pool s \<or> pool_step (srv_pool s) (srv_pool t)"
proof (induction rule: server_step.induct)
  case (queue_loop s)
  then show ?case by (simp add: pool_step.push)
next
  case (loop_returns s i j)
  then show ?case by (simp add: pool_step.end_job runs_loop_def)
qed (simp_all add: thread_move_step)

lemma server_reach_pool: "server_reach n s \<Longrightarrow> pool_reach n (srv_pool s)"
proof (induction rule: server_reach.induct)
  case server_new
  then show ?case by (simp add: new_Server_def pool_reach.reach_new)
next
  case (server_next s t)
  then show ?case using server_step_pool [of s t] by (auto intro: pool_reach.reach_step)
qed

text \<open>The jobs are the loops queued so far, and none of them ends before the shutdown.\<close>

definition loops_queued :: "server_state \<Rightarrow> bool" where
  "loops_queued s \<longleftrightarrow> pushed (srv_pool s) = [0..<srv_queued s] \<and>
     (\<not> srv_interrupt s \<longrightarrow> finished (srv_pool s) = [] \<and> teardown_phase (srv_pool s) = Alive)"

lemma pool_step_teardown_pushed:
  "pool_step p q \<Longrightarrow> teardown_phase q \<noteq> teardown_phase p \<Longrightarrow> pushed q = pushed p"
  by (induction rule: pool_step.induct) simp_all

lemma server_step_queued: "server_step s t \<Longrightarrow> loops_queued s \<Longrightarrow> loops_queued t"
  by (induction rule: server_step.induct) (auto simp: loops_queued_def thread_move_def dest: pool_step_teardown_pushed)

lemma server_reach_queued: "server_reach n s \<Longrightarrow> loops_queued s"
proof (induction rule: server_reach.induct)
  case server_new
  then show ?case by (simp add: new_Server_def new_ThreadPool_def loops_queued_def)
qed (rule server_step_queued)

section \<open>Moves of the threads end\<close>

definition phase_weight :: "thread_phase \<Rightarrow> nat" where
  "phase_weight p = (case p of Fetch \<Rightarrow> 3 | Will_wait \<Rightarrow> 2 | Asleep \<Rightarrow> 1 | Running _ \<Rightarrow> 0 | Exited \<Rightarrow> 0)"

definition move_weight :: "thread_pool \<Rightarrow> nat" where
  "move_weight s = 4 * pending s + sum_list (map phase_weight (threads s))"

lemma thread_move_weight:
  assumes "thread_move s t"
  shows "move_weight t < move_weight s"
proof -
  have w: "i < length (threads s) \<Longrightarrow> sum_list (map phase_weight ((threads s)[i := p])) + phase_weight (threads s ! i) =
      sum_list (map phase_weight (threads s)) + phase_weight p" for i p
    by (rule sum_list_map_update)
  have "pool_step s t" and frame: "pushed t = pushed s" "finished t = finished s" "teardown_phase t = teardown_phase s"
    using assms by (simp_all add: thread_move_def)
  then show ?thesis
  proof (cases rule: pool_step.cases)
    case (take_job i j q)
    then show ?thesis using w [of i "Running j"] by (simp add: move_weight_def phase_weight_def)
  next
    case (leave i)
    then show ?thesis using w [of i Exited] by (simp add: move_weight_def phase_weight_def)
  next
    case (nothing_to_do i)
    then show ?thesis using w [of i Will_wait] by (simp add: move_weight_def phase_weight_def)
  next
    case (fall_asleep i)
    then show ?thesis using w [of i Asleep] by (simp add: move_weight_def phase_weight_def)
  next
    case (notify_one n i)
    then show ?thesis using w [of i Fetch] by (simp add: move_weight_def phase_weight_def)
  qed (use frame in \<open>simp_all add: move_weight_def\<close>)
qed

lemma thread_moves_end: "\<not> (\<exists>f. f 0 = p \<and> (\<forall>i. thread_move (f i) (f (Suc i))))"
proof
  assume "\<exists>f. f 0 = p \<and> (\<forall>i. thread_move (f i) (f (Suc i)))"
  then obtain f where f: "\<forall>i. move_weight (f (Suc i)) < move_weight (f i)" using thread_move_weight by blast
  have no: "\<not> (\<forall>i. g (Suc i) < g i)" for g :: "nat \<Rightarrow> nat"
    using wf_less unfolding wf_iff_no_infinite_down_chain by auto
  show False using no [of "\<lambda>i. move_weight (f i)"] f by simp
qed

section \<open>When the threads have come to rest\<close>

lemma running_size: "size (running ts) \<le> length ts"
  by (induction ts) (auto split: thread_phase.splits)

lemma all_running:
  "size (running ts) = length ts \<Longrightarrow> mset ts = image_mset Running (running ts)"
proof (induction ts)
  case (Cons p ts)
  show ?case
  proof (cases "\<exists>j. p = Running j")
    case True
    then show ?thesis using Cons by auto
  next
    case False
    then have "running (p # ts) = running ts" by (cases p) simp_all
    then show ?thesis using Cons.prems running_size [of ts] by simp
  qed
qed simp

lemma running_size_all: "set ts \<subseteq> range Running \<Longrightarrow> size (running ts) = length ts"
  by (induction ts) auto

text \<open>Without a possible move every thread sleeps or runs a job, and no notification is to come.\<close>

lemma at_rest:
  assumes "\<nexists>q. thread_move s q" "work_noticed s" "teardown_phase s = Alive"
  shows "set (threads s) \<subseteq> insert Asleep (range Running)" "pending s = 0"
proof -
  have ww: "Will_wait \<notin> set (threads s)"
  proof
    assume "Will_wait \<in> set (threads s)"
    then obtain i where "i < length (threads s)" "threads s ! i = Will_wait" by (auto simp: in_set_conv_nth)
    then have "thread_move s (s\<lparr>threads := (threads s)[i := Asleep]\<rparr>)" by (simp add: thread_move_def pool_step.fall_asleep)
    then show False using assms(1) by blast
  qed
  have "Fetch \<notin> set (threads s)"
  proof
    assume "Fetch \<in> set (threads s)"
    then obtain i where i: "i < length (threads s)" "threads s ! i = Fetch" by (auto simp: in_set_conv_nth)
    have lf: "lock_free s" "\<not> interrupt s" using ww assms(2,3) by (simp_all add: lock_free_def work_noticed_def)
    show False
    proof (cases "work_queue s")
      case Nil
      then have "thread_move s (s\<lparr>threads := (threads s)[i := Will_wait]\<rparr>)"
        using i lf by (simp add: thread_move_def pool_step.nothing_to_do)
      then show False using assms(1) by blast
    next
      case (Cons j q)
      then have "thread_move s (s\<lparr>threads := (threads s)[i := Running j], work_queue := q\<rparr>)"
        using i lf by (simp add: thread_move_def pool_step.take_job)
      then show False using assms(1) by blast
    qed
  qed
  then have "p = Asleep \<or> (\<exists>j. p = Running j)" if "p \<in> set (threads s)" for p
    using that ww assms(2,3) by (cases p) (auto simp: work_noticed_def)
  then show "set (threads s) \<subseteq> insert Asleep (range Running)" by blast
  show "pending s = 0"
  proof (rule ccontr)
    assume "pending s \<noteq> 0"
    then obtain k where k: "pending s = Suc k" by (cases "pending s") auto
    show False
    proof (cases "Asleep \<in> set (threads s)")
      case True
      then obtain i where "i < length (threads s)" "threads s ! i = Asleep" by (auto simp: in_set_conv_nth)
      then have "thread_move s (s\<lparr>threads := (threads s)[i := Fetch], pending := k\<rparr>)"
        using k by (simp add: thread_move_def pool_step.notify_one)
      then show False using assms(1) by blast
    next
      case False
      then have "thread_move s (s\<lparr>pending := k\<rparr>)" using k by (simp add: thread_move_def pool_step.notify_none)
      then show False using assms(1) by blast
    qed
  qed
qed

lemma rest_runs_all_jobs:
  assumes "pool_reach n s" "teardown_phase s = Alive" "finished s = []" "length (pushed s) = n" "\<nexists>q. thread_move s q"
  shows "work_queue s = [] \<and> mset (threads s) = image_mset Running (mset (pushed s))"
proof -
  have inv: "work_noticed s" "jobs_kept n s" using pool_reach_invariants [OF assms(1)] by simp_all
  note rest = at_rest [OF assms(5) inv(1) assms(2)]
  have jobs: "mset (pushed s) = mset (work_queue s) + running (threads s)" "length (threads s) = n"
    using inv(2) assms(2,3) by (simp_all add: jobs_kept_def all_jobs_def)
  have sz: "length (work_queue s) + size (running (threads s)) = n"
    using arg_cong [OF jobs(1), of size] assms(4) by simp
  have q: "work_queue s = []"
  proof (cases "Asleep \<in> set (threads s)")
    case True
    have "Fetch \<notin> set (threads s)" using rest(1) by auto
    then have "fetching s = 0" by (auto simp: fetching_def)
    then show ?thesis using pool_reach_awake [OF assms(1)] True assms(2) rest(2) by (simp add: enough_awake_def)
  next
    case False
    then have "set (threads s) \<subseteq> range Running" using rest(1) by blast
    from running_size_all [OF this] show ?thesis using sz jobs(2) by simp
  qed
  then show ?thesis using all_running [of "threads s"] sz jobs by simp
qed

lemma thread_moves_reach: "thread_move\<^sup>*\<^sup>* p q \<Longrightarrow> pool_reach n p \<Longrightarrow> pool_reach n q \<and>
    pushed q = pushed p \<and> finished q = finished p \<and> teardown_phase q = teardown_phase p"
  by (induction rule: rtranclp_induct) (auto simp: thread_move_def intro: pool_reach.reach_step)

section \<open>Shutting down\<close>

text \<open>
  The destructor joins the threads, and a loop that waits for a message does not look at the flag: unless a
  message arrives, the server never shuts down.
\<close>

definition waits_for_message :: "server_state \<Rightarrow> nat \<Rightarrow> bool" where
  "waits_for_message s i \<longleftrightarrow> (\<exists>j. runs_loop s i j \<and> loop_phases s j = Receiving)"

definition quiet_step :: "server_state \<Rightarrow> server_state \<Rightarrow> bool" where
  "quiet_step s t \<longleftrightarrow> server_step s t \<and> \<not> (\<exists>j. loop_phases s j = Receiving \<and> loop_phases t j = At_test)"

lemma pool_step_keeps_running:
  "pool_step p q \<Longrightarrow> finished q = finished p \<Longrightarrow> i < length (threads p) \<Longrightarrow> threads p ! i = Running j \<Longrightarrow>
     i < length (threads q) \<and> threads q ! i = Running j"
proof (induction rule: pool_step.induct)
  case (join_all s)
  then have "threads s ! i = Exited" by (auto dest: nth_mem)
  then show ?case using join_all by simp
qed (auto simp: nth_list_update wake_def)

lemma pool_step_teardown_finished:
  "pool_step p q \<Longrightarrow> teardown_phase q \<noteq> teardown_phase p \<Longrightarrow> finished q = finished p"
  by (induction rule: pool_step.induct) simp_all

lemma quiet_step_waits:
  assumes "quiet_step s t" "runs_loop s i j" "loop_phases s j = Receiving"
  shows "runs_loop t i j \<and> loop_phases t j = Receiving"
proof -
  have "server_step s t" and q: "\<not> (\<exists>j. loop_phases s j = Receiving \<and> loop_phases t j = At_test)"
    using assms(1) by (simp_all add: quiet_step_def)
  then show ?thesis using assms(2,3)
  proof (induction rule: server_step.induct)
    case (worker s p)
    then show ?case using pool_step_keeps_running [of "srv_pool s" p i j]
      by (simp add: runs_loop_def thread_move_def)
  next
    case (loop_returns s i' j')
    then have "i' \<noteq> i" by (auto simp: runs_loop_def)
    then show ?case using loop_returns by (simp add: runs_loop_def)
  next
    case (shutdown s p)
    then show ?case using pool_step_keeps_running [of "srv_pool s" p i j] pool_step_teardown_finished [of "srv_pool s" p]
      by (simp add: runs_loop_def)
  qed (auto simp: runs_loop_def)
qed

lemma shutdown_waits_for_messages:
  assumes "quiet_step\<^sup>*\<^sup>* s t" "waits_for_message s i"
  shows "waits_for_message t i \<and> threads (srv_pool t) \<noteq> []"
proof -
  have "waits_for_message t i"
    using assms by (induction rule: rtranclp_induct) (auto simp: waits_for_message_def dest: quiet_step_waits)
  then show ?thesis by (auto simp: waits_for_message_def runs_loop_def)
qed

section \<open>Properties\<close>

text \<open>
  C26. Once \<open>Server::start\<close> has queued its loops, and as long as the server is not destroyed, the threads of
  the pool come to rest after finitely many moves, and then every thread runs exactly one of the loops: no
  wakeup is lost, no loop waits in the queue and no thread is left without one.
\<close>

theorem every_thread_gets_one_loop:
  assumes "server_reach n s" "srv_queued s = n" "\<not> srv_interrupt s"
  shows "(\<nexists>f. f 0 = srv_pool s \<and> (\<forall>i. thread_move (f i) (f (Suc i)))) \<and>
    (\<forall>p. thread_move\<^sup>*\<^sup>* (srv_pool s) p \<and> (\<nexists>q. thread_move p q) \<longrightarrow>
       work_queue p = [] \<and> mset (threads p) = image_mset Running (mset [0..<n]))"
proof (intro conjI allI impI)
  show "\<nexists>f. f 0 = srv_pool s \<and> (\<forall>i. thread_move (f i) (f (Suc i)))" by (rule thread_moves_end)
  fix p assume p: "thread_move\<^sup>*\<^sup>* (srv_pool s) p \<and> (\<nexists>q. thread_move p q)"
  have q: "pushed (srv_pool s) = [0..<n]" "finished (srv_pool s) = []" "teardown_phase (srv_pool s) = Alive"
    using server_reach_queued [OF assms(1)] assms(2,3) by (simp_all add: loops_queued_def)
  have "pool_reach n p \<and> pushed p = [0..<n] \<and> finished p = [] \<and> teardown_phase p = Alive"
    using thread_moves_reach [OF conjunct1 [OF p] server_reach_pool [OF assms(1)]] q by simp
  then have "work_queue p = [] \<and> mset (threads p) = image_mset Running (mset (pushed p)) \<and> pushed p = [0..<n]"
    using rest_runs_all_jobs [of n p] p by simp
  then show "work_queue p = []" "mset (threads p) = image_mset Running (mset [0..<n])" by simp_all
qed

theorem every_thread_gets_one_loop_witness:
  "\<exists>s p. server_reach 1 s \<and> thread_move\<^sup>*\<^sup>* (srv_pool s) p \<and> mset (threads p) = {#Running 0#}"
proof -
  let ?s = "(new_Server 1)\<lparr>srv_pool := (srv_pool (new_Server 1))\<lparr>work_queue := [0], pending := 1, pushed := [0]\<rparr>, srv_queued := 1\<rparr>"
  have "server_step (new_Server 1) ?s"
    using server_step.queue_loop [of "new_Server 1"] by (simp add: new_Server_def new_ThreadPool_def lock_free_def)
  then have r: "server_reach 1 ?s" by (rule server_reach.server_next [OF server_reach.server_new])
  let ?p = "(srv_pool ?s)\<lparr>threads := [Running 0], work_queue := [], pending := 0\<rparr>"
  let ?m = "(srv_pool ?s)\<lparr>threads := [Running 0], work_queue := []\<rparr>"
  have "thread_move (srv_pool ?s) ?m"
    using pool_step.take_job [of 0 "srv_pool ?s" 0 "[]"]
    by (simp add: thread_move_def new_Server_def new_ThreadPool_def lock_free_def)
  moreover have "thread_move ?m ?p"
    using pool_step.notify_none [of ?m 0] by (simp add: thread_move_def new_Server_def new_ThreadPool_def)
  ultimately have mv: "thread_move\<^sup>*\<^sup>* (srv_pool ?s) ?p" by (meson rtranclp.rtrancl_into_rtrancl rtranclp.rtrancl_refl)
  have w0: "move_weight ?p = 0" by (simp add: move_weight_def phase_weight_def)
  have "\<nexists>q. thread_move ?p q"
  proof
    assume "\<exists>q. thread_move ?p q"
    then obtain q where "thread_move ?p q" ..
    from thread_move_weight [OF this] show False by (simp only: w0)
  qed
  with every_thread_gets_one_loop [OF r] mv have "mset (threads ?p) = image_mset Running (mset [0..<1])"
    by (simp add: new_Server_def)
  then show ?thesis using r mv by (intro exI [of _ ?s] exI [of _ ?p]) simp
qed

end
