(* ===== verification/Startup.thy ===== *)
theory Startup
  imports Network Validator Client_Correct
begin

text \<open>
  How the nodes come up: the functions \<open>run_pool\<close>, \<open>run_metronome\<close>, \<open>run_blockchain\<close> and \<open>run_monitor\<close> of
  src/dsc.cpp (\<open>run_validator\<close> is in Validator), and the constructors and \<open>start\<close> functions they call. A node
  is its component with the address it sends requests to and the one its server binds. The nodes that one
  configuration file starts form the initial state of the network.
\<close>

section \<open>Nodes\<close>

record 'c node =
  node_component :: 'c
  node_peer :: string
  node_address :: "string option"

text \<open>The parts of \<open>start\<close> that say where a server listens; \<open>Server_Start\<close> has its threads.\<close>

definition bind_server :: "string \<Rightarrow> 'c node \<Rightarrow> 'c node" where
  "bind_server address nd = nd\<lparr>node_address := Some address\<rparr>"

definition new_TxPool :: "string \<Rightarrow> TxPool node" where
  "new_TxPool blockchain = \<lparr>node_component = empty_pool, node_peer = blockchain, node_address = None\<rparr>"

definition run_pool :: "'n yaml \<Rightarrow> string list \<Rightarrow> ('n, TxPool node) action" where
  "run_pool Y args =
     and_then (prints (line ''Starting transaction pool.'')) (\<lambda>_.
     and_then (of_result (arg args 0)) (\<lambda>config_file.
     and_then (reads (get_tx_pool_address Y config_file)) (\<lambda>pool_address.
     and_then (reads (get_blockchain_address Y config_file)) (\<lambda>bc_address.
       return_value (bind_server pool_address (new_TxPool bc_address))))))"

definition request_last_block :: "alpaca \<Rightarrow> peers \<Rightarrow> string \<Rightarrow> ('n, BlockHeader) action" where
  "request_last_block A peers blockchain =
     and_then (round_trip A peers (de_block_header A) blockchain P_null QUERY_LAST_BLOCK) (\<lambda>(_, hdr). return_value hdr)"

text \<open>\<open>prev\<close> and \<open>cur\<close> are what the two members hold that the constructor leaves alone.\<close>

definition run_metronome ::
  "'n yaml \<Rightarrow> alpaca \<Rightarrow> peers \<Rightarrow> u64 \<Rightarrow> u64 \<Rightarrow> string list \<Rightarrow> ('n, Metronome node) action" where
  "run_metronome Y A peers prev cur args =
     and_then (prints (line ''Starting metronome.'')) (\<lambda>_.
     and_then (of_result (arg args 0)) (\<lambda>config_file.
     and_then (reads (get_blockchain_address Y config_file)) (\<lambda>blockchain.
     and_then (reads (get_metronome_address Y config_file)) (\<lambda>address.
     and_then (request_last_block A peers blockchain) (\<lambda>last_hdr.
       return_value (bind_server address
         \<lparr>node_component = new_Metronome prev cur last_hdr, node_peer = blockchain, node_address = None\<rparr>))))))"

definition run_blockchain :: "'n yaml \<Rightarrow> u32 \<Rightarrow> string list \<Rightarrow> ('n, 'n BlockChain node) action" where
  "run_blockchain Y junk args =
     and_then (prints (line ''Starting blockchain.'')) (\<lambda>_.
     and_then (of_result (arg args 0)) (\<lambda>config_file.
     and_then (of_result (arg args 1)) (\<lambda>key_file.
     and_then (reads (get_blockchain_address Y config_file)) (\<lambda>address.
     and_then (reads (get_tx_pool_address Y config_file)) (\<lambda>txpaddr.
     and_then (reads (\<lambda>fs. new_BlockChain Y fs config_file)) (\<lambda>bc.
     and_then (of_result (start_chain Y junk bc)) (\<lambda>bc'.
       return_value (bind_server address \<lparr>node_component = bc', node_peer = txpaddr, node_address = None\<rparr>))))))))"

definition run_monitor :: "'n yaml \<Rightarrow> alpaca \<Rightarrow> peers \<Rightarrow> (nat \<Rightarrow> u64) \<Rightarrow> string list \<Rightarrow> ('n, int) action" where
  "run_monitor Y A peers clock args =
     and_then (prints (line ''Starting monitor'')) (\<lambda>_.
     and_then (of_result (arg args 1)) (\<lambda>config_file.
     and_then (print_monitor_stats Y A peers clock config_file) (\<lambda>_. return_value 0)))"

section \<open>What they return\<close>

lemma arg_Cons [simp]: "arg (a # args) 0 = Inr a"
  by (simp add: arg_def)

lemma run_pool_node:
  assumes "run_pool Y (cf # ps) h = (h', Inr p)" "host_files h = fs"
  obtains pa ba where "get_tx_pool_address Y cf fs = Inr pa" "get_blockchain_address Y cf fs = Inr ba"
    "p = \<lparr>node_component = empty_pool, node_peer = ba, node_address = Some pa\<rparr>"
  using assms
  by (auto simp: run_pool_def and_then_def new_TxPool_def bind_server_def split: prod.splits sum.splits)

lemma run_blockchain_node:
  assumes "run_blockchain Y junk (cf # bs) h = (h', Inr b)" "host_files h = fs"
  obtains ba pa bc0 bc where "get_blockchain_address Y cf fs = Inr ba" "get_tx_pool_address Y cf fs = Inr pa"
    "new_BlockChain Y fs cf = Inr bc0" "start_chain Y junk bc0 = Inr bc"
    "b = \<lparr>node_component = bc, node_peer = pa, node_address = Some ba\<rparr>"
  using assms by (auto simp: run_blockchain_def and_then_def bind_server_def split: prod.splits sum.splits)

lemma run_metronome_node:
  assumes "run_metronome Y A peers prev cur (cf # ms) h = (h', Inr m)" "host_files h = fs"
  obtains ba ma hdr h1 where "get_blockchain_address Y cf fs = Inr ba" "get_metronome_address Y cf fs = Inr ma"
    "request_last_block A peers ba h1 = (h', Inr hdr)"
    "m = \<lparr>node_component = new_Metronome prev cur hdr, node_peer = ba, node_address = Some ma\<rparr>"
  using assms
  by (auto simp: run_metronome_def and_then_def bind_server_def split: prod.splits sum.splits)

lemma run_validator_addresses:
  assumes "run_validator Y blake3 uuid (cf # vs) h = (h', Inr (Some (v, model)))" "host_files h = fs"
  shows "get_blockchain_address Y cf fs = Inr (val_blockchain v)" "get_metronome_address Y cf fs = Inr (val_metronome v)"
    "get_tx_pool_address Y cf fs = Inr (val_tx_pool v)"
  using assms
  by (auto simp: run_validator_def and_then_def Let_def new_Validator_def split: prod.splits sum.splits if_splits)

text \<open>What the metronome gets from a blockchain node that listens at the address it asks.\<close>

definition carries_headers :: "alpaca \<Rightarrow> bool" where
  "carries_headers A \<longleftrightarrow> (\<forall>hdr. de_header A (ser_header A hdr) = hdr) \<and>
     (\<forall>hdr. header_wf hdr \<longrightarrow> de_block_header A (ser_payload A (P_header hdr)) = hdr)"

lemma codec_carries_headers: "carries_headers codec_alpaca"
proof -
  have "de_header codec_alpaca (ser_header codec_alpaca hdr) = hdr" for hdr
    using sample_header_roundtrip by (simp add: codec_alpaca_def)
  then show ?thesis by (simp add: carries_headers_def codec_sel)
qed

text \<open>Requests to the address of a node are answered by the handler of its component.\<close>

definition reachable :: "alpaca \<Rightarrow> ('c \<Rightarrow> Message \<Rightarrow> 'c handled) \<Rightarrow> 'c node \<Rightarrow> peers \<Rightarrow> bool" where
  "reachable A handler nd peers \<longleftrightarrow>
     (\<forall>w addr parts. node_address nd = Some addr \<longrightarrow>
        peers (w @ [(addr, parts)]) = answer_parts A handler (node_component nd) parts)"

lemma last_block_requested:
  assumes "carries_headers A" "reachable A (chain_request_handler A Y confirm) b peers" "node_address b = Some addr"
    and "chain_wf (node_component b)"
  shows "snd (request_last_block A peers addr h) = Inr (header (last (blocks (node_component b))))"
proof -
  let ?bc = "node_component b" and ?parts = "send_message A P_null QUERY_LAST_BLOCK"
  have ne: "blocks ?bc \<noteq> []" and wf: "header_wf (header (last (blocks ?bc)))"
    using assms(4) by (auto simp: chain_wf_def block_wf_def)
  have hdr: "de_header A (ser_header A x) = x" for x using assms(1) by (simp add: carries_headers_def)
  have "peers (host_wire h @ [(addr, ?parts)]) = answer_parts A (chain_request_handler A Y confirm) ?bc ?parts"
    using assms(2,3) by (simp add: reachable_def)
  also have "\<dots> = send_message A (P_header (header (last (blocks ?bc)))) STATUS_GOOD"
    using ne by (simp add: answer_parts_def recv_send_message [OF hdr] chain_request_handler_def last_block_def)
  finally show ?thesis
    using assms(1) wf
    by (simp add: request_last_block_def and_then_def round_trip_def Let_def recv_payload_def send_message_def carries_headers_def)
qed

section \<open>Properties\<close>

text \<open>
  C12. A pool, a blockchain node, a metronome and a validator that one configuration file starts form the
  initial state of the network, so that everything proved of its runs holds of them: the pool is empty, the
  metronome continues from the last block of the chain it asked for, and every node sends its requests to
  the address at which the node it means listens.
\<close>

theorem started_nodes_form_network:
  assumes "run_pool Y (cf # ps) hp = (hp', Inr p)" "run_blockchain Y junk (cf # bs) hb = (hb', Inr b)"
    and "run_metronome Y A peers prev cur (cf # ms) hm = (hm', Inr m)"
    and "run_validator Y blake3 uuid (cf # vs) hv = (hv', Inr (Some (v, model)))"
    and "host_files hp = fs" "host_files hb = fs" "host_files hm = fs" "host_files hv = fs"
    and "carries_headers A" "reachable A (chain_request_handler A Y confirm) b peers"
  shows "\<lparr>pool = node_component p, chain = node_component b, metro = node_component m, in_flight = None, posted = {#}\<rparr> =
      net_start (node_component b) prev cur \<and> net_inv (net_start (node_component b) prev cur) \<and>
    node_address p = Some (node_peer b) \<and> node_address b = Some (node_peer p) \<and> node_address b = Some (node_peer m) \<and>
    node_address b = Some (val_blockchain v) \<and> node_address m = Some (val_metronome v) \<and> node_address p = Some (val_tx_pool v)"
proof -
  obtain pa ba where p: "get_tx_pool_address Y cf fs = Inr pa" "get_blockchain_address Y cf fs = Inr ba"
    "p = \<lparr>node_component = empty_pool, node_peer = ba, node_address = Some pa\<rparr>"
    by (rule run_pool_node [OF assms(1,5)])
  obtain ba' pa' bc0 bc where b': "get_blockchain_address Y cf fs = Inr ba'" "get_tx_pool_address Y cf fs = Inr pa'"
    "new_BlockChain Y fs cf = Inr bc0" "start_chain Y junk bc0 = Inr bc"
    "b = \<lparr>node_component = bc, node_peer = pa', node_address = Some ba'\<rparr>"
    by (rule run_blockchain_node [OF assms(2,6)])
  have b: "b = \<lparr>node_component = bc, node_peer = pa, node_address = Some ba\<rparr>" using b' p(1,2) by simp
  obtain ba'' ma hdr h1 where m': "get_blockchain_address Y cf fs = Inr ba''" "get_metronome_address Y cf fs = Inr ma"
    "request_last_block A peers ba'' h1 = (hm', Inr hdr)"
    "m = \<lparr>node_component = new_Metronome prev cur hdr, node_peer = ba'', node_address = Some ma\<rparr>"
    by (rule run_metronome_node [OF assms(3,7)])
  have v: "val_blockchain v = ba" "val_metronome v = ma" "val_tx_pool v = pa"
    using run_validator_addresses [OF assms(4,8)] p(1,2) m'(2) by simp_all
  have wf: "chain_wf bc" by (rule start_chain_wf [OF b'(3,4)])
  have "hdr = header (last (blocks bc))"
    using last_block_requested [OF assms(9,10), of ba h1] wf m'(1,3) p(2) b by simp
  then show ?thesis using p(2,3) b m'(1,4) v net_start_inv [OF wf] by (simp add: net_start_def)
qed

lemma not_isl_Inr: "isl r = False \<Longrightarrow> \<exists>x. r = Inr x"
  by (cases r) simp_all

lemma startup_keys_decode:
  "\<exists>pk. base58_decode_key ''AKb6B2s59CSyig1UmuR5xWxVEwK1aRADHMkwkfgFgNby'' = Inr pk"
  "\<exists>sk. base58_decode_key ''6MwAfwHiYDb1RH6uipNG9ZqRAbEnudcdF5w22Eddx4gp'' = Inr sk"
  by (rule not_isl_Inr, code_simp)+

theorem started_nodes_form_network_witness:
  "\<exists>bc :: snode BlockChain. blocks bc = [genesis_block] \<and>
     \<lparr>pool = empty_pool, chain = bc, metro = new_Metronome 1 2 (header genesis_block), in_flight = None, posted = {#}\<rparr> =
       net_start bc 1 2 \<and> net_inv (net_start bc 1 2)"
proof -
  let ?h = "\<lparr>host_files = genesis_files, host_wire = [], host_console = []\<rparr> :: snode host" and ?args = "[''dsc-config.yaml'', ''dsc-key.yaml'']"
  obtain bc where bc: "start_chain sample_yaml 0 genesis_node_state = Inr bc" "chain_wf bc" "blocks bc = [genesis_block]"
    using genesis_start [of 0] by blast
  let ?b = "\<lparr>node_component = bc, node_peer = ''tcp://127.0.0.1:10001'', node_address = Some ''tcp://127.0.0.1:10004''\<rparr>"
  let ?peers = "\<lambda>w. answer_parts codec_alpaca (chain_request_handler codec_alpaca sample_yaml (\<lambda>b. Inr ())) bc (snd (last w))"
  have addr: "get_blockchain_address sample_yaml ''dsc-config.yaml'' genesis_files = Inr ''tcp://127.0.0.1:10004''"
    "get_tx_pool_address sample_yaml ''dsc-config.yaml'' genesis_files = Inr ''tcp://127.0.0.1:10001''"
    "get_metronome_address sample_yaml ''dsc-config.yaml'' genesis_files = Inr ''tcp://127.0.0.1:10003''"
    "get_validator_address sample_yaml ''dsc-config.yaml'' genesis_files = Inr ''tcp://127.0.0.1:10002''"
    "get_consensus_method sample_yaml ''dsc-config.yaml'' genesis_files = Inr ''pow''"
    by (simp_all add: get_blockchain_address_def get_tx_pool_address_def get_metronome_address_def get_validator_address_def
        get_consensus_method_def setting_def LoadFile_def genesis_files_def GENESIS_FILE_def)
  obtain pk sk where keys: "base58_decode_key ''AKb6B2s59CSyig1UmuR5xWxVEwK1aRADHMkwkfgFgNby'' = Inr pk"
    "base58_decode_key ''6MwAfwHiYDb1RH6uipNG9ZqRAbEnudcdF5w22Eddx4gp'' = Inr sk" using startup_keys_decode by blast
  have wallet: "load_wallet sample_yaml ''dsc-config.yaml'' ''dsc-key.yaml'' genesis_files = Inr \<lparr>priv_key = sk, pub_key = pk\<rparr>"
    by (simp add: load_wallet_def LoadFile_def genesis_files_def GENESIS_FILE_def keys)
  have reach: "reachable codec_alpaca (chain_request_handler codec_alpaca sample_yaml (\<lambda>b. Inr ())) ?b ?peers"
    by (simp add: reachable_def)
  let ?hm = "?h\<lparr>host_console := line ''Starting metronome.''\<rparr>"
  have "snd (request_last_block codec_alpaca ?peers ''tcp://127.0.0.1:10004'' ?hm) = Inr (header genesis_block)"
    using last_block_requested [OF codec_carries_headers reach, of "''tcp://127.0.0.1:10004''" ?hm] bc(2,3) by simp
  then obtain hm' where lb: "request_last_block codec_alpaca ?peers ''tcp://127.0.0.1:10004'' ?hm = (hm', Inr (header genesis_block))"
    by (cases "request_last_block codec_alpaca ?peers ''tcp://127.0.0.1:10004'' ?hm") simp
  obtain hp' where p: "run_pool sample_yaml ?args ?h =
      (hp', Inr \<lparr>node_component = empty_pool, node_peer = ''tcp://127.0.0.1:10004'', node_address = Some ''tcp://127.0.0.1:10001''\<rparr>)"
    by (simp add: run_pool_def arg_def addr new_TxPool_def bind_server_def)
  obtain hb' where b: "run_blockchain sample_yaml 0 ?args ?h = (hb', Inr ?b)"
    by (simp add: run_blockchain_def arg_def addr genesis_new bc(1) bind_server_def)
  have m: "run_metronome sample_yaml codec_alpaca ?peers 1 2 ?args ?h =
      (hm', Inr \<lparr>node_component = new_Metronome 1 2 (header genesis_block), node_peer = ''tcp://127.0.0.1:10004'',
        node_address = Some ''tcp://127.0.0.1:10003''\<rparr>)"
    using lb by (simp add: run_metronome_def arg_def addr bind_server_def)
  obtain hv' v model where v: "run_validator sample_yaml (\<lambda>_. []) [] ?args ?h = (hv', Inr (Some (v, model)))"
    by (simp add: run_validator_def arg_def addr wallet)
  show ?thesis
    using started_nodes_form_network [OF p b m v, of genesis_files "\<lambda>b. Inr ()"] codec_carries_headers reach bc(3)
    by (intro exI [of _ bc]) simp
qed

end
