(* ===== verification/Dsc.thy ===== *)
theory Dsc
  imports Startup
begin

text \<open>
  The whole program: \<open>main\<close> of src/dsc.cpp. A process either ends with a status or becomes a node of the
  network, whose behaviour the theories of the components describe. Files, messages and printed text are those
  of the process up to that point; \<open>frame_main\<close> bounds what any command line can do to files.
\<close>

section \<open>main\<close>

datatype 'n outcome =
    Exits int
  | Serves_pool "TxPool node"
  | Serves_metronome "Metronome node"
  | Serves_validator validator consensus_model
  | Serves_blockchain "'n BlockChain node"

definition exits :: "('n, int) action \<Rightarrow> ('n, 'n outcome) action" where
  "exits m = and_then m (\<lambda>status. return_value (Exits status))"

text \<open>Where the component of a command runs a server, the process goes on as that node.\<close>

definition run_component :: "'n env \<Rightarrow> string \<Rightarrow> string list \<Rightarrow> ('n, 'n outcome) action" where
  "run_component E command args =
     (let Y = env_yaml E; A = env_alpaca E; peers = env_peers E in
      if command = ''wallet'' then exits (run_wallet E args)
      else if command = ''pool'' then and_then (run_pool Y args) (\<lambda>nd. return_value (Serves_pool nd))
      else if command = ''metronome'' then
        and_then (run_metronome Y A peers (fst (env_times E)) (snd (env_times E)) args)
          (\<lambda>nd. return_value (Serves_metronome nd))
      else if command = ''validator'' then
        and_then (run_validator Y (env_blake3 E) (env_uuid E) args)
          (\<lambda>v. return_value (case v of None \<Rightarrow> Exits (- 1) | Some (v, model) \<Rightarrow> Serves_validator v model))
      else if command = ''blockchain'' then
        and_then (run_blockchain Y (env_junk E) args) (\<lambda>nd. return_value (Serves_blockchain nd))
      else if command = ''monitor'' then exits (run_monitor Y A peers (env_clock E) args)
      else exits (and_then (prints (line ''Could not find component to run.'')) (\<lambda>_. return_value (- 1))))"

definition dsc_main :: "'n env \<Rightarrow> string list \<Rightarrow> ('n, 'n outcome) action" where
  "dsc_main E argv =
     and_then (prints (line ''DSC: DataSys Coin Blockchain v1.0'')) (\<lambda>_.
     if length argv < 2
       then exits (and_then (prints (line ''Please provide a component to run.'')) (\<lambda>_. return_value (- 1)))
     else
       let command = argv ! 1; args = drop 2 argv in
       and_then (for_each (\<lambda>s. prints (fmt_s s @ '' '')) args) (\<lambda>_.
       and_then (prints [newline]) (\<lambda>_.
         run_component E command args)))"

section \<open>Frames of actions\<close>

text \<open>An action leaves all files outside a set alone, and only adds to what was sent and printed.\<close>

definition frame :: "string set \<Rightarrow> ('n, 'a) action \<Rightarrow> bool" where
  "frame F m \<longleftrightarrow> (\<forall>h h' r. m h = (h', r) \<longrightarrow>
     (\<forall>f. f \<notin> F \<longrightarrow> host_files h' f = host_files h f) \<and>
     (\<exists>ws. host_wire h' = host_wire h @ ws) \<and> (\<exists>out. host_console h' = host_console h @ out))"

named_theorems frames \<open>actions that stay in a frame\<close>

lemma frame_mono: "frame F m \<Longrightarrow> F \<subseteq> G \<Longrightarrow> frame G m"
  unfolding frame_def by (meson subsetD)

lemma frame_and_then [frames]:
  assumes "frame F m" "\<And>x. frame F (f x)"
  shows "frame F (and_then m f)"
  unfolding frame_def
proof (intro allI impI)
  fix h h' :: "'a host" and r :: "'c result"
  assume run: "and_then m f h = (h', r)"
  obtain h1 r1 where m: "m h = (h1, r1)" by (cases "m h")
  have 1: "\<forall>g. g \<notin> F \<longrightarrow> host_files h1 g = host_files h g" "\<exists>ws. host_wire h1 = host_wire h @ ws"
    "\<exists>out. host_console h1 = host_console h @ out"
    using assms(1) m by (auto simp: frame_def)
  have 2: "(\<forall>g. g \<notin> F \<longrightarrow> host_files h' g = host_files h1 g) \<and> (\<exists>ws. host_wire h' = host_wire h1 @ ws) \<and>
      (\<exists>out. host_console h' = host_console h1 @ out)"
  proof (cases r1)
    case (Inl e)
    then show ?thesis using run m by simp
  next
    case (Inr x)
    then show ?thesis using run m assms(2) [of x] by (simp add: frame_def)
  qed
  obtain ws ws' out out' where "host_wire h1 = host_wire h @ ws" "host_wire h' = host_wire h1 @ ws'"
    "host_console h1 = host_console h @ out" "host_console h' = host_console h1 @ out'"
    using 1(2,3) 2 by blast
  then show "(\<forall>g. g \<notin> F \<longrightarrow> host_files h' g = host_files h g) \<and> (\<exists>ws. host_wire h' = host_wire h @ ws) \<and>
      (\<exists>out. host_console h' = host_console h @ out)"
    using 1(1) 2 by simp
qed

lemma frame_basic [frames]:
  "frame F (return_value x)" "frame F (of_result r)" "frame F (reads g)" "frame F (prints s)"
  "frame F (round_trip A peers de addr p ty)"
  by (auto simp: frame_def round_trip_def Let_def)

lemma frame_writes:
  assumes "\<And>fs x fs' f. g fs = Inr (x, fs') \<Longrightarrow> f \<notin> F \<Longrightarrow> fs' f = fs f"
  shows "frame F (writes g)"
  using assms by (auto simp: frame_def writes_def split: sum.splits prod.splits)

lemma frame_if [frames]: "(b \<Longrightarrow> frame F m) \<Longrightarrow> (\<not> b \<Longrightarrow> frame F n) \<Longrightarrow> frame F (if b then m else n)"
  by simp

lemma frame_prod [frames]: "(\<And>x y. frame F (f x y)) \<Longrightarrow> frame F (case p of (x, y) \<Rightarrow> f x y)"
  by (cases p) simp

lemma frame_for_each [frames]: "(\<And>x. frame F (f x)) \<Longrightarrow> frame F (for_each f xs)"
  by (induction xs) (simp_all add: frames)

section \<open>The files that the commands write\<close>

lemma frame_store_wallet [frames]:
  "c \<in> F \<Longrightarrow> k \<in> F \<Longrightarrow> frame F (writes (\<lambda>fs. bind_result (store_wallet Y w c k fs) (\<lambda>fs'. Inr ((), fs'))))"
  by (rule frame_writes) (auto simp: store_wallet_def bind_result_eq_Inr Let_def write_file_def)

lemma frame_get_tx_id [frames]: "c \<in> F \<Longrightarrow> frame F (writes (get_tx_id Y c))"
  by (rule frame_writes) (auto simp: get_tx_id_def bind_result_eq_Inr Let_def write_file_def)

lemma frame_set_tx_id [frames]:
  "c \<in> F \<Longrightarrow> frame F (writes (\<lambda>fs. bind_result (set_tx_id Y n c fs) (\<lambda>fs'. Inr ((), fs'))))"
  by (rule frame_writes) (auto simp: set_tx_id_def bind_result_eq_Inr Let_def write_file_def)

lemma frame_set_fingerprint [frames]:
  "k \<in> F \<Longrightarrow> frame F (writes (\<lambda>fs. bind_result (set_validator_fingerprint Y u k fs) (\<lambda>fs'. Inr ((), fs'))))"
  by (rule frame_writes) (auto simp: set_validator_fingerprint_def bind_result_eq_Inr Let_def write_file_def)

lemma frame_requests [frames]:
  "frame F (submit_transaction A peers tx addr)" "frame F (query_transaction Y A peers c k i addr)"
  "frame F (query_balance Y A peers addr c k)" "frame F (query_number A peers g ty t)"
  "frame F (request_last_block A peers addr)"
  unfolding submit_transaction_def query_transaction_def query_balance_def query_number_def request_last_block_def
  by (intro frames)+

lemma frame_display [frames]:
  "frame F (display_wallet w)" "frame F (display_transaction tx)" "frame F (display_block_header hdr)"
  unfolding display_wallet_def display_transaction_def display_block_header_def by (intro frames)+

lemma frame_send_loop [frames]: "frame F (send_loop A ossl pad peers now w dst amt ident addr i k)"
  by (induction k arbitrary: i) (simp_all only: send_loop.simps, (intro frames | assumption)+)

text \<open>Commands that only ask and print.\<close>

lemma frame_asking [frames]:
  "frame F cl_wallet_help" "frame F (cl_wallet_key Y c k)" "frame F (cl_wallet_balance Y A peers c k)"
  "frame F (cl_wallet_transaction Y A peers c k i)" "frame F (print_monitor_stats Y A peers clock c)"
  unfolding cl_wallet_help_def cl_wallet_key_def cl_wallet_balance_def cl_wallet_transaction_def Let_def
    print_monitor_stats_def monitor_last_block_def num_trans_def num_validators_def num_wallets_def num_coins_def
    hashes_per_second_def hashes_stored_def
  by (intro frames)+

lemma frame_writing [frames]:
  "c \<in> F \<Longrightarrow> k \<in> F \<Longrightarrow> frame F (cl_wallet_create Y pkey buffers c k)"
  "c \<in> F \<Longrightarrow> frame F (cl_wallet_send Y A ossl pad peers now c k amt dst)"
  "c \<in> F \<Longrightarrow> frame F (cl_wallet_send_multi Y A ossl pad peers clock c k amt dst cnt)"
  unfolding cl_wallet_create_def cl_wallet_send_def cl_wallet_send_multi_def Let_def by (intro frames; assumption)+

lemma frame_nodes [frames]:
  "frame F (run_pool Y args)" "frame F (run_metronome Y A peers prev cur args)" "frame F (run_blockchain Y junk args)"
  "frame F (run_monitor Y A peers clock args)"
  unfolding run_pool_def run_metronome_def run_blockchain_def run_monitor_def by (intro frames)+

section \<open>The frame of main\<close>

text \<open>The files that a command line may write: those it names, and only for three commands.\<close>

definition may_write :: "string list \<Rightarrow> string set" where
  "may_write argv =
     (if take 2 (drop 1 argv) \<in> {[''wallet'', ''create''], [''wallet'', ''send'']} \<or> take 1 (drop 1 argv) = [''validator'']
      then set (drop 2 argv) else {})"

lemma arg_cases: "arg args i = Inr x \<Longrightarrow> x \<in> set args"
  by (auto simp: arg_def split: if_splits)

lemma frame_arg:
  assumes "\<And>x. x \<in> set args \<Longrightarrow> frame F (f x)"
  shows "frame F (and_then (of_result (arg args i)) f)"
proof (cases "arg args i")
  case (Inl e)
  have "and_then (of_result (Inl e)) f = of_result (Inl e)" by (rule ext) simp
  then show ?thesis by (simp add: Inl frames)
next
  case (Inr x)
  have "and_then (of_result (Inr x)) f = f x" by (rule ext) simp
  then show ?thesis using assms [OF arg_cases [OF Inr]] by (simp add: Inr)
qed

lemma frame_run_validator: "frame (set args) (run_validator Y blake3 uuid args)"
  unfolding run_validator_def Let_def by (intro frame_arg frames | assumption)+

lemma frame_exits [frames]: "frame F m \<Longrightarrow> frame F (exits m)"
  unfolding exits_def by (intro frames)

lemma frame_wallet:
  "frame (if args \<noteq> [] \<and> (args ! 0 = ''create'' \<or> args ! 0 = ''send'') then set args else {}) (run_wallet E args)"
proof (cases args)
  case Nil
  then show ?thesis by (simp add: run_wallet_def frames)
next
  case (Cons a as)
  have "frame (set args) (run_wallet E args)"
    unfolding run_wallet_def Let_def
    by (intro frame_arg frames; (assumption | simp))+
  moreover have "frame {} (run_wallet E args)" if "a \<noteq> ''create''" "a \<noteq> ''send''"
    unfolding run_wallet_def Let_def Cons using that by (simp add: frames frame_arg)
  ultimately show ?thesis using Cons by auto
qed

lemma frame_main: "frame (may_write argv) (dsc_main E argv)"
proof (cases "length argv < 2")
  case True
  then show ?thesis unfolding dsc_main_def by (simp add: frames)
next
  case False
  then obtain p command args where argv: "argv = p # command # args" by (metis Suc_le_length_iff numeral_2_eq_2 not_less)
  have "frame (may_write argv) (run_component E command args)"
    unfolding run_component_def Let_def
  proof (intro frames)
    assume "command = ''wallet''"
    then have "may_write argv = (if args \<noteq> [] \<and> (args ! 0 = ''create'' \<or> args ! 0 = ''send'') then set args else {})"
      by (cases args) (simp_all add: may_write_def argv)
    then show "frame (may_write argv) (run_wallet E args)" using frame_wallet [of args E] by simp
  next
    assume "command = ''validator''"
    then show "frame (may_write argv) (run_validator (env_yaml E) (env_blake3 E) (env_uuid E) args)"
      using frame_run_validator [of args] by (simp add: may_write_def argv)
  qed
  then show ?thesis unfolding dsc_main_def Let_def by (simp add: argv frames)
qed

section \<open>The files of a blockchain node\<close>

lemma run_blockchain_files:
  assumes "run_blockchain Y junk args h = (h', Inr nd)"
  shows "file_name (node_component nd) = chain_file Y (args ! 0) (host_files h') \<and> disk (node_component nd) = host_files h'"
proof -
  have fs: "host_files h' = host_files h"
    using frame_nodes(3) [of "{}" Y junk args] assms by (auto simp: frame_def)
  obtain cf bs where args: "args = cf # bs"
    using assms by (cases args) (auto simp: run_blockchain_def and_then_def arg_def)
  obtain bc0 where "new_BlockChain Y (host_files h) cf = Inr bc0" "start_chain Y junk bc0 = Inr (node_component nd)"
    by (rule run_blockchain_node [OF assms [unfolded args] refl]) auto
  from started_chain_files [OF this] show ?thesis by (simp add: fs args)
qed

lemma served_chain_files:
  assumes "dsc_main E argv h = (h', Inr (Serves_blockchain nd))"
  shows "file_name (node_component nd) = chain_file (env_yaml E) (argv ! 2) (host_files h') \<and>
    disk (node_component nd) = host_files h'"
proof -
  have len: "2 \<le> length argv"
    using assms by (auto simp: dsc_main_def and_then_def exits_def split: if_splits prod.splits sum.splits)
  obtain h1 where "run_component E (argv ! 1) (drop 2 argv) h1 = (h', Inr (Serves_blockchain nd))"
    using assms len by (auto simp: dsc_main_def Let_def and_then_def split: prod.splits sum.splits)
  then have "run_blockchain (env_yaml E) (env_junk E) (drop 2 argv) h1 = (h', Inr nd)"
    by (auto simp: run_component_def Let_def exits_def and_then_def split: if_splits prod.splits sum.splits option.splits)
  from run_blockchain_files [OF this] show ?thesis using len by (simp add: nth_drop)
qed

end
