(* ===== verification/Dsc_Correct.thy ===== *)
theory Dsc_Correct
  imports Dsc
begin

text \<open>
  What users read and type: the printed text of a transaction determines it, a new wallet's printed keys are
  its keys in base 58 and are shown again by \<open>wallet key\<close>, and the monitor prints the state of the nodes.
\<close>

section \<open>Texts of keys\<close>

lemma alphabet_printed: "\<forall>ch\<in>set b58digits_ordered. printed ch"
  by (simp add: b58digits_ordered_def printed_def)

lemma key_text_printed:
  assumes "length k = 32" "base58_encode_key k = Inr str"
  shows "\<forall>ch\<in>set str. printed ch"
proof -
  obtain ds where ds: "b58enc 128 k = Inr (Inr (replicate (length (takeWhile (\<lambda>b. b = 0) k)) (CHR ''1'') @
      map (\<lambda>d. b58digits_ordered ! d) ds))" "\<forall>d\<in>set ds. d < 58"
    using b58enc_correct [of k 128] assms(1) by auto
  have "length b58digits_ordered = 58" by (simp add: b58digits_ordered_def)
  then have "printed (b58digits_ordered ! d)" if "d < 58" for d using alphabet_printed that by simp
  moreover have "printed (CHR ''1'')" by (simp add: printed_def)
  moreover have "str = replicate (length (takeWhile (\<lambda>b. b = 0) k)) (CHR ''1'') @ map (\<lambda>d. b58digits_ordered ! d) ds"
    using assms(2) ds(1) by (simp add: base58_encode_key_def base58_encode_def)
  ultimately show ?thesis using ds(2) by (auto simp: in_set_replicate)
qed

lemma key_text:
  assumes "length k = 32"
  obtains str where "base58_encode_key k = Inr str" "fmt_s str = str" "newline \<notin> set str" "base58_decode_key str = Inr k"
proof -
  obtain str where str: "base58_encode_key k = Inr str" using encode_key_total [OF assms] by blast
  have p: "\<forall>ch\<in>set str. printed ch" by (rule key_text_printed [OF assms str])
  then have "newline \<notin> set str" using printed_not(1) by blast
  then show thesis using that str fmt_s_printed [OF p] decode_of_encode(1) [OF assms str] by blast
qed

lemma no_newline: "newline \<notin> set (fmt_lu w)" "newline \<notin> set (fmt_d v)" "newline \<notin> set (hex_text bs)"
  using printed_fmt_lu printed_fmt_d printed_hex_text printed_not(1) by blast+

section \<open>Runs of the wallet commands\<close>

lemma display_wallet_run:
  assumes "base58_encode_key (pub_key w) = Inr p" "base58_encode_key (priv_key w) = Inr s"
  shows "display_wallet w h = (h\<lparr>host_console := host_console h @ wallet_text p s\<rparr>, Inr ())"
  by (simp add: display_wallet_def assms)

lemma create_run:
  assumes "yaml_laws (env_yaml E)" "c \<noteq> k" "host_files h c \<noteq> None" "host_files h k \<noteq> None"
    and "env_keys E = Some (pub, priv)" "length pub = 32" "length priv = 32"
    and "base58_encode_key pub = Inr p" "base58_encode_key priv = Inr s"
  obtains fs' where "load_wallet (env_yaml E) c k fs' = Inr \<lparr>priv_key = priv, pub_key = pub\<rparr>"
    "run_wallet E [''create'', c, k] h =
       (h\<lparr>host_files := fs', host_console := host_console h @ line ''Creating wallet...'' @ wallet_text p s\<rparr>, Inr 0)"
proof -
  let ?w = "\<lparr>priv_key = priv, pub_key = pub\<rparr>"
  obtain fs' where fs': "store_wallet (env_yaml E) ?w c k (host_files h) = Inr fs'" "load_wallet (env_yaml E) c k fs' = Inr ?w"
    using stored_wallet_is_loaded [OF assms(1-4), of ?w] assms(6,7) by auto
  have "create_wallet (env_keys E) (env_buffers E) = ?w"
    by (simp add: create_wallet_def gen_keys_ed25519_def assms(5))
  then have "run_wallet E [''create'', c, k] h =
      (h\<lparr>host_files := fs', host_console := host_console h @ line ''Creating wallet...'' @ wallet_text p s\<rparr>, Inr 0)"
    by (simp add: run_wallet_def arg_def cl_wallet_create_def Let_def fs'(1) display_wallet_run [of ?w] assms(8,9))
  then show thesis using that fs'(2) by blast
qed

lemma key_run:
  assumes "load_wallet (env_yaml E) c k (host_files h) = Inr w"
    and "base58_encode_key (pub_key w) = Inr p" "base58_encode_key (priv_key w) = Inr s"
  shows "run_wallet E [''key'', c, k] h =
    (h\<lparr>host_console := host_console h @ line ''Loading wallet...'' @ wallet_text p s\<rparr>, Inr 0)"
  by (simp add: run_wallet_def cl_wallet_key_def assms(1) display_wallet_run [OF assms(2,3)])

text \<open>An environment with a generated key pair and no peers.\<close>

definition client_env :: "snode env" where
  "client_env =
     \<lparr>env_yaml = sample_yaml, env_alpaca = codec_alpaca, env_openssl = sample_openssl, env_peers = (\<lambda>_. []),
      env_clock = (\<lambda>_. 5), env_pad = zeros 4, env_keys = Some (sample_key 2, sample_key 1), env_uuid = zeros 16,
      env_blake3 = (\<lambda>_. zero_hash), env_buffers = (zero_key, zero_key), env_times = (0, 0), env_junk = 0\<rparr>"

section \<open>Properties\<close>

text \<open>
  C36. What \<open>wallet send\<close> shows of a transaction before it posts it is all of it: two transactions have the same
  printed text only if they are equal, in both keys, the amount, the id, the time and the signature.
\<close>

theorem displayed_transaction_is_unambiguous:
  assumes "tx_wf t" "tx_wf t'"
  shows "display_transaction t h = display_transaction t' h \<longleftrightarrow> t = t'"
proof
  obtain s d where t: "base58_encode_key (src t) = Inr s" "fmt_s s = s" "newline \<notin> set s"
    "base58_encode_key (dest t) = Inr d" "fmt_s d = d" "newline \<notin> set d"
    using assms(1) by (metis key_text tx_wf_def)
  obtain s' d' where t': "base58_encode_key (src t') = Inr s'" "fmt_s s' = s'" "newline \<notin> set s'"
    "base58_encode_key (dest t') = Inr d'" "fmt_s d' = d'" "newline \<notin> set d'"
    using assms(2) by (metis key_text tx_wf_def)
  assume "display_transaction t h = display_transaction t' h"
  then have "host_console (fst (display_transaction t h)) = host_console (fst (display_transaction t' h))" by simp
  then have "transaction_text s d t = transaction_text s' d' t'"
    by (simp add: display_transaction_def t t')
  then have eq: "s = s'" "d = d'" "amount t = amount t'" "tx_id t = tx_id t'" "tx_timestamp t = tx_timestamp t'"
    "signature t = signature t'"
    by (simp_all add: transaction_text_def t t' line_split no_newline fmt_d_inj fmt_lu_inj hex_text_inj)
  then have "src t = src t'" "dest t = dest t'"
    using encode_key_inj [of "src t" "src t'"] encode_key_inj [of "dest t" "dest t'"] assms t(1,4) t'(1,4)
    by (simp_all add: tx_wf_def)
  with eq show "t = t'" by (simp add: Transaction.equality)
qed simp

theorem displayed_transaction_is_unambiguous_witness:
  "display_transaction (sample_tx 1 7 20) client_host \<noteq> display_transaction (sample_tx 1 7 4294967276) client_host"
proof -
  have "tx_wf (sample_tx 1 7 a)" for a by (simp add: tx_wf_def sample_tx_def)
  then show ?thesis
    using displayed_transaction_is_unambiguous [of "sample_tx 1 7 20" "sample_tx 1 7 4294967276" client_host]
    by (simp add: sample_tx_def)
qed

text \<open>
  C34. A new wallet is printed as it is stored: with a generated key pair, \<open>wallet create\<close> returns 0 and prints
  two texts that decode to the pair, and \<open>wallet key\<close> with the same two files, run next, prints the same two texts
  and changes no file.
\<close>

theorem created_wallet_is_shown_again:
  assumes "yaml_laws (env_yaml E)" "c \<noteq> k" "host_files h c \<noteq> None" "host_files h k \<noteq> None"
    and "env_keys E = Some (pub, priv)" "length pub = 32" "length priv = 32"
  shows "\<exists>h1 h2 p s. run_wallet E [''create'', c, k] h = (h1, Inr 0) \<and>
    host_console h1 = host_console h @ line ''Creating wallet...'' @ line (''Public Key: '' @ p) @ line (''Private Key: '' @ s) \<and>
    base58_decode_key p = Inr pub \<and> base58_decode_key s = Inr priv \<and>
    run_wallet E [''key'', c, k] h1 = (h2, Inr 0) \<and> host_files h2 = host_files h1 \<and>
    host_console h2 = host_console h1 @ line ''Loading wallet...'' @ line (''Public Key: '' @ p) @ line (''Private Key: '' @ s)"
proof -
  obtain p where p: "base58_encode_key pub = Inr p" "fmt_s p = p" "base58_decode_key p = Inr pub"
    using key_text [OF assms(6)] by blast
  obtain s where s: "base58_encode_key priv = Inr s" "fmt_s s = s" "base58_decode_key s = Inr priv"
    using key_text [OF assms(7)] by blast
  let ?h1 = "\<lambda>fs'. h\<lparr>host_files := fs', host_console := host_console h @ line ''Creating wallet...'' @ wallet_text p s\<rparr>"
  obtain fs' where fs': "load_wallet (env_yaml E) c k fs' = Inr \<lparr>priv_key = priv, pub_key = pub\<rparr>"
    "run_wallet E [''create'', c, k] h = (?h1 fs', Inr 0)"
    using create_run [OF assms p(1) s(1)] by blast
  have "run_wallet E [''key'', c, k] (?h1 fs') =
      ((?h1 fs')\<lparr>host_console := host_console (?h1 fs') @ line ''Loading wallet...'' @ wallet_text p s\<rparr>, Inr 0)"
    by (rule key_run [where w = "\<lparr>priv_key = priv, pub_key = pub\<rparr>"]) (simp_all add: fs'(1) p(1) s(1))
  then show ?thesis using p(3) s(3) fs'(2)
    by (intro exI [of _ "?h1 fs'"]
        exI [of _ "(?h1 fs')\<lparr>host_console := host_console (?h1 fs') @ line ''Loading wallet...'' @ wallet_text p s\<rparr>"]
        exI [of _ p] exI [of _ s]) (simp add: wallet_text_def p(2) s(2))
qed

theorem created_wallet_is_shown_again_witness:
  "\<exists>h1 h2 p s. run_wallet client_env [''create'', ''dsc-config.yaml'', ''dsc-key.yaml''] client_host = (h1, Inr 0) \<and>
    host_console h1 = line ''Creating wallet...'' @ line (''Public Key: '' @ p) @ line (''Private Key: '' @ s) \<and>
    base58_decode_key p = Inr (sample_key 2) \<and> base58_decode_key s = Inr (sample_key 1) \<and>
    run_wallet client_env [''key'', ''dsc-config.yaml'', ''dsc-key.yaml''] h1 = (h2, Inr 0) \<and> host_files h2 = host_files h1"
  using created_wallet_is_shown_again [of client_env "''dsc-config.yaml''" "''dsc-key.yaml''" client_host "sample_key 2" "sample_key 1"]
  by (fastforce simp: client_env_def sample_yaml_laws client_host_def client_files_def)

section \<open>The monitor and the nodes\<close>

text \<open>What the monitor relies on: headers of messages and blocks arrive as sent, and the bytes of an \<open>int\<close> are those of a \<open>uint32_t\<close>.\<close>

definition carries_answers :: "alpaca \<Rightarrow> bool" where
  "carries_answers A \<longleftrightarrow> carries_headers A \<and> (\<forall>x. de_uint32 A (ser_payload A (P_int x)) = x)"

lemma codec_carries_answers: "carries_answers codec_alpaca"
  by (simp add: carries_answers_def codec_carries_headers codec_sel)

lemma reachable_answer:
  assumes "carries_answers A" "reachable A handler nd peers" "node_address nd = Some addr"
    and "\<And>req. msg_type (msg_header req) = ty \<Longrightarrow> handler (node_component nd) req = Inr (s', (p, STATUS_GOOD))"
  shows "recv_payload A de (peers (w @ [(addr, send_message A P_null ty)])) =
    Inr (\<lparr>msg_type = STATUS_GOOD, msg_size = of_nat (length (ser_payload A p))\<rparr>, de (ser_payload A p))"
proof -
  have hdr: "de_header A (ser_header A x) = x" for x using assms(1) by (simp add: carries_answers_def carries_headers_def)
  have "peers (w @ [(addr, send_message A P_null ty)]) = answer_parts A handler (node_component nd) (send_message A P_null ty)"
    using assms(2,3) by (simp add: reachable_def)
  also have "\<dots> = send_message A p STATUS_GOOD"
    using assms(4) by (simp add: answer_parts_def recv_send_message [OF hdr])
  finally show ?thesis by (simp add: recv_payload_message recv_send_message [OF hdr])
qed

lemma query_number_answered:
  assumes "carries_answers A" "reachable A handler nd peers" "node_address nd = Some addr"
    and "\<And>req. msg_type (msg_header req) = ty \<Longrightarrow> handler (node_component nd) req = Inr (s', (P_int x, STATUS_GOOD))"
    and "g (host_files h) = Inr addr"
  shows "query_number A peers g ty t h =
    (h\<lparr>host_wire := host_wire h @ [(addr, send_message A P_null ty)], host_console := host_console h @ t (fmt_d x)\<rparr>, Inr ())"
proof -
  have "recv_payload A (de_uint32 A) (peers (host_wire h @ [(addr, send_message A P_null ty)])) =
      Inr (\<lparr>msg_type = STATUS_GOOD, msg_size = of_nat (length (ser_payload A (P_int x)))\<rparr>, de_uint32 A (ser_payload A (P_int x)))"
    by (rule reachable_answer [OF assms(1-3)]) (rule assms(4))
  then show ?thesis
    using assms(1,5) by (simp add: query_number_def and_then_def round_trip_def Let_def carries_answers_def)
qed

lemma last_block_shown:
  assumes "carries_answers A" "reachable A (chain_request_handler A Y confirm) b peers" "chain_wf (node_component b)"
    and "node_address b = Some addr" "get_blockchain_address Y cf (host_files h) = Inr addr"
    and "base58_encode_key (hash (header (last (blocks (node_component b))))) = Inr ht"
    and "base58_encode_key (prev_hash (header (last (blocks (node_component b))))) = Inr pt"
  shows "monitor_last_block Y A peers cf h =
    (h\<lparr>host_wire := host_wire h @ [(addr, send_message A P_null QUERY_LAST_BLOCK)],
       host_console := host_console h @ header_text ht pt (header (last (blocks (node_component b)))) @ [newline]\<rparr>, Inr ())"
proof -
  let ?hdr = "header (last (blocks (node_component b)))"
  have ne: "blocks (node_component b) \<noteq> []" and wf: "header_wf ?hdr"
    using assms(3) by (auto simp: chain_wf_def block_wf_def)
  have "recv_payload A (de_block_header A) (peers (host_wire h @ [(addr, send_message A P_null QUERY_LAST_BLOCK)])) =
      Inr (\<lparr>msg_type = STATUS_GOOD, msg_size = of_nat (length (ser_payload A (P_header ?hdr)))\<rparr>,
        de_block_header A (ser_payload A (P_header ?hdr)))"
    by (rule reachable_answer [OF assms(1,2,4)]) (simp add: chain_request_handler_def last_block_def ne)
  also have "de_block_header A (ser_payload A (P_header ?hdr)) = ?hdr"
    using assms(1) wf by (simp add: carries_answers_def carries_headers_def)
  finally show ?thesis
    using assms(5) by (simp add: monitor_last_block_def and_then_def round_trip_def Let_def
        display_block_header_text [OF assms(6,7)])
qed

text \<open>What the nodes answer.\<close>

lemma pool_counts:
  "msg_type (msg_header req) = QUERY_TX_COUNT \<Longrightarrow> pool_request_handler A ossl pad ask p req =
     Inr (p, (P_int (of_nat (length (submitted_queue p) + length (unconfirmed_queue p))), STATUS_GOOD))"
  by (simp add: pool_request_handler_def query_tx_count_def)

lemma met_counts:
  "msg_type (msg_header req) = QUERY_NUM_VALIDATORS \<Longrightarrow>
     met_request_handler A submit m req = Inr (m, (P_int (active_validators m), STATUS_GOOD))"
  by (simp add: met_request_handler_def query_validators_def)

lemma chain_counts:
  "msg_type (msg_header req) = QUERY_NUM_ADDRS \<Longrightarrow>
     chain_request_handler A Y confirm bc req = Inr (bc, (P_int (of_nat (length (ledger bc))), STATUS_GOOD))"
  "msg_type (msg_header req) = QUERY_COINS \<Longrightarrow>
     chain_request_handler A Y confirm bc req = Inr (bc, (P_int (coins (ledger bc)), STATUS_GOOD))"
  by (simp_all add: chain_request_handler_def get_num_addr_def get_total_coins_def foldl_coins)

text \<open>
  C35. The monitor prints the state of the network: when it reaches a pool, a metronome and a blockchain node,
  it returns 0, changes no file, and prints the header of the chain's last block, the number of queued
  transactions, the number of registrations, the number of addresses that occur in the chain and the coins.
\<close>

theorem monitor_prints_network_state:
  assumes "carries_answers A" "chain_wf (node_component b)"
    and "reachable A (pool_request_handler A ossl pad ask) p peers" "reachable A (met_request_handler A submit) m peers"
    and "reachable A (chain_request_handler A Y confirm) b peers"
    and "map_option Inr (node_address p) = Some (get_tx_pool_address Y cf (host_files h))"
    and "map_option Inr (node_address m) = Some (get_metronome_address Y cf (host_files h))"
    and "map_option Inr (node_address b) = Some (get_blockchain_address Y cf (host_files h))"
  shows "\<exists>h' ht pt. run_monitor Y A peers clock [x, cf] h = (h', Inr 0) \<and> host_files h' = host_files h \<and>
    base58_encode_key (hash (header (last (blocks (node_component b))))) = Inr ht \<and>
    base58_encode_key (prev_hash (header (last (blocks (node_component b))))) = Inr pt \<and>
    host_console h' = host_console h @ line ''Starting monitor'' @ line (tab # ''timestamp: '' @ fmt_lu (clock 0)) @
      header_text ht pt (header (last (blocks (node_component b)))) @ [newline] @
      line (''Size of transation queue: '' @
        fmt_d (of_nat (length (submitted_queue (node_component p)) + length (unconfirmed_queue (node_component p))))) @ [newline] @
      line (''Number of validators: '' @ fmt_d (active_validators (node_component m))) @
      line (''Number of wallets on blockchain: '' @ fmt_d (of_nat (card (addresses (all_txs (node_component b)))))) @
      line (''Net total number of coins in blockchain: '' @ fmt_d (coins (ledger (node_component b))) @ '' coins.'') @
      line ''hashes_per_second not implemented'' @ line ''hashes_stored not implemented'' @
      line (tab # ''End of monitor stats. timestamp: '' @ fmt_lu (clock 1))"
proof -
  obtain pa ma ba where addr: "node_address p = Some pa" "get_tx_pool_address Y cf (host_files h) = Inr pa"
    "node_address m = Some ma" "get_metronome_address Y cf (host_files h) = Inr ma"
    "node_address b = Some ba" "get_blockchain_address Y cf (host_files h) = Inr ba"
    using assms(6-8) by auto
  have "header_wf (header (last (blocks (node_component b))))" using assms(2) by (auto simp: chain_wf_def block_wf_def)
  then obtain ht pt where texts: "base58_encode_key (hash (header (last (blocks (node_component b))))) = Inr ht"
    "base58_encode_key (prev_hash (header (last (blocks (node_component b))))) = Inr pt"
    using encode_key_total unfolding header_wf_def by blast
  have num: "of_nat (length (ledger (node_component b))) = (of_nat (card (addresses (all_txs (node_component b)))) :: u32)"
    using chain_ledger(1,2) [OF assms(2)] umap.size_entries [of "ledger (node_component b)"] by simp
  note shown = last_block_shown [OF assms(1,5,2) addr(5) _ texts]
  note count = query_number_answered [OF assms(1,3) addr(1), where ty = QUERY_TX_COUNT, OF pool_counts]
  note vals = query_number_answered [OF assms(1,4) addr(3), where ty = QUERY_NUM_VALIDATORS, OF met_counts]
  note wallets = query_number_answered [OF assms(1,5) addr(5), where ty = QUERY_NUM_ADDRS, OF chain_counts(1)]
  note coins = query_number_answered [OF assms(1,5) addr(5), where ty = QUERY_COINS, OF chain_counts(2)]
  note steps = run_monitor_def print_monitor_stats_def num_trans_def num_validators_def num_wallets_def num_coins_def
    hashes_per_second_def hashes_stored_def
  show ?thesis
    by (intro exI [of _ "fst (run_monitor Y A peers clock [x, cf] h)"] exI [of _ ht] exI [of _ pt])
      (simp add: steps arg_def addr texts shown count vals wallets coins num)
qed

theorem monitor_prints_network_state_witness:
  "\<exists>(bc :: snode BlockChain) peers h'. blocks bc = [genesis_block] \<and>
     run_monitor sample_yaml codec_alpaca peers (\<lambda>_. 5) [''dsc-key.yaml'', ''dsc-config.yaml'']
       \<lparr>host_files = genesis_files, host_wire = [], host_console = []\<rparr> = (h', Inr 0) \<and> host_files h' = genesis_files"
proof -
  let ?h = "\<lparr>host_files = genesis_files, host_wire = [], host_console = []\<rparr> :: snode host"
  obtain bc where bc: "start_chain sample_yaml 0 genesis_node_state = Inr bc" "chain_wf bc" "blocks bc = [genesis_block]"
    using genesis_start [of 0] by blast
  let ?pa = "''tcp://127.0.0.1:10001''" and ?ma = "''tcp://127.0.0.1:10003''" and ?ba = "''tcp://127.0.0.1:10004''"
  let ?p = "\<lparr>node_component = empty_pool, node_peer = ?ba, node_address = Some ?pa\<rparr>"
    and ?m = "\<lparr>node_component = new_Metronome 1 2 (header genesis_block), node_peer = ?ba, node_address = Some ?ma\<rparr>"
    and ?b = "\<lparr>node_component = bc, node_peer = ?pa, node_address = Some ?ba\<rparr>"
    and ?hp = "pool_request_handler codec_alpaca sample_openssl (zeros 4) (\<lambda>_. Inr UNKNOWN)"
    and ?hm = "met_request_handler codec_alpaca (\<lambda>_. Inr STATUS_GOOD)"
    and ?hb = "chain_request_handler codec_alpaca sample_yaml (\<lambda>_. Inr ())"
  let ?peers = "\<lambda>w. if fst (last w) = ?pa then answer_parts codec_alpaca ?hp (node_component ?p) (snd (last w))
    else if fst (last w) = ?ma then answer_parts codec_alpaca ?hm (node_component ?m) (snd (last w))
    else answer_parts codec_alpaca ?hb (node_component ?b) (snd (last w))"
  have reach: "reachable codec_alpaca ?hp ?p ?peers" "reachable codec_alpaca ?hm ?m ?peers" "reachable codec_alpaca ?hb ?b ?peers"
    by (simp_all add: reachable_def)
  have addr: "map_option Inr (node_address ?p) = Some (get_tx_pool_address sample_yaml ''dsc-config.yaml'' (host_files ?h))"
    "map_option Inr (node_address ?m) = Some (get_metronome_address sample_yaml ''dsc-config.yaml'' (host_files ?h))"
    "map_option Inr (node_address ?b) = Some (get_blockchain_address sample_yaml ''dsc-config.yaml'' (host_files ?h))"
    by (simp_all add: get_blockchain_address_def get_tx_pool_address_def get_metronome_address_def setting_def LoadFile_def
        genesis_files_def GENESIS_FILE_def)
  have wf: "chain_wf (node_component ?b)" using bc(2) by simp
  obtain h' where "run_monitor sample_yaml codec_alpaca ?peers (\<lambda>_. 5) [''dsc-key.yaml'', ''dsc-config.yaml''] ?h = (h', Inr 0)"
    "host_files h' = genesis_files"
    using monitor_prints_network_state [OF codec_carries_answers wf reach addr, of "\<lambda>_. 5" "''dsc-key.yaml''"]
    by (elim exE conjE) simp
  then show ?thesis using bc(3) by blast
qed

text \<open>
  C37. Which files a process changes. Until it ends or starts to serve, only \<open>wallet create\<close>, \<open>wallet send\<close> and
  \<open>validator\<close> change files, and only files that their command line names: whatever the peers, the clock and
  the libraries do, and also when the process ends by an exception, every other file is as before, and
  messages and printed text are only added. A process that goes on as a blockchain node changes, by any
  requests that it answers then, no file but its chain file: the one that its configuration file names, or
  \<open>blockchain.yaml\<close>, which the command line does not name.
\<close>

theorem main_changes_only_named_files:
  assumes "dsc_main E argv h = (h', r)"
  shows "(\<forall>f. f \<notin> may_write argv \<longrightarrow> host_files h' f = host_files h f) \<and>
    (\<exists>ws. host_wire h' = host_wire h @ ws) \<and> (\<exists>out. host_console h' = host_console h @ out) \<and>
    (\<forall>nd A confirm reqs bc rs f. r = Inr (Serves_blockchain nd) \<and>
       serve (chain_request_handler A (env_yaml E) confirm) (node_component nd) reqs = Inr (bc, rs) \<and>
       f \<noteq> chain_file (env_yaml E) (argv ! 2) (host_files h') \<longrightarrow> disk bc f = host_files h' f)"
proof -
  have "disk bc f = host_files h' f"
    if "r = Inr (Serves_blockchain nd)" "f \<noteq> chain_file (env_yaml E) (argv ! 2) (host_files h')"
      and "serve (chain_request_handler A (env_yaml E) confirm) (node_component nd) reqs = Inr (bc, rs)"
    for nd A confirm reqs bc rs f
  proof -
    have "file_name (node_component nd) = chain_file (env_yaml E) (argv ! 2) (host_files h') \<and>
        disk (node_component nd) = host_files h'"
      by (rule served_chain_files) (use assms that(1) in simp)
    then show ?thesis using chain_serve_files [OF that(3)] that(2) by (simp add: same_but_chain_file_def)
  qed
  then show ?thesis using frame_main [of argv E] assms by (simp add: frame_def) blast
qed

theorem main_changes_only_named_files_witness:
  "\<exists>h'. dsc_main client_env [''./dsc'', ''wallet'', ''create'', ''dsc-config.yaml'', ''dsc-key.yaml''] client_host =
      (h', Inr (Exits 0)) \<and> host_files h' ''genesis.yaml'' = None"
proof -
  obtain p s where ps: "base58_encode_key (sample_key 2) = Inr p" "base58_encode_key (sample_key 1) = Inr s"
    using encode_key_total [of "sample_key 2"] encode_key_total [of "sample_key 1"] by auto
  let ?argv = "[''./dsc'', ''wallet'', ''create'', ''dsc-config.yaml'', ''dsc-key.yaml'']"
  let ?h = "client_host\<lparr>host_console := line ''DSC: DataSys Coin Blockchain v1.0'' @ ''create dsc-config.yaml dsc-key.yaml '' @ [newline]\<rparr>"
  obtain h' where h': "run_wallet client_env [''create'', ''dsc-config.yaml'', ''dsc-key.yaml''] ?h = (h', Inr 0)"
    using create_run [of client_env "''dsc-config.yaml''" "''dsc-key.yaml''" ?h "sample_key 2" "sample_key 1" p s] ps
    by (auto simp: client_env_def sample_yaml_laws client_host_def client_files_def)
  then have run: "dsc_main client_env ?argv client_host = (h', Inr (Exits 0))"
    by (simp add: dsc_main_def run_component_def exits_def fmt_s_def client_host_def)
  then show ?thesis
    using main_changes_only_named_files [OF run] by (simp add: may_write_def client_host_def client_files_def)
qed

end
