(* ===== verification/Blake3_Compress.thy ===== *)
theory Blake3_Compress
  imports Prelude
begin

text \<open>
  The compression function of the BLAKE3 library under external/blake3: the constants and helpers of
  blake3_impl.h and the portable kernels of blake3_portable.c. Arrays of words and bytes are lists; a pointer into an array is the list from there
  on.
\<close>

section \<open>Constants (blake3.h, blake3_impl.h)\<close>

definition BLAKE3_OUT_LEN :: nat where "BLAKE3_OUT_LEN = 32"
definition BLAKE3_BLOCK_LEN :: nat where "BLAKE3_BLOCK_LEN = 64"
definition BLAKE3_CHUNK_LEN :: nat where "BLAKE3_CHUNK_LEN = 1024"
definition BLAKE3_MAX_DEPTH :: nat where "BLAKE3_MAX_DEPTH = 54"

definition CHUNK_START :: byte where "CHUNK_START = push_bit 0 1"
definition CHUNK_END :: byte where "CHUNK_END = push_bit 1 1"
definition PARENT :: byte where "PARENT = push_bit 2 1"
definition ROOT :: byte where "ROOT = push_bit 3 1"
definition KEYED_HASH :: byte where "KEYED_HASH = push_bit 4 1"
definition DERIVE_KEY_CONTEXT :: byte where "DERIVE_KEY_CONTEXT = push_bit 5 1"
definition DERIVE_KEY_MATERIAL :: byte where "DERIVE_KEY_MATERIAL = push_bit 6 1"

definition IV :: "u32 list" where
  "IV = [0x6A09E667, 0xBB67AE85, 0x3C6EF372, 0xA54FF53A, 0x510E527F, 0x9B05688C, 0x1F83D9AB, 0x5BE0CD19]"

definition MSG_SCHEDULE :: "nat list list" where
  "MSG_SCHEDULE =
    [[0, 1, 2, 3, 4, 5, 6, 7, 8, 9, 10, 11, 12, 13, 14, 15],
     [2, 6, 3, 10, 7, 0, 4, 13, 1, 11, 12, 5, 9, 14, 15, 8],
     [3, 4, 10, 12, 13, 2, 7, 14, 6, 5, 9, 0, 11, 15, 8, 1],
     [10, 7, 12, 9, 14, 3, 13, 15, 4, 0, 11, 2, 5, 8, 1, 6],
     [12, 13, 9, 11, 15, 10, 14, 8, 7, 2, 5, 3, 0, 1, 6, 4],
     [9, 14, 11, 5, 8, 12, 15, 1, 13, 3, 0, 10, 2, 6, 4, 7],
     [11, 15, 5, 0, 1, 9, 8, 6, 14, 10, 2, 12, 3, 4, 7, 13]]"

section \<open>Bits and bytes (blake3_impl.h)\<close>

text \<open>The index of the highest set bit of a number other than 0, and the number of its set bits.\<close>

fun highest_one :: "nat \<Rightarrow> nat" where
  "highest_one x = (if x < 2 then 0 else Suc (highest_one (x div 2)))"

declare highest_one.simps [simp del]

fun popcnt :: "nat \<Rightarrow> nat" where
  "popcnt x = (if x = 0 then 0 else x mod 2 + popcnt (x div 2))"

declare popcnt.simps [simp del]

definition round_down_to_power_of_2 :: "nat \<Rightarrow> nat" where
  "round_down_to_power_of_2 x = 2 ^ highest_one (x OR 1)"

definition counter_low :: "u64 \<Rightarrow> u32" where
  "counter_low counter = ucast counter"

definition counter_high :: "u64 \<Rightarrow> u32" where
  "counter_high counter = ucast (drop_bit 32 counter)"

definition load32 :: "byte list \<Rightarrow> u32" where
  "load32 p = push_bit 0 (ucast (p ! 0)) OR push_bit 8 (ucast (p ! 1)) OR push_bit 16 (ucast (p ! 2))
     OR push_bit 24 (ucast (p ! 3))"

definition store32 :: "u32 \<Rightarrow> byte list" where
  "store32 w = [ucast (drop_bit 0 w), ucast (drop_bit 8 w), ucast (drop_bit 16 w), ucast (drop_bit 24 w)]"

definition load_key_words :: "byte list \<Rightarrow> u32 list" where
  "load_key_words k = map (\<lambda>i. load32 (drop (i * 4) k)) [0..<8]"

definition store_cv_words :: "u32 list \<Rightarrow> byte list" where
  "store_cv_words cv_words = concat (map (\<lambda>i. store32 (cv_words ! i)) [0..<8])"

section \<open>The portable kernels (blake3_portable.c)\<close>

definition rotr32 :: "u32 \<Rightarrow> nat \<Rightarrow> u32" where
  "rotr32 w c = drop_bit c w OR push_bit (32 - c) w"

definition blake3_g :: "nat \<Rightarrow> nat \<Rightarrow> nat \<Rightarrow> nat \<Rightarrow> u32 \<Rightarrow> u32 \<Rightarrow> u32 list \<Rightarrow> u32 list" where
  "blake3_g a b c d x y st =
     (let st = st[a := st ! a + st ! b + x];
          st = st[d := rotr32 (st ! d XOR st ! a) 16];
          st = st[c := st ! c + st ! d];
          st = st[b := rotr32 (st ! b XOR st ! c) 12];
          st = st[a := st ! a + st ! b + y];
          st = st[d := rotr32 (st ! d XOR st ! a) 8];
          st = st[c := st ! c + st ! d];
          st = st[b := rotr32 (st ! b XOR st ! c) 7]
      in st)"

definition round_fn :: "u32 list \<Rightarrow> nat \<Rightarrow> u32 list \<Rightarrow> u32 list" where
  "round_fn msg r st =
     (let sched = MSG_SCHEDULE ! r;
          st = blake3_g 0 4 8 12 (msg ! (sched ! 0)) (msg ! (sched ! 1)) st;
          st = blake3_g 1 5 9 13 (msg ! (sched ! 2)) (msg ! (sched ! 3)) st;
          st = blake3_g 2 6 10 14 (msg ! (sched ! 4)) (msg ! (sched ! 5)) st;
          st = blake3_g 3 7 11 15 (msg ! (sched ! 6)) (msg ! (sched ! 7)) st;
          st = blake3_g 0 5 10 15 (msg ! (sched ! 8)) (msg ! (sched ! 9)) st;
          st = blake3_g 1 6 11 12 (msg ! (sched ! 10)) (msg ! (sched ! 11)) st;
          st = blake3_g 2 7 8 13 (msg ! (sched ! 12)) (msg ! (sched ! 13)) st;
          st = blake3_g 3 4 9 14 (msg ! (sched ! 14)) (msg ! (sched ! 15)) st
      in st)"

text \<open>\<open>block_len\<close> is a \<open>uint8_t\<close> of at most 64, here a number.\<close>

definition compress_pre :: "u32 list \<Rightarrow> byte list \<Rightarrow> nat \<Rightarrow> u64 \<Rightarrow> byte \<Rightarrow> u32 list" where
  "compress_pre cv block block_len counter flags =
     (let block_words = map (\<lambda>i. load32 (drop (4 * i) block)) [0..<16];
          st = [cv ! 0, cv ! 1, cv ! 2, cv ! 3, cv ! 4, cv ! 5, cv ! 6, cv ! 7, IV ! 0, IV ! 1, IV ! 2, IV ! 3,
                counter_low counter, counter_high counter, of_nat block_len, ucast flags];
          st = round_fn block_words 0 st;
          st = round_fn block_words 1 st;
          st = round_fn block_words 2 st;
          st = round_fn block_words 3 st;
          st = round_fn block_words 4 st;
          st = round_fn block_words 5 st;
          st = round_fn block_words 6 st
      in st)"

definition blake3_compress_in_place_portable :: "u32 list \<Rightarrow> byte list \<Rightarrow> nat \<Rightarrow> u64 \<Rightarrow> byte \<Rightarrow> u32 list" where
  "blake3_compress_in_place_portable cv block block_len counter flags =
     (let st = compress_pre cv block block_len counter flags
      in [st ! 0 XOR st ! 8, st ! 1 XOR st ! 9, st ! 2 XOR st ! 10, st ! 3 XOR st ! 11,
          st ! 4 XOR st ! 12, st ! 5 XOR st ! 13, st ! 6 XOR st ! 14, st ! 7 XOR st ! 15])"

definition blake3_compress_xof_portable :: "u32 list \<Rightarrow> byte list \<Rightarrow> nat \<Rightarrow> u64 \<Rightarrow> byte \<Rightarrow> byte list" where
  "blake3_compress_xof_portable cv block block_len counter flags =
     (let st = compress_pre cv block block_len counter flags
      in store32 (st ! 0 XOR st ! 8) @ store32 (st ! 1 XOR st ! 9) @ store32 (st ! 2 XOR st ! 10)
       @ store32 (st ! 3 XOR st ! 11) @ store32 (st ! 4 XOR st ! 12) @ store32 (st ! 5 XOR st ! 13)
       @ store32 (st ! 6 XOR st ! 14) @ store32 (st ! 7 XOR st ! 15)
       @ store32 (st ! 8 XOR cv ! 0) @ store32 (st ! 9 XOR cv ! 1) @ store32 (st ! 10 XOR cv ! 2)
       @ store32 (st ! 11 XOR cv ! 3) @ store32 (st ! 12 XOR cv ! 4) @ store32 (st ! 13 XOR cv ! 5)
       @ store32 (st ! 14 XOR cv ! 6) @ store32 (st ! 15 XOR cv ! 7))"

text \<open>The loop of \<open>hash_one_portable\<close>, with \<open>block_flags\<close> as the last argument.\<close>

fun hash_one_loop :: "byte list \<Rightarrow> nat \<Rightarrow> u64 \<Rightarrow> byte \<Rightarrow> byte \<Rightarrow> u32 list \<Rightarrow> byte \<Rightarrow> u32 list" where
  "hash_one_loop inp 0 counter flags flags_end cv block_flags = cv"
| "hash_one_loop inp (Suc blocks) counter flags flags_end cv block_flags =
     (let block_flags = (if blocks = 0 then block_flags OR flags_end else block_flags)
      in hash_one_loop (drop BLAKE3_BLOCK_LEN inp) blocks counter flags flags_end
           (blake3_compress_in_place_portable cv (take BLAKE3_BLOCK_LEN inp) BLAKE3_BLOCK_LEN counter block_flags) flags)"

definition hash_one_portable ::
  "byte list \<Rightarrow> nat \<Rightarrow> u32 list \<Rightarrow> u64 \<Rightarrow> byte \<Rightarrow> byte \<Rightarrow> byte \<Rightarrow> byte list" where
  "hash_one_portable inp blocks key counter flags flags_start flags_end =
     store_cv_words (hash_one_loop inp blocks counter flags flags_end key (flags OR flags_start))"

fun blake3_hash_many_portable ::
  "byte list list \<Rightarrow> nat \<Rightarrow> u32 list \<Rightarrow> u64 \<Rightarrow> bool \<Rightarrow> byte \<Rightarrow> byte \<Rightarrow> byte \<Rightarrow> byte list" where
  "blake3_hash_many_portable [] blocks key counter increment_counter flags flags_start flags_end = []"
| "blake3_hash_many_portable (inp # inputs) blocks key counter increment_counter flags flags_start flags_end =
     hash_one_portable inp blocks key counter flags flags_start flags_end @
     blake3_hash_many_portable inputs blocks key (if increment_counter then counter + 1 else counter)
       increment_counter flags flags_start flags_end"

end
