(* ===== verification/Blake3.thy ===== *)
theory Blake3
  imports Blake3_Compress
begin

text \<open>
  The BLAKE3 hasher of external/blake3/blake3.c: chunk states, the tree of chaining values with its lazily
  merged stack, and the output. The functions that blake3_dispatch.c chooses among are the fields of a
  record \<open>kernels\<close>. Lengths and counts of bytes are natural numbers; \<open>buf_len\<close>, \<open>blocks_compressed\<close> and the
  stack are bounded by what their C types hold.
\<close>

section \<open>Kernels\<close>

record kernels =
  k_compress_in_place :: "u32 list \<Rightarrow> byte list \<Rightarrow> nat \<Rightarrow> u64 \<Rightarrow> byte \<Rightarrow> u32 list"
  k_compress_xof :: "u32 list \<Rightarrow> byte list \<Rightarrow> nat \<Rightarrow> u64 \<Rightarrow> byte \<Rightarrow> byte list"
  k_hash_many :: "byte list list \<Rightarrow> nat \<Rightarrow> u32 list \<Rightarrow> u64 \<Rightarrow> bool \<Rightarrow> byte \<Rightarrow> byte \<Rightarrow> byte \<Rightarrow> byte list"
  k_simd_degree :: nat

text \<open>\<open>blake3_simd_degree\<close> never returns 0; the recursion below relies on it.\<close>

definition simd_degree :: "kernels \<Rightarrow> nat" where
  "simd_degree K = max 1 (k_simd_degree K)"

definition MAX_SIMD_DEGREE_OR_2 :: nat where
  "MAX_SIMD_DEGREE_OR_2 = (if 16 > (2 :: nat) then 16 else 2)"

section \<open>Chunk states and outputs\<close>

record chunk_state =
  cs_cv :: "u32 list"
  cs_counter :: u64
  cs_buf :: "byte list"
  cs_buf_len :: nat
  cs_blocks :: nat
  cs_flags :: byte

definition chunk_state_init :: "u32 list \<Rightarrow> byte \<Rightarrow> chunk_state" where
  "chunk_state_init key flags =
     \<lparr>cs_cv = key, cs_counter = 0, cs_buf = replicate BLAKE3_BLOCK_LEN 0, cs_buf_len = 0, cs_blocks = 0, cs_flags = flags\<rparr>"

definition chunk_state_reset :: "u32 list \<Rightarrow> u64 \<Rightarrow> chunk_state \<Rightarrow> chunk_state" where
  "chunk_state_reset key chunk_counter self =
     self\<lparr>cs_cv := key, cs_counter := chunk_counter, cs_blocks := 0, cs_buf := replicate BLAKE3_BLOCK_LEN 0, cs_buf_len := 0\<rparr>"

definition chunk_state_len :: "chunk_state \<Rightarrow> nat" where
  "chunk_state_len self = BLAKE3_BLOCK_LEN * cs_blocks self + cs_buf_len self"

definition chunk_state_fill_buf :: "byte list \<Rightarrow> chunk_state \<Rightarrow> nat \<times> chunk_state" where
  "chunk_state_fill_buf inp self =
     (let n = BLAKE3_BLOCK_LEN - cs_buf_len self;
          n = (if n > length inp then length inp else n)
      in (n, self\<lparr>cs_buf := overlay (cs_buf_len self) (take n inp) (cs_buf self), cs_buf_len := cs_buf_len self + n\<rparr>))"

definition chunk_state_maybe_start_flag :: "chunk_state \<Rightarrow> byte" where
  "chunk_state_maybe_start_flag self = (if cs_blocks self = 0 then CHUNK_START else 0)"

record output_t =
  out_cv :: "u32 list"
  out_counter :: u64
  out_block :: "byte list"
  out_block_len :: nat
  out_flags :: byte

definition make_output :: "u32 list \<Rightarrow> byte list \<Rightarrow> nat \<Rightarrow> u64 \<Rightarrow> byte \<Rightarrow> output_t" where
  "make_output input_cv block block_len counter flags =
     \<lparr>out_cv = input_cv, out_counter = counter, out_block = block, out_block_len = block_len, out_flags = flags\<rparr>"

definition output_chaining_value :: "kernels \<Rightarrow> output_t \<Rightarrow> byte list" where
  "output_chaining_value K self =
     store_cv_words (k_compress_in_place K (out_cv self) (out_block self) (out_block_len self) (out_counter self) (out_flags self))"

text \<open>The loop of \<open>output_root_bytes\<close>.\<close>

function root_bytes_loop :: "kernels \<Rightarrow> output_t \<Rightarrow> u64 \<Rightarrow> nat \<Rightarrow> nat \<Rightarrow> byte list" where
  "root_bytes_loop K self output_block_counter offset_within_block out_len =
     (if out_len > 0
      then let wide_buf = k_compress_xof K (out_cv self) (out_block self) (out_block_len self) output_block_counter
                            (out_flags self OR ROOT);
               available_bytes = 64 - offset_within_block;
               memcpy_len = (if out_len > available_bytes then available_bytes else out_len)
           in take memcpy_len (drop offset_within_block wide_buf) @
              root_bytes_loop K self (output_block_counter + 1) 0 (out_len - memcpy_len)
      else [])"
  by pat_completeness auto
termination by (relation "measures [\<lambda>(_, _, _, _, n). n, \<lambda>(_, _, _, off, _). off]") auto

declare root_bytes_loop.simps [simp del]

definition output_root_bytes :: "kernels \<Rightarrow> output_t \<Rightarrow> u64 \<Rightarrow> nat \<Rightarrow> byte list" where
  "output_root_bytes K self seek out_len =
     root_bytes_loop K self (seek div 64) (unat (seek mod 64)) out_len"

definition chunk_compress :: "kernels \<Rightarrow> byte list \<Rightarrow> chunk_state \<Rightarrow> chunk_state" where
  "chunk_compress K block self =
     self\<lparr>cs_cv := k_compress_in_place K (cs_cv self) block BLAKE3_BLOCK_LEN (cs_counter self)
                    (cs_flags self OR chunk_state_maybe_start_flag self),
          cs_blocks := cs_blocks self + 1\<rparr>"

text \<open>The loop of \<open>chunk_state_update\<close> over whole blocks; the last block stays, it may be the chunk's last.\<close>

function chunk_blocks_loop :: "kernels \<Rightarrow> byte list \<Rightarrow> chunk_state \<Rightarrow> byte list \<times> chunk_state" where
  "chunk_blocks_loop K inp self =
     (if length inp > BLAKE3_BLOCK_LEN
      then chunk_blocks_loop K (drop BLAKE3_BLOCK_LEN inp) (chunk_compress K (take BLAKE3_BLOCK_LEN inp) self)
      else (inp, self))"
  by pat_completeness auto
termination by (relation "measure (\<lambda>(_, inp, _). length inp)") (auto simp: BLAKE3_BLOCK_LEN_def)

declare chunk_blocks_loop.simps [simp del]

definition chunk_state_update :: "kernels \<Rightarrow> byte list \<Rightarrow> chunk_state \<Rightarrow> chunk_state" where
  "chunk_state_update K inp self =
     (let (inp, self) =
            (if cs_buf_len self > 0
             then let (n, self) = chunk_state_fill_buf inp self; inp = drop n inp
                  in if length inp > 0
                     then (inp, (chunk_compress K (cs_buf self) self)\<lparr>cs_buf_len := 0, cs_buf := replicate BLAKE3_BLOCK_LEN 0\<rparr>)
                     else (inp, self)
             else (inp, self));
          (inp, self) = chunk_blocks_loop K inp self
      in snd (chunk_state_fill_buf inp self))"

definition chunk_state_output :: "chunk_state \<Rightarrow> output_t" where
  "chunk_state_output self =
     make_output (cs_cv self) (cs_buf self) (cs_buf_len self) (cs_counter self)
       (cs_flags self OR chunk_state_maybe_start_flag self OR CHUNK_END)"

definition parent_output :: "byte list \<Rightarrow> u32 list \<Rightarrow> byte \<Rightarrow> output_t" where
  "parent_output block key flags = make_output key block BLAKE3_BLOCK_LEN 0 (flags OR PARENT)"

section \<open>Subtrees\<close>

definition left_len :: "nat \<Rightarrow> nat" where
  "left_len content_len =
     (let full_chunks = (content_len - 1) div BLAKE3_CHUNK_LEN
      in round_down_to_power_of_2 full_chunks * BLAKE3_CHUNK_LEN)"

text \<open>The pointers to whole chunks that \<open>compress_chunks_parallel\<close> collects, and the rest.\<close>

function chunks_array :: "byte list \<Rightarrow> byte list list \<times> byte list" where
  "chunks_array inp =
     (if length inp \<ge> BLAKE3_CHUNK_LEN
      then case chunks_array (drop BLAKE3_CHUNK_LEN inp) of (cs, rest) \<Rightarrow> (take BLAKE3_CHUNK_LEN inp # cs, rest)
      else ([], inp))"
  by pat_completeness auto
termination by (relation "measure length") (auto simp: BLAKE3_CHUNK_LEN_def)

declare chunks_array.simps [simp del]

text \<open>The chaining value of a single chunk, as the code computes it in three places.\<close>

definition single_chunk_cv :: "kernels \<Rightarrow> byte list \<Rightarrow> u32 list \<Rightarrow> u64 \<Rightarrow> byte \<Rightarrow> byte list" where
  "single_chunk_cv K inp key counter flags =
     output_chaining_value K
       (chunk_state_output (chunk_state_update K inp ((chunk_state_init key flags)\<lparr>cs_counter := counter\<rparr>)))"

text \<open>The chaining values written, one behind the other, and their number.\<close>

definition compress_chunks_parallel :: "kernels \<Rightarrow> byte list \<Rightarrow> u32 list \<Rightarrow> u64 \<Rightarrow> byte \<Rightarrow> byte list \<times> nat" where
  "compress_chunks_parallel K inp key chunk_counter flags =
     (let (chunks, rest) = chunks_array inp;
          out = k_hash_many K chunks (BLAKE3_CHUNK_LEN div BLAKE3_BLOCK_LEN) key chunk_counter True flags CHUNK_START CHUNK_END
      in if length rest > 0
         then (out @ single_chunk_cv K rest key (chunk_counter + of_nat (length chunks)) flags, length chunks + 1)
         else (out, length chunks))"

text \<open>The parent blocks that \<open>compress_parents_parallel\<close> collects: \<open>n div 2\<close> pairs of chaining values.\<close>

definition parents_array :: "byte list \<Rightarrow> nat \<Rightarrow> byte list list" where
  "parents_array cvs n = map (\<lambda>i. take BLAKE3_BLOCK_LEN (drop (2 * i * BLAKE3_OUT_LEN) cvs)) [0..<n div 2]"

definition compress_parents_parallel :: "kernels \<Rightarrow> byte list \<Rightarrow> nat \<Rightarrow> u32 list \<Rightarrow> byte \<Rightarrow> byte list \<times> nat" where
  "compress_parents_parallel K cvs n key flags =
     (let parents = parents_array cvs n;
          out = k_hash_many K parents 1 key 0 False (flags OR PARENT) 0 0
      in if n > 2 * length parents
         then (out @ take BLAKE3_OUT_LEN (drop (2 * length parents * BLAKE3_OUT_LEN) cvs), length parents + 1)
         else (out, length parents))"

lemma highest_one_bounds: "x \<noteq> 0 \<Longrightarrow> 2 ^ highest_one x \<le> x \<and> x < 2 ^ Suc (highest_one x)"
proof (induction x rule: highest_one.induct)
  case (1 x)
  show ?case
  proof (cases "x < 2")
    case False
    then have "2 ^ highest_one (x div 2) \<le> x div 2 \<and> x div 2 < 2 ^ Suc (highest_one (x div 2))"
      using "1.IH" by simp
    moreover have "highest_one x = Suc (highest_one (x div 2))" using False by (subst highest_one.simps) simp
    ultimately show ?thesis by auto
  qed (use 1 in \<open>subst (1 2) highest_one.simps, simp\<close>)
qed

lemma or_one: "x OR Suc 0 = (if even x then x + 1 else x)"
  by (simp add: or_Suc_0_eq)

lemma round_down_bounds:
  "round_down_to_power_of_2 x \<le> max 1 x" "x < 2 * round_down_to_power_of_2 x" "0 < round_down_to_power_of_2 x"
proof -
  define y where "y = x OR Suc 0"
  have y: "y = (if even x then x + 1 else x)" by (simp add: y_def or_one)
  have "y \<noteq> 0" using y by (cases "x = 0") auto
  then have b: "2 ^ highest_one y \<le> y \<and> y < 2 * 2 ^ highest_one y"
    using highest_one_bounds [of y] by simp
  have r: "round_down_to_power_of_2 x = 2 ^ highest_one y" by (simp add: round_down_to_power_of_2_def y_def)
  show "x < 2 * round_down_to_power_of_2 x" using b y by (simp add: r split: if_splits)
  show "0 < round_down_to_power_of_2 x" by (simp add: r)
  show "round_down_to_power_of_2 x \<le> max 1 x"
  proof (cases "even x \<and> x \<noteq> 0")
    case True
    have "2 ^ highest_one y \<noteq> x + 1"
    proof
      assume e: "2 ^ highest_one y = x + 1"
      then have "highest_one y \<noteq> 0" using True by (cases "highest_one y") auto
      then have "even ((2 :: nat) ^ highest_one y)" by simp
      then show False using e True by simp
    qed
    then show ?thesis using b True y by (simp add: r)
  qed (use b y in \<open>auto simp: r\<close>)
qed

lemma left_len_bounds: "BLAKE3_CHUNK_LEN < n \<Longrightarrow> 0 < left_len n \<and> left_len n < n"
proof -
  assume n: "BLAKE3_CHUNK_LEN < n"
  let ?f = "(n - 1) div 1024"
  have f: "1 \<le> ?f" "?f * 1024 < n" using n by (simp_all add: BLAKE3_CHUNK_LEN_def)
  have "round_down_to_power_of_2 ?f * 1024 \<le> ?f * 1024"
    using round_down_bounds(1) [of ?f] f(1) by (simp add: max_def split: if_splits)
  then show ?thesis
    using f round_down_bounds(3) [of ?f] by (simp add: left_len_def Let_def BLAKE3_CHUNK_LEN_def)
qed

text \<open>
  \<open>blake3_compress_subtree_wide\<close>. The chaining values of the left part are written at the start of an array,
  those of the right part \<open>degree\<close> places behind it; the array is not initialised, here it holds zeros.
\<close>

function blake3_compress_subtree_wide ::
  "kernels \<Rightarrow> byte list \<Rightarrow> u32 list \<Rightarrow> u64 \<Rightarrow> byte \<Rightarrow> byte list \<times> nat" where
  "blake3_compress_subtree_wide K inp key chunk_counter flags =
     (if length inp \<le> simd_degree K * BLAKE3_CHUNK_LEN
      then compress_chunks_parallel K inp key chunk_counter flags
      else
        let left_input_len = left_len (length inp);
            right_chunk_counter = chunk_counter + of_nat (left_input_len div BLAKE3_CHUNK_LEN);
            degree = (if left_input_len > BLAKE3_CHUNK_LEN \<and> simd_degree K = 1 then 2 else simd_degree K);
            (left_cvs, left_n) = blake3_compress_subtree_wide K (take left_input_len inp) key chunk_counter flags;
            (right_cvs, right_n) = blake3_compress_subtree_wide K (drop left_input_len inp) key right_chunk_counter flags;
            cv_array = overlay (degree * BLAKE3_OUT_LEN) right_cvs
                         (overlay 0 left_cvs (replicate (2 * MAX_SIMD_DEGREE_OR_2 * BLAKE3_OUT_LEN) 0))
        in if left_n = 1 then (take (2 * BLAKE3_OUT_LEN) cv_array, 2)
           else compress_parents_parallel K cv_array (left_n + right_n) key flags)"
  by pat_completeness auto
termination
proof (relation "measure (\<lambda>(_, inp, _). length inp)", goal_cases)
  case (2 K inp key chunk_counter flags)
  then have "BLAKE3_CHUNK_LEN < length inp"
    by (metis One_nat_def less_le_trans linorder_not_less max.cobounded1 mult_le_mono1 nat_mult_1 simd_degree_def)
  then show ?case using 2 left_len_bounds by simp
next
  case (3 K inp key chunk_counter flags)
  then have "BLAKE3_CHUNK_LEN < length inp"
    by (metis One_nat_def less_le_trans linorder_not_less max.cobounded1 mult_le_mono1 nat_mult_1 simd_degree_def)
  then have "0 < left_len (length inp)" "0 < length inp" using left_len_bounds by fastforce+
  then show ?case using 3 by simp
qed simp

declare blake3_compress_subtree_wide.simps [simp del]

text \<open>The loop that condenses the chaining values to two; the assertion before it holds in every run.\<close>

lemma length_parents_array: "length (parents_array cvs n) = n div 2"
  by (simp add: parents_array_def)

lemma compress_parents_number: "snd (compress_parents_parallel K cvs n key flags) = (n + 1) div 2"
proof -
  have "n = 2 * (n div 2) \<or> n = 2 * (n div 2) + 1" by presburger
  then show ?thesis
    by (auto simp: compress_parents_parallel_def Let_def length_parents_array)
qed

function condense_loop :: "kernels \<Rightarrow> byte list \<Rightarrow> nat \<Rightarrow> u32 list \<Rightarrow> byte \<Rightarrow> byte list" where
  "condense_loop K cv_array num_cvs key flags =
     (if num_cvs > 2 \<and> num_cvs \<le> MAX_SIMD_DEGREE_OR_2
      then let (out_array, n) = compress_parents_parallel K cv_array num_cvs key flags
           in condense_loop K (overlay 0 (take (n * BLAKE3_OUT_LEN) out_array) cv_array) n key flags
      else cv_array)"
  by pat_completeness auto
termination
proof (relation "measure (\<lambda>(_, _, n, _). n)", goal_cases)
  case (2 K cv_array num_cvs key flags x out_array n)
  then have "n = (num_cvs + 1) div 2" using compress_parents_number [of K cv_array num_cvs key flags] by (metis snd_conv)
  then show ?case using 2 by auto
qed simp

declare condense_loop.simps [simp del]

definition compress_subtree_to_parent_node ::
  "kernels \<Rightarrow> byte list \<Rightarrow> u32 list \<Rightarrow> u64 \<Rightarrow> byte \<Rightarrow> byte list" where
  "compress_subtree_to_parent_node K inp key chunk_counter flags =
     (let (cv_array, num_cvs) = blake3_compress_subtree_wide K inp key chunk_counter flags
      in take (2 * BLAKE3_OUT_LEN) (condense_loop K cv_array num_cvs key flags))"

section \<open>The hasher\<close>

text \<open>
  \<open>hs_stack\<close> are the \<open>cv_stack_len\<close> chaining values in use, the oldest first; the array has room for 55.
\<close>

record hasher =
  hs_key :: "u32 list"
  hs_chunk :: chunk_state
  hs_stack :: "byte list list"

definition hasher_init_base :: "u32 list \<Rightarrow> byte \<Rightarrow> hasher" where
  "hasher_init_base key flags = \<lparr>hs_key = key, hs_chunk = chunk_state_init key flags, hs_stack = []\<rparr>"

definition blake3_hasher_init :: hasher where
  "blake3_hasher_init = hasher_init_base IV 0"

definition blake3_hasher_init_keyed :: "byte list \<Rightarrow> hasher" where
  "blake3_hasher_init_keyed key = hasher_init_base (load_key_words key) KEYED_HASH"

text \<open>
  The loop of \<open>hasher_merge_cv_stack\<close>. The source merges the two topmost values without looking whether there
  are two; the test here makes the function total, and every run passes it.
\<close>

function merge_loop :: "kernels \<Rightarrow> nat \<Rightarrow> hasher \<Rightarrow> hasher" where
  "merge_loop K post_merge_stack_len self =
     (let s = hs_stack self; n = length s
      in if n > post_merge_stack_len \<and> n \<ge> 2
         then merge_loop K post_merge_stack_len
                (self\<lparr>hs_stack := take (n - 2) s @
                   [output_chaining_value K (parent_output (s ! (n - 2) @ s ! (n - 1)) (hs_key self) (cs_flags (hs_chunk self)))]\<rparr>)
         else self)"
  by pat_completeness auto
termination by (relation "measure (\<lambda>(_, _, self). length (hs_stack self))") auto

declare merge_loop.simps [simp del]

definition hasher_merge_cv_stack :: "kernels \<Rightarrow> u64 \<Rightarrow> hasher \<Rightarrow> hasher" where
  "hasher_merge_cv_stack K total_len self = merge_loop K (popcnt (unat total_len)) self"

definition hasher_push_cv :: "kernels \<Rightarrow> byte list \<Rightarrow> u64 \<Rightarrow> hasher \<Rightarrow> hasher" where
  "hasher_push_cv K new_cv chunk_counter self =
     (let self = hasher_merge_cv_stack K chunk_counter self in self\<lparr>hs_stack := hs_stack self @ [new_cv]\<rparr>)"

text \<open>Shrinking the subtree until it divides what came before.\<close>

function shrink_loop :: "u64 \<Rightarrow> nat \<Rightarrow> nat" where
  "shrink_loop count_so_far subtree_len =
     (if of_nat (subtree_len - 1) AND count_so_far \<noteq> 0 then shrink_loop count_so_far (subtree_len div 2) else subtree_len)"
  by pat_completeness auto
termination
proof (relation "measure snd", goal_cases)
  case (2 c n)
  then have "n \<noteq> 0" by (intro notI) simp
  then show ?case by simp
qed simp

declare shrink_loop.simps [simp del]

lemma shrink_loop_bounds: "0 < n \<Longrightarrow> 0 < shrink_loop c n \<and> shrink_loop c n \<le> n"
proof (induction c n rule: shrink_loop.induct)
  case (1 c n)
  show ?case
  proof (cases "of_nat (n - 1) AND c = 0")
    case False
    then have "n \<noteq> 1" by (intro notI) simp
    then show ?thesis using "1.IH" [OF False] "1.prems" False by (subst (1 2) shrink_loop.simps) auto
  qed (use "1.prems" in \<open>subst (1 2) shrink_loop.simps, simp\<close>)
qed

text \<open>The loop of \<open>blake3_hasher_update\<close> over subtrees.\<close>

function subtrees_loop :: "kernels \<Rightarrow> byte list \<Rightarrow> hasher \<Rightarrow> byte list \<times> hasher" where
  "subtrees_loop K inp self =
     (if length inp > BLAKE3_CHUNK_LEN
      then
        let counter = cs_counter (hs_chunk self);
            flags = cs_flags (hs_chunk self);
            subtree_len = shrink_loop (counter * of_nat BLAKE3_CHUNK_LEN) (round_down_to_power_of_2 (length inp));
            subtree_chunks = subtree_len div BLAKE3_CHUNK_LEN;
            part = take subtree_len inp;
            self1 = (if subtree_len \<le> BLAKE3_CHUNK_LEN
                     then hasher_push_cv K (single_chunk_cv K part (hs_key self) counter flags) counter self
                     else let cv_pair = compress_subtree_to_parent_node K part (hs_key self) counter flags
                          in hasher_push_cv K (drop BLAKE3_OUT_LEN cv_pair) (counter + of_nat (subtree_chunks div 2))
                               (hasher_push_cv K (take BLAKE3_OUT_LEN cv_pair) counter self))
        in subtrees_loop K (drop subtree_len inp)
             (self1\<lparr>hs_chunk := (hs_chunk self1)\<lparr>cs_counter := cs_counter (hs_chunk self1) + of_nat subtree_chunks\<rparr>\<rparr>)
      else (inp, self))"
  by pat_completeness auto
termination
proof (relation "measure (\<lambda>(_, inp, _). length inp)", goal_cases)
  case (2 K inp self counter flags subtree_len subtree_chunks part self1)
  have "0 < subtree_len" using 2 shrink_loop_bounds round_down_bounds(3) by simp
  then show ?case using 2 by (simp add: BLAKE3_CHUNK_LEN_def)
qed simp

declare subtrees_loop.simps [simp del]

definition blake3_hasher_update :: "kernels \<Rightarrow> byte list \<Rightarrow> hasher \<Rightarrow> hasher" where
  "blake3_hasher_update K inp self =
     (if length inp = 0 then self
      else
        let n = (if chunk_state_len (hs_chunk self) > 0
                 then min (BLAKE3_CHUNK_LEN - chunk_state_len (hs_chunk self)) (length inp) else 0);
            self1 = (if chunk_state_len (hs_chunk self) > 0
                     then self\<lparr>hs_chunk := chunk_state_update K (take n inp) (hs_chunk self)\<rparr> else self);
            inp1 = drop n inp
        in if chunk_state_len (hs_chunk self) > 0 \<and> length inp1 = 0 then self1
           else
             let self2 =
                   (if chunk_state_len (hs_chunk self) > 0
                    then let chunk_cv = output_chaining_value K (chunk_state_output (hs_chunk self1));
                             pushed = hasher_push_cv K chunk_cv (cs_counter (hs_chunk self1)) self1
                         in pushed\<lparr>hs_chunk := chunk_state_reset (hs_key pushed) (cs_counter (hs_chunk pushed) + 1) (hs_chunk pushed)\<rparr>
                    else self1);
                 (inp3, self3) = subtrees_loop K inp1 self2
             in if length inp3 > 0
                then hasher_merge_cv_stack K (cs_counter (hs_chunk self3))
                       (self3\<lparr>hs_chunk := chunk_state_update K inp3 (hs_chunk self3)\<rparr>)
                else self3)"

text \<open>The loop of \<open>blake3_hasher_finalize_seek\<close> over the stack, top first.\<close>

fun finalize_loop :: "kernels \<Rightarrow> u32 list \<Rightarrow> byte \<Rightarrow> byte list list \<Rightarrow> output_t \<Rightarrow> output_t" where
  "finalize_loop K key flags [] output = output"
| "finalize_loop K key flags (cv # cvs) output =
     finalize_loop K key flags cvs (parent_output (cv @ output_chaining_value K output) key flags)"

definition blake3_hasher_finalize_seek :: "kernels \<Rightarrow> hasher \<Rightarrow> u64 \<Rightarrow> nat \<Rightarrow> byte list" where
  "blake3_hasher_finalize_seek K self seek out_len =
     (if out_len = 0 then []
      else if hs_stack self = [] then output_root_bytes K (chunk_state_output (hs_chunk self)) seek out_len
      else
        let flags = cs_flags (hs_chunk self);
            s = hs_stack self;
            (cvs, output) =
              (if chunk_state_len (hs_chunk self) > 0 then (s, chunk_state_output (hs_chunk self))
               else (take (length s - 2) s, parent_output (concat (drop (length s - 2) s)) (hs_key self) flags))
        in output_root_bytes K (finalize_loop K (hs_key self) flags (rev cvs) output) seek out_len)"

definition blake3_hasher_finalize :: "kernels \<Rightarrow> hasher \<Rightarrow> nat \<Rightarrow> byte list" where
  "blake3_hasher_finalize K self out_len = blake3_hasher_finalize_seek K self 0 out_len"

definition blake3_hasher_reset :: "hasher \<Rightarrow> hasher" where
  "blake3_hasher_reset self = self\<lparr>hs_chunk := chunk_state_reset (hs_key self) 0 (hs_chunk self), hs_stack := []\<rparr>"

definition blake3_hasher_init_derive_key_raw :: "kernels \<Rightarrow> byte list \<Rightarrow> hasher" where
  "blake3_hasher_init_derive_key_raw K context_bytes =
     hasher_init_base
       (load_key_words (blake3_hasher_finalize K
          (blake3_hasher_update K context_bytes (hasher_init_base IV DERIVE_KEY_CONTEXT)) BLAKE3_OUT_LEN))
       DERIVE_KEY_MATERIAL"

definition blake3_hasher_init_derive_key :: "kernels \<Rightarrow> string \<Rightarrow> hasher" where
  "blake3_hasher_init_derive_key K context_string = blake3_hasher_init_derive_key_raw K (map of_char context_string)"

end
