(* ===== verification/Blake3_Chunk.thy ===== *)
theory Blake3_Chunk
  imports Blake3
begin

text \<open>
  The reference definition of the BLAKE3 tree, and the chunk level of the hasher: feeding a chunk state in
  pieces gives the output of the whole chunk, and the kernel that hashes many inputs gives the chaining values
  of chunks and parents.
\<close>

section \<open>The interface of the kernels\<close>

text \<open>
  What the hasher relies on: every kernel computes what the portable one does, and the degree is a power of 2
  up to 16.
\<close>

locale blake3_kernels =
  fixes K :: kernels
  assumes compress_in_place: "k_compress_in_place K = blake3_compress_in_place_portable"
    and compress_xof: "k_compress_xof K = blake3_compress_xof_portable"
    and hash_many: "k_hash_many K = blake3_hash_many_portable"
    and degree: "\<exists>j\<le>4. simd_degree K = 2 ^ j"

definition portable_kernels :: kernels where
  "portable_kernels =
     \<lparr>k_compress_in_place = blake3_compress_in_place_portable, k_compress_xof = blake3_compress_xof_portable,
      k_hash_many = blake3_hash_many_portable, k_simd_degree = 1\<rparr>"

interpretation portable: blake3_kernels portable_kernels
  by unfold_locales (auto simp: portable_kernels_def simd_degree_def intro: exI [of _ 0])

section \<open>The reference\<close>

definition pad_block :: "byte list \<Rightarrow> byte list" where
  "pad_block bs = bs @ replicate (64 - length bs) 0"

definition start_flag :: "bool \<Rightarrow> byte" where
  "start_flag b = (if b then CHUNK_START else 0)"

text \<open>A chunk is a chain of its 64-byte blocks; the last one, which may be short, is its output.\<close>

function ref_chunk :: "byte \<Rightarrow> u64 \<Rightarrow> u32 list \<Rightarrow> bool \<Rightarrow> byte list \<Rightarrow> output_t" where
  "ref_chunk flags counter cv first bs =
     (if length bs \<le> 64
      then make_output cv (pad_block bs) (length bs) counter (flags OR start_flag first OR CHUNK_END)
      else ref_chunk flags counter
             (blake3_compress_in_place_portable cv (take 64 bs) 64 counter (flags OR start_flag first)) False (drop 64 bs))"
  by pat_completeness auto
termination by (relation "measure (\<lambda>(_, _, _, _, bs). length bs)") auto

declare ref_chunk.simps [simp del]

definition ref_cv :: "output_t \<Rightarrow> byte list" where
  "ref_cv out =
     store_cv_words (blake3_compress_in_place_portable (out_cv out) (out_block out) (out_block_len out) (out_counter out) (out_flags out))"

text \<open>The tree: the left part is the largest power of 2 of whole chunks that leaves something for the right.\<close>

function ref_tree :: "u32 list \<Rightarrow> byte \<Rightarrow> nat \<Rightarrow> byte list \<Rightarrow> output_t" where
  "ref_tree key flags counter bs =
     (if length bs \<le> 1024 then ref_chunk flags (of_nat counter) key True bs
      else parent_output
             (ref_cv (ref_tree key flags counter (take (left_len (length bs)) bs)) @
              ref_cv (ref_tree key flags (counter + left_len (length bs) div 1024) (drop (left_len (length bs)) bs)))
             key flags)"
  by pat_completeness auto
termination
proof (relation "measure (\<lambda>(_, _, _, bs). length bs)", goal_cases)
  case (2 key flags counter bs)
  then show ?case using left_len_bounds [of "length bs"] by (simp add: BLAKE3_CHUNK_LEN_def)
next
  case (3 key flags counter bs)
  then have "BLAKE3_CHUNK_LEN < length bs" by (simp add: BLAKE3_CHUNK_LEN_def)
  then have "0 < left_len (length bs)" "0 < length bs" using left_len_bounds by fastforce+
  then show ?case by simp
qed simp

declare ref_tree.simps [simp del]

section \<open>Lengths\<close>

lemma length_store32 [simp]: "length (store32 w) = 4"
  by (simp add: store32_def)

lemma length_store_cv_words [simp]: "length (store_cv_words ws) = 32"
  by (simp add: store_cv_words_def length_concat comp_def sum_list_triv)

lemma length_ref_cv [simp]: "length (ref_cv out) = 32"
  by (simp add: ref_cv_def)

lemma length_pad_block [simp]: "length bs \<le> 64 \<Longrightarrow> length (pad_block bs) = 64"
  by (simp add: pad_block_def)

lemmas blake3_lengths = BLAKE3_BLOCK_LEN_def BLAKE3_CHUNK_LEN_def BLAKE3_OUT_LEN_def

section \<open>Chunk states\<close>

text \<open>The buffer holds \<open>buf_len\<close> bytes and zeros behind them; a state past its first block holds some.\<close>

definition buf_ok :: "chunk_state \<Rightarrow> bool" where
  "buf_ok cs \<longleftrightarrow> cs_buf_len cs \<le> 64 \<and> length (cs_buf cs) = 64 \<and>
     cs_buf cs = take (cs_buf_len cs) (cs_buf cs) @ replicate (64 - cs_buf_len cs) 0"

definition chunk_ok :: "chunk_state \<Rightarrow> bool" where
  "chunk_ok cs \<longleftrightarrow> buf_ok cs \<and> (cs_blocks cs \<noteq> 0 \<longrightarrow> cs_buf_len cs \<noteq> 0)"

lemma buf_okD:
  assumes "buf_ok cs"
  shows "length (take (cs_buf_len cs) (cs_buf cs)) = cs_buf_len cs" "pad_block (take (cs_buf_len cs) (cs_buf cs)) = cs_buf cs"
proof -
  show l: "length (take (cs_buf_len cs) (cs_buf cs)) = cs_buf_len cs" using assms by (simp add: buf_ok_def)
  show "pad_block (take (cs_buf_len cs) (cs_buf cs)) = cs_buf cs"
    unfolding pad_block_def l using assms by (simp add: buf_ok_def)
qed

text \<open>What the rest of a chunk will be hashed to from here.\<close>

definition resume :: "chunk_state \<Rightarrow> byte list \<Rightarrow> output_t" where
  "resume cs rest = ref_chunk (cs_flags cs) (cs_counter cs) (cs_cv cs) (cs_blocks cs = 0) (take (cs_buf_len cs) (cs_buf cs) @ rest)"

lemma maybe_start_flag: "chunk_state_maybe_start_flag cs = start_flag (cs_blocks cs = 0)"
  by (simp add: chunk_state_maybe_start_flag_def start_flag_def)

lemma chunk_state_output_resume:
  assumes "chunk_ok cs"
  shows "chunk_state_output cs = resume cs []"
proof -
  have b: "buf_ok cs" "cs_buf_len cs \<le> 64" using assms by (simp_all add: chunk_ok_def buf_ok_def)
  show ?thesis
    unfolding resume_def append_Nil2 using b(2)
    by (subst ref_chunk.simps) (simp add: chunk_state_output_def maybe_start_flag buf_okD [OF b(1)] del: length_take)
qed

lemma fill_buf:
  assumes "buf_ok cs" "chunk_state_fill_buf inp cs = (n, cs')"
  shows "n = min (64 - cs_buf_len cs) (length inp)"
    and "cs_buf_len cs' = cs_buf_len cs + n" "cs_blocks cs' = cs_blocks cs" "cs_cv cs' = cs_cv cs"
    and "cs_flags cs' = cs_flags cs" "cs_counter cs' = cs_counter cs"
    and "take (cs_buf_len cs') (cs_buf cs') = take (cs_buf_len cs) (cs_buf cs) @ take n inp" "buf_ok cs'"
proof -
  let ?b = "take (cs_buf_len cs) (cs_buf cs)"
  have b: "cs_buf cs = ?b @ replicate (64 - cs_buf_len cs) 0" "length ?b = cs_buf_len cs" "cs_buf_len cs \<le> 64"
    using assms(1) buf_okD(1) [OF assms(1)] by (simp_all add: buf_ok_def)
  show n: "n = min (64 - cs_buf_len cs) (length inp)"
    and len: "cs_buf_len cs' = cs_buf_len cs + n" and bl: "cs_blocks cs' = cs_blocks cs" and "cs_cv cs' = cs_cv cs"
    and "cs_flags cs' = cs_flags cs" "cs_counter cs' = cs_counter cs"
    using assms(2) by (auto simp: chunk_state_fill_buf_def Let_def BLAKE3_BLOCK_LEN_def)
  have ln: "length (take n inp) = n" using n by simp
  have "cs_buf cs' = overlay (cs_buf_len cs) (take n inp) (cs_buf cs)"
    using assms(2) by (auto simp: chunk_state_fill_buf_def Let_def BLAKE3_BLOCK_LEN_def)
  also have "\<dots> = ?b @ take n inp @ drop (cs_buf_len cs + n) (cs_buf cs)"
    using ln by (simp add: overlay_def)
  also have "drop (cs_buf_len cs + n) (cs_buf cs) = replicate (64 - (cs_buf_len cs + n)) 0"
    by (subst b(1)) (use b(2) in simp)
  finally have buf: "cs_buf cs' = (?b @ take n inp) @ replicate (64 - (cs_buf_len cs + n)) 0" by simp
  have lb: "length (?b @ take n inp) = cs_buf_len cs + n" unfolding length_append b(2) ln by simp
  show t: "take (cs_buf_len cs') (cs_buf cs') = ?b @ take n inp"
    unfolding len buf using lb by (metis append_eq_conv_conj)
  have le: "cs_buf_len cs + n \<le> 64" using n b(3) by simp
  have "length (cs_buf cs') = 64" unfolding buf length_append [of "?b @ take n inp"] lb using le by simp
  then show "buf_ok cs'"
    unfolding buf_ok_def t using le len buf by simp
qed

text \<open>The state inside \<open>chunk_state_update\<close>, whose buffer is empty.\<close>

definition drained :: "chunk_state \<Rightarrow> bool" where
  "drained cs \<longleftrightarrow> cs_buf_len cs = 0 \<and> cs_buf cs = replicate 64 0"

lemma resume_step:
  "length bs > 64 \<Longrightarrow> ref_chunk flags counter cv first bs =
     ref_chunk flags counter (blake3_compress_in_place_portable cv (take 64 bs) 64 counter (flags OR start_flag first)) False (drop 64 bs)"
  by (subst ref_chunk.simps) simp

context blake3_kernels
begin

lemma output_chaining_value: "output_chaining_value K out = ref_cv out"
  by (simp add: output_chaining_value_def ref_cv_def compress_in_place)

lemma chunk_compress_sel [simp]:
  "cs_cv (chunk_compress K block cs) =
     blake3_compress_in_place_portable (cs_cv cs) block 64 (cs_counter cs) (cs_flags cs OR start_flag (cs_blocks cs = 0))"
  "cs_blocks (chunk_compress K block cs) = cs_blocks cs + 1" "cs_counter (chunk_compress K block cs) = cs_counter cs"
  "cs_flags (chunk_compress K block cs) = cs_flags cs" "cs_buf (chunk_compress K block cs) = cs_buf cs"
  "cs_buf_len (chunk_compress K block cs) = cs_buf_len cs"
  by (simp_all add: chunk_compress_def compress_in_place maybe_start_flag BLAKE3_BLOCK_LEN_def)

lemma blocks_loop:
  assumes "drained cs" "chunk_blocks_loop K inp cs = (inp', cs')"
  shows "drained cs'" "resume cs' (inp' @ rest) = resume cs (inp @ rest)" "inp \<noteq> [] \<Longrightarrow> inp' \<noteq> []" "length inp' \<le> 64"
    "64 * cs_blocks cs' + length inp' = 64 * cs_blocks cs + length inp" "inp = [] \<Longrightarrow> cs' = cs \<and> inp' = []"
    "cs_counter cs' = cs_counter cs" "cs_flags cs' = cs_flags cs"
proof -
  have "drained cs' \<and> resume cs' (inp' @ rest) = resume cs (inp @ rest) \<and> (inp \<noteq> [] \<longrightarrow> inp' \<noteq> []) \<and> length inp' \<le> 64 \<and>
    64 * cs_blocks cs' + length inp' = 64 * cs_blocks cs + length inp \<and> (inp = [] \<longrightarrow> cs' = cs \<and> inp' = []) \<and>
    cs_counter cs' = cs_counter cs \<and> cs_flags cs' = cs_flags cs"
    using assms
  proof (induction "length inp" arbitrary: inp cs rule: less_induct)
    case less
    show ?case
    proof (cases "length inp > 64")
      case True
      let ?cs = "chunk_compress K (take 64 inp) cs"
      have loop: "chunk_blocks_loop K (drop 64 inp) ?cs = (inp', cs')"
        using less.prems(2) True by (subst (asm) chunk_blocks_loop.simps) (simp add: BLAKE3_BLOCK_LEN_def)
      have dr: "drained ?cs" using less.prems(1) by (simp add: drained_def)
      have ne: "drop 64 inp \<noteq> []" using True by simp
      have "resume ?cs (drop 64 inp @ rest) = resume cs (inp @ rest)"
        using less.prems(1) True resume_step [of "inp @ rest" "cs_flags cs" "cs_counter cs" "cs_cv cs" "cs_blocks cs = 0"]
        by (simp add: resume_def drained_def)
      then show ?thesis using less.hyps [OF _ dr loop] True ne by auto
    next
      case False
      then have "inp' = inp \<and> cs' = cs"
        using less.prems(2) by (subst (asm) chunk_blocks_loop.simps) (simp add: BLAKE3_BLOCK_LEN_def)
      then show ?thesis using less.prems(1) False by simp
    qed
  qed
  then show "drained cs'" "resume cs' (inp' @ rest) = resume cs (inp @ rest)" "inp \<noteq> [] \<Longrightarrow> inp' \<noteq> []" "length inp' \<le> 64"
    "64 * cs_blocks cs' + length inp' = 64 * cs_blocks cs + length inp" "inp = [] \<Longrightarrow> cs' = cs \<and> inp' = []"
    "cs_counter cs' = cs_counter cs" "cs_flags cs' = cs_flags cs" by auto
qed

lemma chunk_state_update:
  fixes inp rest :: "byte list"
  assumes "chunk_ok cs"
  defines "cs' \<equiv> chunk_state_update K inp cs"
  shows "chunk_ok cs'" "resume cs' rest = resume cs (inp @ rest)" "cs_counter cs' = cs_counter cs"
    "cs_flags cs' = cs_flags cs" "chunk_state_len cs' = chunk_state_len cs + length inp"
proof -
  have ok: "buf_ok cs" "cs_blocks cs \<noteq> 0 \<longrightarrow> cs_buf_len cs \<noteq> 0" using assms(1) by (simp_all add: chunk_ok_def)
  obtain n cs1 where f1: "chunk_state_fill_buf inp cs = (n, cs1)" by fastforce
  note f = fill_buf [OF ok(1) f1]
  have goal: "chunk_ok cs' \<and> resume cs' rest = resume cs (inp @ rest) \<and> cs_counter cs' = cs_counter cs \<and>
    cs_flags cs' = cs_flags cs \<and> chunk_state_len cs' = chunk_state_len cs + length inp"
    if dr: "drained cs2" and same: "resume cs2 (inp2 @ rest) = resume cs (inp @ rest)"
      "cs_counter cs2 = cs_counter cs" "cs_flags cs2 = cs_flags cs"
      "64 * cs_blocks cs2 + length inp2 = chunk_state_len cs + length inp" "inp2 \<noteq> [] \<or> cs_blocks cs2 = 0"
      and cs': "cs' = snd (chunk_state_fill_buf inp3 cs3)" and loop: "chunk_blocks_loop K inp2 cs2 = (inp3, cs3)"
    for inp2 cs2 inp3 cs3
  proof -
    note l = blocks_loop [OF dr loop]
    obtain m where f2: "chunk_state_fill_buf inp3 cs3 = (m, cs')" using cs' by (cases "chunk_state_fill_buf inp3 cs3") simp
    have b3: "buf_ok cs3" "cs_buf_len cs3 = 0" using l(1) by (simp_all add: drained_def buf_ok_def)
    note g = fill_buf [OF b3(1) f2]
    have m: "m = length inp3" "take m inp3 = inp3" using g(1) l(4) b3(2) by simp_all
    have "cs_blocks cs3 \<noteq> 0 \<longrightarrow> inp3 \<noteq> []" using l(3,6) same(5) by (cases "inp2 = []") auto
    then have "chunk_ok cs'" using g(2,3,8) m b3(2) by (simp add: chunk_ok_def)
    moreover have "resume cs' rest = resume cs3 (inp3 @ rest)"
      unfolding resume_def g(3-7) m(2) b3(2) by simp
    ultimately show ?thesis
      using l(2,5,7,8) same g(2,3,5,6) m(1) b3(2) by (simp add: chunk_state_len_def BLAKE3_BLOCK_LEN_def)
  qed
  have "chunk_ok cs' \<and> resume cs' rest = resume cs (inp @ rest) \<and> cs_counter cs' = cs_counter cs \<and>
    cs_flags cs' = cs_flags cs \<and> chunk_state_len cs' = chunk_state_len cs + length inp"
  proof (cases "cs_buf_len cs > 0 \<and> length (drop n inp) > 0")
    case True
    let ?cs2 = "(chunk_compress K (cs_buf cs1) cs1)\<lparr>cs_buf_len := 0, cs_buf := replicate BLAKE3_BLOCK_LEN 0\<rparr>"
    obtain inp3 cs3 where loop: "chunk_blocks_loop K (drop n inp) ?cs2 = (inp3, cs3)" by fastforce
    have n: "n = 64 - cs_buf_len cs" "cs_buf_len cs \<le> 64" using True f(1) ok(1) by (auto simp: buf_ok_def)
    have full: "cs_buf_len cs1 = 64" "cs_buf cs1 = take (cs_buf_len cs) (cs_buf cs) @ take n inp" "length (cs_buf cs1) = 64"
      using f(2,7,8) n by (auto simp: buf_ok_def)
    have split: "take (cs_buf_len cs) (cs_buf cs) @ inp @ rest = cs_buf cs1 @ drop n inp @ rest"
      unfolding full(2) by simp
    have big: "length (cs_buf cs1 @ drop n inp @ rest) > 64" using True full(3) by (simp add: less_diff_conv)
    show ?thesis
    proof (rule goal [of ?cs2 "drop n inp" inp3 cs3])
      show "resume ?cs2 (drop n inp @ rest) = resume cs (inp @ rest)"
        unfolding resume_def split using True full(3) f(3-6)
          resume_step [OF big, of "cs_flags cs" "cs_counter cs" "cs_cv cs" "cs_blocks cs = 0"]
        by simp
      show "cs' = snd (chunk_state_fill_buf inp3 cs3)"
        using True f1 loop by (simp add: cs'_def chunk_state_update_def Let_def)
    qed (use True loop f(3,5,6) n in \<open>auto simp: drained_def BLAKE3_BLOCK_LEN_def chunk_state_len_def\<close>)
  next
    case False
    show ?thesis
    proof (cases "cs_buf_len cs > 0")
      case True
      then have n: "n = length inp" "take n inp = inp" using False f(1) by auto
      have "chunk_blocks_loop K [] cs1 = ([], cs1)" by (subst chunk_blocks_loop.simps) simp
      then have "cs' = snd (chunk_state_fill_buf [] cs1)"
        using True False f1 by (simp add: cs'_def chunk_state_update_def Let_def)
      also have "\<dots> = cs1" by (simp add: chunk_state_fill_buf_def overlay_def)
      finally have "cs' = cs1" .
      moreover have "resume cs1 rest = resume cs (inp @ rest)" unfolding resume_def f(3-7) n(2) by simp
      ultimately show ?thesis
        using f(2,3,5,6,8) n(1) True by (simp add: chunk_ok_def chunk_state_len_def)
    next
      case empty: False
      obtain inp3 cs3 where loop: "chunk_blocks_loop K inp cs = (inp3, cs3)" by fastforce
      have "cs' = snd (chunk_state_fill_buf inp3 cs3)"
        using empty loop by (simp add: cs'_def chunk_state_update_def Let_def)
      then show ?thesis
        using goal [of cs inp inp3 cs3] loop empty ok by (auto simp: drained_def buf_ok_def chunk_state_len_def BLAKE3_BLOCK_LEN_def)
    qed
  qed
  then show "chunk_ok cs'" "resume cs' rest = resume cs (inp @ rest)" "cs_counter cs' = cs_counter cs"
    "cs_flags cs' = cs_flags cs" "chunk_state_len cs' = chunk_state_len cs + length inp" by auto
qed

lemma single_chunk_cv: "single_chunk_cv K inp key counter flags = ref_cv (ref_chunk flags counter key True inp)"
proof -
  let ?cs = "(chunk_state_init key flags)\<lparr>cs_counter := counter\<rparr>"
  have ok: "chunk_ok ?cs" by (simp add: chunk_ok_def buf_ok_def chunk_state_init_def BLAKE3_BLOCK_LEN_def)
  note u = chunk_state_update(1) [OF ok, of inp] chunk_state_update(2) [OF ok, of inp "[]"]
  have "chunk_state_output (chunk_state_update K inp ?cs) = resume ?cs inp"
    using chunk_state_output_resume [OF u(1)] u(2) by simp
  also have "\<dots> = ref_chunk flags counter key True inp"
    by (simp add: resume_def chunk_state_init_def)
  finally show ?thesis by (simp add: single_chunk_cv_def output_chaining_value)
qed

end

section \<open>Hashing many inputs\<close>

fun chunk_cvs :: "byte \<Rightarrow> u32 list \<Rightarrow> u64 \<Rightarrow> byte list list \<Rightarrow> byte list list" where
  "chunk_cvs flags key counter [] = []"
| "chunk_cvs flags key counter (c # cs) = ref_cv (ref_chunk flags counter key True c) # chunk_cvs flags key (counter + 1) cs"

lemma length_chunk_cvs [simp]: "length (chunk_cvs flags key counter cs) = length cs"
  by (induction cs arbitrary: counter) auto

lemma chunk_cvs_append:
  "chunk_cvs flags key counter (as @ bs) = chunk_cvs flags key counter as @ chunk_cvs flags key (counter + of_nat (length as)) bs"
  by (induction as arbitrary: counter) (auto simp: algebra_simps)

lemma set_chunk_cvs: "\<forall>v \<in> set (chunk_cvs flags key counter cs). length v = 32"
  by (induction cs arbitrary: counter) auto

lemma hash_one_chunk:
  "0 < blocks \<Longrightarrow> 64 * blocks \<le> length inp \<Longrightarrow>
     store_cv_words (hash_one_loop inp blocks counter flags CHUNK_END cv (flags OR start_flag first)) =
     ref_cv (ref_chunk flags counter cv first (take (64 * blocks) inp))"
proof (induction blocks arbitrary: inp cv first)
  case (Suc b)
  show ?case
  proof (cases "b = 0")
    case True
    have "ref_chunk flags counter cv first (take 64 inp) =
      make_output cv (take 64 inp) 64 counter (flags OR start_flag first OR CHUNK_END)"
      using Suc.prems True by (subst ref_chunk.simps) (simp add: pad_block_def)
    then show ?thesis
      using True by (simp add: BLAKE3_BLOCK_LEN_def ref_cv_def make_output_def or.assoc)
  next
    case False
    let ?cv = "blake3_compress_in_place_portable cv (take 64 inp) 64 counter (flags OR start_flag first)"
    have big: "length (take (64 * Suc b) inp) > 64" using Suc.prems False by simp
    have "ref_chunk flags counter cv first (take (64 * Suc b) inp) = ref_chunk flags counter ?cv False (take (64 * b) (drop 64 inp))"
      by (subst resume_step [OF big]) (simp add: take_drop add.commute)
    moreover have "store_cv_words (hash_one_loop (drop 64 inp) b counter flags CHUNK_END ?cv (flags OR start_flag False)) =
      ref_cv (ref_chunk flags counter ?cv False (take (64 * b) (drop 64 inp)))"
      using Suc.IH [of "drop 64 inp" ?cv False] Suc.prems False by simp
    ultimately show ?thesis using False by (simp add: BLAKE3_BLOCK_LEN_def start_flag_def Let_def)
  qed
qed simp

lemma hash_many_chunks:
  "\<forall>c \<in> set chunks. length c = 1024 \<Longrightarrow>
     blake3_hash_many_portable chunks 16 key counter True flags CHUNK_START CHUNK_END = concat (chunk_cvs flags key counter chunks)"
proof (induction chunks arbitrary: counter)
  case (Cons c cs)
  then show ?case using hash_one_chunk [of 16 c counter flags key True] by (simp add: hash_one_portable_def start_flag_def)
qed simp

lemma hash_one_parent:
  "hash_one_portable b 1 key 0 (flags OR PARENT) 0 0 = ref_cv (parent_output (take 64 b) key flags)"
  by (simp add: hash_one_portable_def parent_output_def make_output_def ref_cv_def blake3_lengths)

lemma hash_many_parents:
  "blake3_hash_many_portable bs 1 key 0 False (flags OR PARENT) 0 0 = concat (map (\<lambda>b. ref_cv (parent_output (take 64 b) key flags)) bs)"
  using hash_one_parent by (induction bs) auto

end
