(* ===== verification/Blake3_Tree.thy ===== *)
theory Blake3_Tree
  imports Blake3_Chunk
begin

text \<open>
  Subtrees of the BLAKE3 hasher: \<open>blake3_compress_subtree_wide\<close> and the loop that condenses its result give the
  chaining values of the two halves of a complete subtree, whatever the number of lanes of the kernels.
\<close>

section \<open>Complete subtrees of the reference\<close>

lemma power_between_unique:
  assumes "(2 :: nat) ^ i \<le> x" "x < 2 ^ Suc i" "2 ^ j \<le> x" "x < 2 ^ Suc j"
  shows "i = j"
proof -
  have "(2 :: nat) ^ i < 2 ^ Suc j" "(2 :: nat) ^ j < 2 ^ Suc i"
    using assms by linarith+
  then show ?thesis by (simp only: power_strict_increasing_iff)
qed

lemma round_down_power: "\<exists>j. round_down_to_power_of_2 x = 2 ^ j"
  by (auto simp: round_down_to_power_of_2_def)

lemma round_down_eq: "2 ^ j \<le> x \<Longrightarrow> x < 2 ^ Suc j \<Longrightarrow> round_down_to_power_of_2 x = 2 ^ j"
proof -
  assume x: "2 ^ j \<le> x" "x < 2 ^ Suc j"
  obtain i where i: "round_down_to_power_of_2 x = 2 ^ i" using round_down_power by blast
  have "1 \<le> x" using x(1) one_le_power [of "2 :: nat" j] by linarith
  then have "2 ^ i \<le> x" "x < 2 ^ Suc i" using round_down_bounds(1,2) [of x] i by auto
  then show ?thesis using power_between_unique [OF x] i by metis
qed

lemma left_len_eq: "2 ^ j * 1024 < n \<Longrightarrow> n \<le> 2 ^ Suc j * 1024 \<Longrightarrow> left_len n = 2 ^ j * 1024"
proof -
  assume n: "2 ^ j * 1024 < n" "n \<le> 2 ^ Suc j * 1024"
  have "2 ^ j \<le> (n - 1) div 1024" using n(1) by (simp add: less_eq_div_iff_mult_less_eq)
  moreover have "(n - 1) div 1024 < 2 ^ Suc j" using n by (simp add: div_less_iff_less_mult)
  ultimately show ?thesis by (simp add: left_len_def Let_def BLAKE3_CHUNK_LEN_def round_down_eq)
qed

text \<open>The chaining value of the subtree of \<open>2 ^ k\<close> chunks at the start of some bytes.\<close>

definition subtree_cv :: "u32 list \<Rightarrow> byte \<Rightarrow> nat \<Rightarrow> nat \<Rightarrow> byte list \<Rightarrow> byte list" where
  "subtree_cv key flags k c bs = ref_cv (ref_tree key flags c (take (2 ^ k * 1024) bs))"

lemma length_subtree_cv [simp]: "length (subtree_cv key flags k c bs) = 32"
  by (simp add: subtree_cv_def)

lemma ref_tree_split:
  assumes "2 ^ k * 1024 < length bs" "length bs \<le> 2 ^ Suc k * 1024"
  shows "ref_tree key flags c bs =
    parent_output (subtree_cv key flags k c bs @ ref_cv (ref_tree key flags (c + 2 ^ k) (drop (2 ^ k * 1024) bs))) key flags"
proof -
  have "1024 < length bs" using assms(1) one_le_power [of "2 :: nat" k] by linarith
  then show ?thesis
    by (subst ref_tree.simps) (simp add: left_len_eq [OF assms] subtree_cv_def)
qed

lemma subtree_cv_Suc:
  assumes "2 ^ Suc k * 1024 \<le> length bs"
  shows "subtree_cv key flags (Suc k) c bs =
    ref_cv (parent_output (subtree_cv key flags k c bs @ subtree_cv key flags k (c + 2 ^ k) (drop (2 ^ k * 1024) bs)) key flags)"
proof -
  let ?bs = "take (2 ^ Suc k * 1024) bs"
  have l: "length ?bs = 2 ^ Suc k * 1024" using assms by simp
  have "2 ^ k * 1024 < length ?bs" "length ?bs \<le> 2 ^ Suc k * 1024" unfolding l by simp_all
  note s = ref_tree_split [OF this, of key flags c]
  have "take (2 ^ k * 1024) ?bs = take (2 ^ k * 1024) bs" by (simp add: min_def)
  moreover have "drop (2 ^ k * 1024) ?bs = take (2 ^ k * 1024) (drop (2 ^ k * 1024) bs)"
    by (simp add: drop_take mult.commute)
  ultimately show ?thesis using s by (simp add: subtree_cv_def)
qed

text \<open>The chaining values of \<open>m\<close> consecutive subtrees of \<open>2 ^ j\<close> chunks.\<close>

fun level_cvs :: "u32 list \<Rightarrow> byte \<Rightarrow> nat \<Rightarrow> nat \<Rightarrow> nat \<Rightarrow> byte list \<Rightarrow> byte list list" where
  "level_cvs key flags j 0 c bs = []"
| "level_cvs key flags j (Suc m) c bs =
     subtree_cv key flags j c bs # level_cvs key flags j m (c + 2 ^ j) (drop (2 ^ j * 1024) bs)"

lemma length_level_cvs [simp]: "length (level_cvs key flags j m c bs) = m"
  by (induction m arbitrary: c bs) auto

lemma level_cvs_append:
  "level_cvs key flags j (m + n) c bs =
     level_cvs key flags j m c bs @ level_cvs key flags j n (c + m * 2 ^ j) (drop (m * 2 ^ j * 1024) bs)"
  by (induction m arbitrary: c bs) (auto simp: algebra_simps)

lemma level_cvs_take: "m * 2 ^ j * 1024 \<le> n \<Longrightarrow> level_cvs key flags j m c (take n bs) = level_cvs key flags j m c bs"
proof (induction m arbitrary: c bs n)
  case (Suc m)
  have "2 ^ j * 1024 \<le> n" "m * 2 ^ j * 1024 \<le> n - 2 ^ j * 1024" using Suc.prems by (simp_all add: algebra_simps)
  then show ?case using Suc.IH by (simp add: subtree_cv_def min_def drop_take)
qed simp

text \<open>Parents of neighbours are the next level.\<close>

fun pair_up :: "u32 list \<Rightarrow> byte \<Rightarrow> byte list list \<Rightarrow> byte list list" where
  "pair_up key flags (u # v # vs) = ref_cv (parent_output (u @ v) key flags) # pair_up key flags vs"
| "pair_up key flags vs = []"

lemma pair_up_level:
  "m * 2 ^ Suc j * 1024 \<le> length bs \<Longrightarrow>
     pair_up key flags (level_cvs key flags j (2 * m) c bs) = level_cvs key flags (Suc j) m c bs"
proof (induction m arbitrary: c bs)
  case (Suc m)
  have s: "2 * Suc m = Suc (Suc (2 * m))" by simp
  have "m * 2 ^ Suc j * 1024 \<le> length (drop (2 ^ Suc j * 1024) bs)"
    using Suc.prems by (simp add: algebra_simps)
  note ih = Suc.IH [OF this, of "c + 2 ^ Suc j"]
  have "2 ^ Suc j * 1024 \<le> length bs" using Suc.prems by (simp add: algebra_simps)
  note sub = subtree_cv_Suc [OF this, of key flags c]
  have two: "c + 2 ^ j + 2 ^ j = c + 2 ^ Suc j" "drop (2 ^ j * 1024) (drop (2 ^ j * 1024) bs) = drop (2 ^ Suc j * 1024) bs"
    by simp_all
  show ?case
    unfolding s level_cvs.simps pair_up.simps sub two ih ..
qed simp

section \<open>Chaining values in arrays\<close>

definition all_cvs :: "byte list list \<Rightarrow> bool" where
  "all_cvs vs \<longleftrightarrow> (\<forall>v \<in> set vs. length v = 32)"

lemma all_level_cvs [simp]: "all_cvs (level_cvs key flags j m c bs)"
  by (induction m arbitrary: c bs) (auto simp: all_cvs_def)

lemma length_concat_cvs: "all_cvs vs \<Longrightarrow> length (concat vs) = 32 * length vs"
  by (induction vs) (auto simp: all_cvs_def)

lemma parents_array_pairs:
  "all_cvs vs \<Longrightarrow> length vs = 2 * m \<Longrightarrow>
     map (\<lambda>b. ref_cv (parent_output (take 64 b) key flags)) (parents_array (concat vs @ rest) (2 * m)) = pair_up key flags vs"
proof (induction m arbitrary: vs)
  case (Suc m)
  then obtain u v ws where vs: "vs = u # v # ws" by (cases vs rule: remdups_adj.cases) auto
  have l: "length u = 32" "length v = 32" "all_cvs ws" "length ws = 2 * m" using Suc.prems by (auto simp: all_cvs_def vs)
  have up: "[0..<Suc m] = 0 # map Suc [0..<m]" by (simp add: upt_conv_Cons map_Suc_upt del: upt_Suc)
  have sh: "drop (2 * Suc i * 32) (concat vs @ rest) = drop (2 * i * 32) (concat ws @ rest)" for i
    using l(1,2) by (simp add: vs)
  have "parents_array (concat vs @ rest) (2 * Suc m) = (u @ v) # parents_array (concat ws @ rest) (2 * m)"
    unfolding parents_array_def blake3_lengths nonzero_mult_div_cancel_left [OF zero_neq_numeral [symmetric]] up
    using l(1,2) sh by (simp add: vs comp_def)
  then show ?case using Suc.IH [OF l(3,4)] l(1,2) by (simp add: vs)
qed (simp add: parents_array_def)

lemma chunks_array_level:
  "length bs = m * 1024 \<Longrightarrow> \<exists>cs. chunks_array bs = (cs, []) \<and> length cs = m \<and> (\<forall>c \<in> set cs. length c = 1024) \<and>
     chunk_cvs flags key (of_nat c) cs = level_cvs key flags 0 m c bs"
proof (induction m arbitrary: bs c)
  case 0
  then show ?case by (subst chunks_array.simps) (simp add: BLAKE3_CHUNK_LEN_def)
next
  case (Suc m)
  have "length (drop 1024 bs) = m * 1024" using Suc.prems by simp
  from Suc.IH [OF this, of "c + 1"] obtain cs where cs: "chunks_array (drop 1024 bs) = (cs, [])" "length cs = m"
      "\<forall>c \<in> set cs. length c = 1024" "chunk_cvs flags key (of_nat (c + 1)) cs = level_cvs key flags 0 m (c + 1) (drop 1024 bs)"
    by blast
  have arr: "chunks_array bs = (take 1024 bs # cs, [])"
    using Suc.prems cs(1) by (subst chunks_array.simps) (simp add: BLAKE3_CHUNK_LEN_def)
  have "subtree_cv key flags 0 c bs = ref_cv (ref_chunk flags (of_nat c) key True (take 1024 bs))"
    unfolding subtree_cv_def by (subst ref_tree.simps) simp
  then show ?case
    using cs Suc.prems by (intro exI [of _ "take 1024 bs # cs"]) (simp add: arr add.commute)
qed

section \<open>Wide subtrees\<close>

lemma overlay_start: "length ws \<le> length arr \<Longrightarrow> overlay 0 ws arr = ws @ drop (length ws) arr"
  by (simp add: overlay_def)

lemma overlay_two:
  assumes "length us = n" "n + length vs \<le> length arr"
  shows "overlay n vs (overlay 0 us arr) = us @ vs @ drop (n + length vs) arr"
  using assms by (simp add: overlay_def add.commute)

context blake3_kernels
begin

lemma compress_parents:
  assumes "all_cvs vs" "length vs = 2 * m"
  shows "compress_parents_parallel K (concat vs @ rest) (2 * m) key flags = (concat (pair_up key flags vs), m)"
  using parents_array_pairs [OF assms, of key flags rest] hash_many_parents [of _ key flags]
  by (simp add: compress_parents_parallel_def Let_def hash_many length_parents_array)

lemma compress_chunks:
  assumes "length bs = m * 1024"
  shows "compress_chunks_parallel K bs key (of_nat c) flags = (concat (level_cvs key flags 0 m c bs), m)"
proof -
  obtain cs where cs: "chunks_array bs = (cs, [])" "length cs = m" "\<forall>c \<in> set cs. length c = 1024"
      "chunk_cvs flags key (of_nat c) cs = level_cvs key flags 0 m c bs"
    using chunks_array_level [OF assms] by blast
  show ?thesis
    using hash_many_chunks [OF cs(3), of key "of_nat c" flags] cs(1,2,4)
    by (simp add: compress_chunks_parallel_def Let_def hash_many blake3_lengths)
qed

lemma degree_power: obtains d where "d \<le> 4" "simd_degree K = 2 ^ d"
  using degree by blast

text \<open>The number of chaining values is the number of chunks, capped by the lanes, which count as at least 2.\<close>

lemma subtree_wide:
  assumes "d \<le> 4" "simd_degree K = 2 ^ d" "length bs = 2 ^ k * 1024"
  shows "blake3_compress_subtree_wide K bs key (of_nat c) flags =
    (let e = min k (max 1 d) in (concat (level_cvs key flags (k - e) (2 ^ e) c bs), 2 ^ e))"
  using assms(3)
proof (induction k arbitrary: bs c)
  case 0
  have "simd_degree K \<ge> 1" by (simp add: simd_degree_def)
  then show ?case
    using compress_chunks [of bs 1 key c flags] 0
    by (subst blake3_compress_subtree_wide.simps) (simp add: blake3_lengths)
next
  case (Suc k)
  show ?case
  proof (cases "Suc k \<le> d")
    case True
    then have "(2 :: nat) ^ Suc k \<le> 2 ^ d" by (intro power_increasing) auto
    then have "length bs \<le> simd_degree K * BLAKE3_CHUNK_LEN" using Suc.prems assms(2) by (simp add: blake3_lengths)
    moreover have "min (Suc k) (max 1 d) = Suc k" using True by simp
    ultimately show ?thesis
      using compress_chunks [of bs "2 ^ Suc k" key c flags] Suc.prems
      by (subst blake3_compress_subtree_wide.simps) simp
  next
    case False
    define e where "e = min k (max 1 d)"
    define l where "l = take (2 ^ k * 1024) bs"
    define r where "r = drop (2 ^ k * 1024) bs"
    have len: "length l = 2 ^ k * 1024" "length r = 2 ^ k * 1024" using Suc.prems by (simp_all add: l_def r_def)
    have big: "\<not> length bs \<le> simd_degree K * BLAKE3_CHUNK_LEN"
      unfolding Suc.prems assms(2) blake3_lengths using False by (simp del: power_Suc)
    have ll: "left_len (length bs) = 2 ^ k * 1024" using Suc.prems by (intro left_len_eq) auto
    have cnt: "of_nat c + of_nat (2 ^ k * 1024 div BLAKE3_CHUNK_LEN) = (of_nat (c + 2 ^ k) :: u64)"
      by (simp add: BLAKE3_CHUNK_LEN_def)
    let ?L = "concat (level_cvs key flags (k - e) (2 ^ e) c l)"
    let ?R = "concat (level_cvs key flags (k - e) (2 ^ e) (c + 2 ^ k) r)"
    have L: "blake3_compress_subtree_wide K l key (of_nat c) flags = (?L, 2 ^ e)"
      and R: "blake3_compress_subtree_wide K r key (of_nat (c + 2 ^ k)) flags = (?R, 2 ^ e)"
      using Suc.IH [OF len(1), of c] Suc.IH [OF len(2), of "c + 2 ^ k"] by (simp_all add: e_def Let_def)
    have lenL: "length ?L = 32 * 2 ^ e" "length ?R = 32 * 2 ^ e"
      by (simp_all add: length_concat_cvs)
    have ek: "e \<le> k" "2 ^ e * 2 ^ (k - e) = (2 :: nat) ^ k" by (simp_all add: e_def flip: power_add)
    have "e \<le> 4" using assms(1) by (simp add: e_def)
    then have e16: "(2 :: nat) ^ e \<le> 16" using power_increasing [of e 4 "2 :: nat"] by simp
    let ?deg = "if 2 ^ k * 1024 > BLAKE3_CHUNK_LEN \<and> simd_degree K = 1 then 2 else simd_degree K"
    have deg: "?deg = 2 ^ e"
      using False assms(2) one_less_power [of "2 :: nat" k] by (cases "d = 0"; cases k) (auto simp: e_def BLAKE3_CHUNK_LEN_def)
    define zeros where "zeros = replicate (2 * MAX_SIMD_DEGREE_OR_2 * BLAKE3_OUT_LEN) (0 :: byte)"
    have lz: "length zeros = 1024" by (simp add: zeros_def MAX_SIMD_DEGREE_OR_2_def blake3_lengths)
    have arr: "overlay (2 ^ e * BLAKE3_OUT_LEN) ?R (overlay 0 ?L zeros) =
        ?L @ ?R @ drop (2 ^ e * 32 + 32 * 2 ^ e) zeros" (is "?arr = _")
      using overlay_two [of ?L "2 ^ e * 32" ?R zeros] lenL lz e16 by (simp add: BLAKE3_OUT_LEN_def)
    have LR: "?L @ ?R = concat (level_cvs key flags (k - e) (2 * 2 ^ e) c bs)"
      using level_cvs_append [of key flags "k - e" "2 ^ e" "2 ^ e" c bs] level_cvs_take [of "2 ^ e" "k - e" "2 ^ k * 1024" key flags c bs]
      by (simp add: ek mult_2 l_def r_def)
    have wide: "blake3_compress_subtree_wide K bs key (of_nat c) flags =
      (if (2 :: nat) ^ e = 1 then (take (2 * BLAKE3_OUT_LEN) ?arr, 2)
       else compress_parents_parallel K ?arr (2 ^ e + 2 ^ e) key flags)"
      unfolding blake3_compress_subtree_wide.simps [of K bs] if_not_P [OF big] Let_def ll cnt deg
        l_def [symmetric] r_def [symmetric] zeros_def [symmetric] L R split_conv ..
    show ?thesis
    proof (cases "e = 0")
      case True
      then have k: "k = 0" by (auto simp: e_def)
      have "take (2 * BLAKE3_OUT_LEN) ?arr = concat (level_cvs key flags 0 2 c bs)"
        unfolding arr append_assoc [symmetric] LR using True k by (simp add: length_concat_cvs BLAKE3_OUT_LEN_def)
      then show ?thesis unfolding wide using True k by simp
    next
      case ne: False
      have e': "e = max 1 d" "min (Suc k) (max 1 d) = e" using False ne by (auto simp: e_def)
      have "Suc k - e = Suc (k - e)" using ek(1) by (rule Suc_diff_le)
      moreover have "2 ^ e * 2 ^ Suc (k - e) * 1024 \<le> length bs" using Suc.prems ek(2) by simp
      ultimately have "pair_up key flags (level_cvs key flags (k - e) (2 * 2 ^ e) c bs) = level_cvs key flags (Suc k - e) (2 ^ e) c bs"
        using pair_up_level [of "2 ^ e" "k - e" bs key flags c] by simp
      then show ?thesis
        using ne compress_parents [of "level_cvs key flags (k - e) (2 * 2 ^ e) c bs" "2 ^ e" "drop (2 ^ e * 32 + 32 * 2 ^ e) zeros" key flags]
        unfolding wide arr append_assoc [symmetric] LR e'(2) by (simp add: mult_2)
    qed
  qed
qed

lemma condense:
  assumes "2 ^ Suc i \<le> (16 :: nat)" "2 ^ Suc i * 2 ^ j * 1024 \<le> length bs"
  shows "\<exists>rest'. condense_loop K (concat (level_cvs key flags j (2 ^ Suc i) c bs) @ rest) (2 ^ Suc i) key flags =
    concat (level_cvs key flags (j + i) 2 c bs) @ rest'"
  using assms
proof (induction i arbitrary: j rest)
  case 0
  show ?case by (subst condense_loop.simps) simp
next
  case (Suc i)
  let ?vs = "level_cvs key flags j (2 ^ Suc (Suc i)) c bs"
  let ?ws = "level_cvs key flags (Suc j) (2 ^ Suc i) c bs"
  have "(2 :: nat) ^ Suc (Suc i) > 2 ^ 1" by (intro power_strict_increasing) auto
  then have g: "2 ^ Suc (Suc i) > (2 :: nat) \<and> 2 ^ Suc (Suc i) \<le> MAX_SIMD_DEGREE_OR_2"
    using Suc.prems(1) by (simp add: MAX_SIMD_DEGREE_OR_2_def)
  have ws: "pair_up key flags ?vs = ?ws"
    using pair_up_level [of "2 ^ Suc i" j bs key flags c] Suc.prems(2) by simp
  have par: "compress_parents_parallel K (concat ?vs @ rest) (2 ^ Suc (Suc i)) key flags = (concat ?ws, 2 ^ Suc i)"
    using compress_parents [of ?vs "2 ^ Suc i" rest key flags] ws by simp
  have "2 ^ Suc i * BLAKE3_OUT_LEN = length (concat ?ws)" by (simp add: length_concat_cvs BLAKE3_OUT_LEN_def)
  then have step: "condense_loop K (concat ?vs @ rest) (2 ^ Suc (Suc i)) key flags =
    condense_loop K (concat ?ws @ drop (length (concat ?ws)) (concat ?vs @ rest)) (2 ^ Suc i) key flags"
    using g par by (subst condense_loop.simps) (simp add: overlay_def)
  have "2 ^ Suc i \<le> (16 :: nat)" "2 ^ Suc i * 2 ^ Suc j * 1024 \<le> length bs" using Suc.prems by simp_all
  from Suc.IH [OF this] show ?case unfolding step by simp
qed

text \<open>The two halves of a complete subtree of at least two chunks.\<close>

lemma subtree_to_parent_node:
  assumes "length bs = 2 ^ Suc k * 1024"
  shows "compress_subtree_to_parent_node K bs key (of_nat c) flags =
    subtree_cv key flags k c bs @ subtree_cv key flags k (c + 2 ^ k) (drop (2 ^ k * 1024) bs)"
proof -
  obtain d where d: "d \<le> 4" "simd_degree K = 2 ^ d" by (rule degree_power)
  define e where "e = min (Suc k) (max 1 d)"
  obtain i where i: "e = Suc i" by (cases e) (auto simp: e_def)
  have "e \<le> 4" using d(1) by (simp add: e_def)
  then have b: "2 ^ Suc i \<le> (16 :: nat)" using power_increasing [of e 4 "2 :: nat"] by (simp add: i)
  have le: "e \<le> Suc k" by (simp add: e_def)
  then have sum: "Suc k - e + i = k" by (simp add: i)
  have "(2 :: nat) ^ Suc i * 2 ^ (Suc k - e) = 2 ^ Suc k" using le by (simp only: i flip: power_add) simp
  then have "2 ^ Suc i * 2 ^ (Suc k - e) * 1024 \<le> length bs" using assms by simp
  from condense [OF b this, of key flags c "[]"] obtain rest where
    c: "condense_loop K (concat (level_cvs key flags (Suc k - e) (2 ^ Suc i) c bs)) (2 ^ Suc i) key flags =
      concat (level_cvs key flags k 2 c bs) @ rest" unfolding sum by auto
  have "blake3_compress_subtree_wide K bs key (of_nat c) flags = (concat (level_cvs key flags (Suc k - e) (2 ^ Suc i) c bs), 2 ^ Suc i)"
    using subtree_wide [OF d assms, of key c flags] unfolding Let_def e_def [symmetric] i .
  then show ?thesis
    using c by (simp add: compress_subtree_to_parent_node_def BLAKE3_OUT_LEN_def numeral_2_eq_2)
qed

end

end
