(* ===== verification/Blake3_Stack.thy ===== *)
theory Blake3_Stack
  imports Blake3_Tree
begin

text \<open>
  The stack of chaining values of the BLAKE3 hasher. The values in use belong to consecutive complete
  subtrees; their heights are strictly decreasing, but for the last two after a lazy push, so that merging to
  as many values as the chunk count has bits restores the order.
\<close>

section \<open>Heights of subtrees\<close>

definition weight :: "nat list \<Rightarrow> nat" where
  "weight ks = sum_list (map (\<lambda>k. 2 ^ k) ks)"

lemma weight_simps [simp]:
  "weight [] = 0" "weight (k # ks) = 2 ^ k + weight ks" "weight (ks @ ls) = weight ks + weight ls"
  by (simp_all add: weight_def)

abbreviation strict :: "nat list \<Rightarrow> bool" where
  "strict ks \<equiv> sorted_wrt (>) ks"

definition twins :: "nat list \<Rightarrow> bool" where
  "twins ks \<longleftrightarrow> (\<exists>ys a. ks = ys @ [a, a] \<and> strict (ys @ [a]))"

definition lazy :: "nat list \<Rightarrow> bool" where
  "lazy ks \<longleftrightarrow> strict ks \<or> twins ks"

lemma lazy_snoc: "strict ks \<Longrightarrow> \<forall>x \<in> set ks. j \<le> x \<Longrightarrow> lazy (ks @ [j])"
proof (cases ks rule: rev_cases)
  case (snoc ys a)
  assume s: "strict ks" "\<forall>x \<in> set ks. j \<le> x"
  show ?thesis
  proof (cases "a = j")
    case True
    have "ks @ [j] = ys @ [j, j]" using snoc True by simp
    then show ?thesis using s(1) snoc True unfolding lazy_def twins_def by metis
  next
    case False
    then have "strict (ks @ [j])" using s snoc by (force simp: sorted_wrt_append)
    then show ?thesis by (simp add: lazy_def)
  qed
qed (simp add: lazy_def)

lemma weight_less: "strict ks \<Longrightarrow> \<forall>x \<in> set ks. x < k \<Longrightarrow> weight ks < 2 ^ k"
proof (induction ks arbitrary: k)
  case (Cons l ks)
  have "weight ks < 2 ^ l" using Cons by simp
  moreover have "(2 :: nat) ^ Suc l \<le> 2 ^ k" using Cons.prems(2) by (intro power_increasing) auto
  ultimately show ?case by simp
qed simp

lemma popcnt_rec: "popcnt x = x mod 2 + popcnt (x div 2)"
  by (cases "x = 0") (simp_all add: popcnt.simps [of x] popcnt.simps [of 0])

lemma popcnt_add: "r < 2 ^ k \<Longrightarrow> popcnt (2 ^ k + r) = Suc (popcnt r)"
proof (induction k arbitrary: r)
  case 0
  then show ?case by (simp add: popcnt_rec [of "Suc 0"] popcnt.simps [of 0])
next
  case (Suc k)
  then have "r div 2 < 2 ^ k" by (simp add: div_less_iff_less_mult mult.commute)
  then show ?case using Suc.IH [of "r div 2"] popcnt_rec [of "2 ^ Suc k + r"] popcnt_rec [of r] by simp
qed

lemma popcnt_weight: "strict ks \<Longrightarrow> popcnt (weight ks) = length ks"
proof (induction ks)
  case (Cons k ks)
  then show ?case using popcnt_add [OF weight_less [of ks k]] by simp
qed (simp add: popcnt.simps)

lemma weight_dvd: "strict ks \<Longrightarrow> 2 ^ j dvd weight ks \<Longrightarrow> \<forall>x \<in> set ks. j \<le> x"
proof (induction ks)
  case (Cons k ks)
  have small: "weight ks < 2 ^ k" using weight_less Cons.prems(1) by simp
  have "j \<le> k"
  proof (rule ccontr)
    assume "\<not> j \<le> k"
    then have "(2 :: nat) ^ Suc k \<le> 2 ^ j" by (intro power_increasing) auto
    moreover have "2 ^ j \<le> 2 ^ k + weight ks" using Cons.prems(2) by (simp add: dvd_imp_le)
    ultimately show False using small by simp
  qed
  moreover from this have "2 ^ j dvd weight ks"
    using Cons.prems(2) by (simp add: le_imp_power_dvd dvd_add_right_iff)
  ultimately show ?case using Cons by simp
qed simp

section \<open>The stack\<close>

fun stack_cvs :: "u32 list \<Rightarrow> byte \<Rightarrow> nat \<Rightarrow> nat list \<Rightarrow> byte list \<Rightarrow> byte list list" where
  "stack_cvs key flags c [] bs = []"
| "stack_cvs key flags c (k # ks) bs = subtree_cv key flags k c bs # stack_cvs key flags (c + 2 ^ k) ks (drop (2 ^ k * 1024) bs)"

lemma length_stack_cvs [simp]: "length (stack_cvs key flags c ks bs) = length ks"
  by (induction ks arbitrary: c bs) auto

lemma stack_cvs_append:
  "stack_cvs key flags c (ks @ ls) bs =
     stack_cvs key flags c ks bs @ stack_cvs key flags (c + weight ks) ls (drop (weight ks * 1024) bs)"
  by (induction ks arbitrary: c bs) (auto simp: algebra_simps)

lemma subtree_cv_more: "2 ^ k * 1024 \<le> length bs \<Longrightarrow> subtree_cv key flags k c (bs @ cs) = subtree_cv key flags k c bs"
  by (simp add: subtree_cv_def)

lemma stack_cvs_more: "weight ks * 1024 \<le> length bs \<Longrightarrow> stack_cvs key flags c ks (bs @ cs) = stack_cvs key flags c ks bs"
proof (induction ks arbitrary: c bs)
  case (Cons k ks)
  have "2 ^ k * 1024 \<le> length bs" "weight ks * 1024 \<le> length (drop (2 ^ k * 1024) bs)"
    using Cons.prems by (simp_all add: algebra_simps)
  then show ?case using Cons.IH by (simp add: subtree_cv_more)
qed simp

lemma stack_cvs_push:
  "weight ks * 1024 = length bs \<Longrightarrow> length part = 2 ^ j * 1024 \<Longrightarrow>
     stack_cvs key flags 0 (ks @ [j]) (bs @ part) = stack_cvs key flags 0 ks bs @ [subtree_cv key flags j (weight ks) part]"
  by (simp add: stack_cvs_append stack_cvs_more)

text \<open>Two subtrees of the same height on top make one of the next height.\<close>

lemma stack_cvs_twins:
  fixes key :: "u32 list" and flags :: byte
  assumes "weight (ys @ [a, a]) * 1024 \<le> length bs"
  defines "s \<equiv> stack_cvs key flags 0 (ys @ [a, a]) bs"
  defines "n \<equiv> length s"
  shows "take (n - 2) s @ [ref_cv (parent_output (s ! (n - 2) @ s ! (n - 1)) key flags)] = stack_cvs key flags 0 (ys @ [Suc a]) bs"
proof -
  let ?r = "drop (weight ys * 1024) bs"
  have "2 ^ Suc a * 1024 \<le> length ?r" using assms(1) by (simp add: algebra_simps)
  note sub = subtree_cv_Suc [OF this, of key flags "weight ys"]
  show ?thesis
    unfolding n_def s_def by (simp add: stack_cvs_append nth_append sub del: drop_drop)
qed

context blake3_kernels
begin

lemma merge_strict:
  assumes "strict ks" "length (hs_stack h) = length ks"
  shows "merge_loop K (popcnt (weight ks)) h = h"
  using assms popcnt_weight [OF assms(1)] by (subst merge_loop.simps) (simp add: Let_def)

lemma merge_lazy:
  assumes "lazy ks" "weight ks * 1024 \<le> length bs" "hs_stack h = stack_cvs (hs_key h) (cs_flags (hs_chunk h)) 0 ks bs"
  shows "\<exists>ks'. strict ks' \<and> weight ks' = weight ks \<and> length ks' \<le> length ks \<and>
    merge_loop K (popcnt (weight ks)) h = h\<lparr>hs_stack := stack_cvs (hs_key h) (cs_flags (hs_chunk h)) 0 ks' bs\<rparr>"
  using assms
proof (induction "length ks" arbitrary: ks h rule: less_induct)
  case less
  show ?case
  proof (cases "strict ks")
    case True
    then show ?thesis using merge_strict [OF True, of h] less.prems(3) by (intro exI [of _ ks]) simp
  next
    case False
    then obtain ys a where ks: "ks = ys @ [a, a]" and st: "strict (ys @ [a])"
      using less.prems(1) by (auto simp: lazy_def twins_def)
    let ?ls = "ys @ [Suc a]"
    have "strict ys" "\<forall>x \<in> set ys. Suc a \<le> x" using st by (auto simp: sorted_wrt_append)
    then have lz: "lazy ?ls" by (rule lazy_snoc)
    have w: "weight ?ls = weight ks" by (simp add: ks)
    let ?h = "h\<lparr>hs_stack := stack_cvs (hs_key h) (cs_flags (hs_chunk h)) 0 ?ls bs\<rparr>"
    have "length ?ls < length ks" "weight ?ls * 1024 \<le> length bs"
      "hs_stack ?h = stack_cvs (hs_key ?h) (cs_flags (hs_chunk ?h)) 0 ?ls bs"
      using less.prems(2) w by (simp_all add: ks)
    from less.hyps [OF this(1) lz this(2,3)] obtain ks' where ks': "strict ks'" "weight ks' = weight ks" "length ks' \<le> length ?ls"
        "merge_loop K (popcnt (weight ks)) ?h = h\<lparr>hs_stack := stack_cvs (hs_key h) (cs_flags (hs_chunk h)) 0 ks' bs\<rparr>"
      unfolding w by auto
    have "popcnt (weight ks) = length ks'" using popcnt_weight [OF ks'(1)] ks'(2) by simp
    then have guard: "length (hs_stack h) > popcnt (weight ks) \<and> length (hs_stack h) \<ge> 2"
      using ks'(3) by (simp add: less.prems(3) ks)
    note tw = stack_cvs_twins [of ys a bs "hs_key h" "cs_flags (hs_chunk h)", folded ks, OF less.prems(2), folded less.prems(3)]
    have "merge_loop K (popcnt (weight ks)) h = merge_loop K (popcnt (weight ks)) ?h"
      using guard tw by (subst merge_loop.simps) (simp add: Let_def output_chaining_value)
    then show ?thesis using ks' by (intro exI [of _ ks']) (auto simp: ks)
  qed
qed

end

section \<open>The size of the next subtree\<close>

lemma mask_and_zero_iff:
  assumes "m < 64" "x < 2 ^ 64"
  shows "of_nat (2 ^ m - 1) AND (of_nat x :: u64) = 0 \<longleftrightarrow> 2 ^ m dvd x"
proof -
  have "of_nat (2 ^ m - 1) AND (of_nat x :: u64) = take_bit m (of_nat x)"
    by (simp add: take_bit_eq_mask mask_eq_exp_minus_1 of_nat_diff and.commute)
  also have "\<dots> = of_nat (x mod 2 ^ m)" unfolding take_bit_of_nat take_bit_eq_mod [of m x] ..
  finally have eq: "of_nat (2 ^ m - 1) AND (of_nat x :: u64) = of_nat (x mod 2 ^ m)" .
  have "x mod 2 ^ m < 2 ^ 64" using assms(2) mod_less_eq_dividend [of x "2 ^ m"] by linarith
  then show ?thesis unfolding eq word_of_nat_eq_0_iff by (auto simp: dvd_eq_mod_eq_0)
qed

lemma shrink_loop_power:
  "x < 2 ^ 64 \<Longrightarrow> m < 64 \<Longrightarrow> i \<le> m \<Longrightarrow> 2 ^ i dvd x \<Longrightarrow>
     \<exists>j. shrink_loop (of_nat x) (2 ^ m) = 2 ^ j \<and> i \<le> j \<and> j \<le> m \<and> 2 ^ j dvd x"
proof (induction m)
  case 0
  then show ?case using mask_and_zero_iff [of 0 x] by (subst shrink_loop.simps) (auto intro: exI [of _ 0])
next
  case (Suc m)
  show ?case
  proof (cases "2 ^ Suc m dvd x")
    case True
    then have "shrink_loop (of_nat x) (2 ^ Suc m) = 2 ^ Suc m"
      using mask_and_zero_iff [of "Suc m" x] Suc.prems by (subst shrink_loop.simps) simp
    then show ?thesis using True Suc.prems(3) by blast
  next
    case False
    then have "i \<le> m" using Suc.prems(3,4) by (metis le_SucE)
    then have "\<exists>j. shrink_loop (of_nat x) (2 ^ m) = 2 ^ j \<and> i \<le> j \<and> j \<le> m \<and> 2 ^ j dvd x"
      using Suc by simp
    moreover have "shrink_loop (of_nat x) (2 ^ Suc m) = shrink_loop (of_nat x) (2 ^ m)"
      using mask_and_zero_iff [of "Suc m" x] Suc.prems(1,2) False by (subst shrink_loop.simps) simp
    ultimately show ?thesis by auto
  qed
qed

lemma next_subtree:
  assumes "1024 < n" "n < 2 ^ 64" "c * 1024 < 2 ^ 64"
  obtains m where "shrink_loop (of_nat c * of_nat BLAKE3_CHUNK_LEN) (round_down_to_power_of_2 n) = 2 ^ m * 1024"
    "2 ^ m dvd c" "2 ^ m * 1024 \<le> n"
proof -
  obtain p where p: "round_down_to_power_of_2 n = 2 ^ p" using round_down_power by blast
  have n: "2 ^ p \<le> n" "n < 2 ^ Suc p" using round_down_bounds(1,2) [of n] p assms(1) by (simp_all add: max_def split: if_splits)
  have "(2 :: nat) ^ 10 < 2 ^ Suc p" using n(2) assms(1) by simp
  then have p10: "10 \<le> p" by (simp only: power_strict_increasing_iff)
  have "(2 :: nat) ^ p < 2 ^ 64" using n(1) assms(2) by linarith
  then have p64: "p < 64" by (simp only: power_strict_increasing_iff)
  have "(2 :: nat) ^ 10 dvd c * 1024" by simp
  from shrink_loop_power [OF assms(3) p64 p10 this] obtain j where
    j: "shrink_loop (of_nat (c * 1024)) (2 ^ p) = 2 ^ j" "10 \<le> j" "j \<le> p" "2 ^ j dvd c * 1024" by blast
  define m where "m = j - 10"
  have jm: "(2 :: nat) ^ j = 2 ^ m * 1024" using j(2) power_add [of "2 :: nat" m 10] by (simp add: m_def)
  have "(2 :: nat) ^ j \<le> 2 ^ p" using j(3) by (intro power_increasing) auto
  then have "2 ^ m * 1024 \<le> n" using jm n(1) by simp
  moreover have "2 ^ m dvd c" using j(4) unfolding jm by simp
  moreover have "shrink_loop (of_nat c * of_nat BLAKE3_CHUNK_LEN) (round_down_to_power_of_2 n) = 2 ^ m * 1024"
    using j(1) p jm by (simp add: BLAKE3_CHUNK_LEN_def)
  ultimately show thesis using that by blast
qed

end
