(* ===== verification/Blake3_Hasher.thy ===== *)
theory Blake3_Hasher
  imports Blake3_Stack
begin

text \<open>
  The hasher implements the tree: the relation between a hasher and the bytes it was fed is kept by every
  update, and finalizing a related hasher outputs the root of the reference tree.
\<close>

section \<open>The abstraction relation\<close>

text \<open>The stack holds the chaining values of the first \<open>weight ks\<close> chunks of what was fed.\<close>

definition stack_rel :: "u32 list \<Rightarrow> byte \<Rightarrow> nat list \<Rightarrow> byte list \<Rightarrow> hasher \<Rightarrow> bool" where
  "stack_rel key flags ks bs h \<longleftrightarrow>
     hs_key h = key \<and> cs_flags (hs_chunk h) = flags \<and> cs_counter (hs_chunk h) = of_nat (weight ks) \<and>
     lazy ks \<and> weight ks * 1024 \<le> length bs \<and> hs_stack h = stack_cvs key flags 0 ks bs"

definition fresh :: "u32 list \<Rightarrow> chunk_state \<Rightarrow> bool" where
  "fresh key cs \<longleftrightarrow> cs_cv cs = key \<and> cs_blocks cs = 0 \<and> drained cs"

text \<open>
  The chunk state holds the bytes \<open>cur\<close> behind them. The heights are strictly decreasing while it holds some;
  when it holds none, the hasher is new or the last update ended with a pair of equal subtrees.
\<close>

definition chunk_rel :: "u32 list \<Rightarrow> byte list \<Rightarrow> chunk_state \<Rightarrow> bool" where
  "chunk_rel key cur cs \<longleftrightarrow>
     chunk_ok cs \<and> chunk_state_len cs = length cur \<and> length cur \<le> 1024 \<and> (cur = [] \<longrightarrow> fresh key cs) \<and>
     (\<forall>rest. resume cs rest = ref_chunk (cs_flags cs) (cs_counter cs) key True (cur @ rest))"

definition hasher_rel :: "u32 list \<Rightarrow> byte \<Rightarrow> byte list \<Rightarrow> hasher \<Rightarrow> bool" where
  "hasher_rel key flags bs h \<longleftrightarrow>
     (\<exists>ks. stack_rel key flags ks bs h \<and> chunk_rel key (drop (weight ks * 1024) bs) (hs_chunk h) \<and>
       (if length bs = weight ks * 1024 then ks = [] \<or> twins ks else strict ks))"

lemma unat_of_nat_u64: "n < 2 ^ 64 \<Longrightarrow> unat (of_nat n :: u64) = n"
  by (simp add: unat_of_nat)

lemma fresh_chunk_rel: "fresh key cs \<Longrightarrow> chunk_rel key [] cs"
  by (auto simp: fresh_def chunk_rel_def drained_def chunk_ok_def buf_ok_def chunk_state_len_def resume_def)

lemma twins_lazy: "twins ks \<Longrightarrow> lazy ks"
  by (simp add: lazy_def)

lemma hasher_init_rel: "hasher_rel key flags [] (hasher_init_base key flags)"
proof -
  have "fresh key (chunk_state_init key flags)"
    by (simp add: fresh_def chunk_state_init_def drained_def BLAKE3_BLOCK_LEN_def)
  then show ?thesis
    unfolding hasher_rel_def stack_rel_def
    by (intro exI [of _ "[]"]) (simp add: fresh_chunk_rel hasher_init_base_def chunk_state_init_def lazy_def)
qed

section \<open>Updates\<close>

context blake3_kernels
begin

lemma chunk_rel_update:
  assumes "chunk_rel key cur cs" "length cur + length inp \<le> 1024"
  shows "chunk_rel key (cur @ inp) (chunk_state_update K inp cs)"
    "cs_flags (chunk_state_update K inp cs) = cs_flags cs" "cs_counter (chunk_state_update K inp cs) = cs_counter cs"
proof -
  have ok: "chunk_ok cs" using assms(1) by (simp add: chunk_rel_def)
  note u = chunk_state_update [OF ok, of inp]
  show "cs_flags (chunk_state_update K inp cs) = cs_flags cs" "cs_counter (chunk_state_update K inp cs) = cs_counter cs"
    by (rule u)+
  have "chunk_rel key (cur @ inp) (chunk_state_update K inp cs)" if ne: "inp \<noteq> [] \<or> cur \<noteq> []"
    using assms ne u by (auto simp: chunk_rel_def)
  moreover have "chunk_state_update K [] cs = cs" if "cur = []"
  proof -
    have "fresh key cs" using assms(1) that by (simp add: chunk_rel_def)
    then have "cs_buf_len cs = 0" "chunk_blocks_loop K [] cs = ([], cs)"
      by (simp_all add: fresh_def drained_def chunk_blocks_loop.simps)
    then show ?thesis by (simp add: chunk_state_update_def chunk_state_fill_buf_def overlay_def)
  qed
  ultimately show "chunk_rel key (cur @ inp) (chunk_state_update K inp cs)"
    using assms(1) by (cases "inp \<noteq> [] \<or> cur \<noteq> []") auto
qed

lemma chunk_rel_output:
  assumes "chunk_rel key cur cs"
  shows "chunk_state_output cs = ref_chunk (cs_flags cs) (cs_counter cs) key True cur"
  using assms chunk_state_output_resume [of cs] by (auto simp: chunk_rel_def)

text \<open>Merging and pushing.\<close>

lemma merge_rel:
  assumes "stack_rel key flags ks bs h" "weight ks < 2 ^ 64"
  obtains ks' where "strict ks'" "weight ks' = weight ks"
    "hasher_merge_cv_stack K (of_nat (weight ks)) h = h\<lparr>hs_stack := stack_cvs key flags 0 ks' bs\<rparr>"
proof -
  have u: "unat (of_nat (weight ks) :: u64) = weight ks" using assms(2) by (rule unat_of_nat_u64)
  show thesis
    using merge_lazy [of ks bs h] assms(1) that unfolding hasher_merge_cv_stack_def u stack_rel_def by auto
qed

lemma push_rel:
  assumes "stack_rel key flags ks bs h" "weight ks * 1024 = length bs" "weight ks < 2 ^ 64"
    "length part = 2 ^ j * 1024" "2 ^ j dvd weight ks" "cv = subtree_cv key flags j (weight ks) part"
  obtains ks' where "strict ks'" "weight ks' = weight ks" "\<forall>x \<in> set ks'. j \<le> x"
    "hasher_push_cv K cv (of_nat (weight ks)) h = h\<lparr>hs_stack := stack_cvs key flags 0 (ks' @ [j]) (bs @ part)\<rparr>"
proof -
  obtain ks' where ks': "strict ks'" "weight ks' = weight ks"
      "hasher_merge_cv_stack K (of_nat (weight ks)) h = h\<lparr>hs_stack := stack_cvs key flags 0 ks' bs\<rparr>"
    using merge_rel [OF assms(1,3)] by metis
  have "hasher_push_cv K cv (of_nat (weight ks)) h = h\<lparr>hs_stack := stack_cvs key flags 0 (ks' @ [j]) (bs @ part)\<rparr>"
    using stack_cvs_push [of ks' bs part j key flags] assms(2,4,6) ks'(2)
    by (simp add: hasher_push_cv_def ks'(3))
  moreover have "\<forall>x \<in> set ks'. j \<le> x" using weight_dvd ks'(1,2) assms(5) by simp
  ultimately show thesis using that ks' by blast
qed

text \<open>A single chunk.\<close>

lemma push_chunk:
  assumes "stack_rel key flags ks bs h" "weight ks * 1024 = length bs" "weight ks < 2 ^ 64" "length part = 1024"
    "cv = ref_cv (ref_chunk flags (of_nat (weight ks)) key True part)"
  obtains ks' where "lazy ks'" "weight ks' = weight ks + 1"
    "hasher_push_cv K cv (of_nat (weight ks)) h = h\<lparr>hs_stack := stack_cvs key flags 0 ks' (bs @ part)\<rparr>"
proof -
  have "cv = subtree_cv key flags 0 (weight ks) part"
    unfolding assms(5) subtree_cv_def using assms(4) by (subst ref_tree.simps) simp
  then obtain ks' where ks': "strict ks'" "weight ks' = weight ks"
      "hasher_push_cv K cv (of_nat (weight ks)) h = h\<lparr>hs_stack := stack_cvs key flags 0 (ks' @ [0]) (bs @ part)\<rparr>"
    using push_rel [OF assms(1-3), of part 0 cv] assms(4) by (metis mult_1 one_dvd power_0)
  then show thesis using that [of "ks' @ [0]"] lazy_snoc [of ks' 0] by simp
qed

text \<open>The two halves of a larger subtree.\<close>

lemma push_pair:
  assumes rel: "stack_rel key flags ks bs h" "weight ks * 1024 = length bs"
    and small: "weight ks + 2 ^ Suc k < 2 ^ 64"
    and part: "length part = 2 ^ Suc k * 1024" and dvd: "2 ^ Suc k dvd weight ks"
  defines "pair \<equiv> compress_subtree_to_parent_node K part key (of_nat (weight ks)) flags"
  obtains ks' where "twins ks'" "weight ks' = weight ks + 2 ^ Suc k"
    "hasher_push_cv K (drop BLAKE3_OUT_LEN pair) (of_nat (weight ks) + of_nat (2 ^ k))
       (hasher_push_cv K (take BLAKE3_OUT_LEN pair) (of_nat (weight ks)) h) =
     h\<lparr>hs_stack := stack_cvs key flags 0 ks' (bs @ part)\<rparr>"
proof -
  let ?l = "take (2 ^ k * 1024) part" and ?r = "drop (2 ^ k * 1024) part"
  have pair: "pair = subtree_cv key flags k (weight ks) part @ subtree_cv key flags k (weight ks + 2 ^ k) ?r"
    unfolding pair_def by (rule subtree_to_parent_node [OF part])
  have lens: "length ?l = 2 ^ k * 1024" "length ?r = 2 ^ k * 1024" using part by simp_all
  have left: "take BLAKE3_OUT_LEN pair = subtree_cv key flags k (weight ks) ?l"
    and right: "drop BLAKE3_OUT_LEN pair = subtree_cv key flags k (weight ks + 2 ^ k) ?r"
    by (simp_all add: pair BLAKE3_OUT_LEN_def subtree_cv_def)
  have dk: "2 ^ k dvd weight ks" using dvd by (metis dvd_trans dvd_triv_right power_Suc)
  have "weight ks < 2 ^ 64" using small by linarith
  from push_rel [OF rel this lens(1) dk left] obtain ks' where ks': "strict ks'" "weight ks' = weight ks"
      "hasher_push_cv K (take BLAKE3_OUT_LEN pair) (of_nat (weight ks)) h =
         h\<lparr>hs_stack := stack_cvs key flags 0 (ks' @ [k]) (bs @ ?l)\<rparr>" by metis
  let ?h = "h\<lparr>hs_stack := stack_cvs key flags 0 (ks' @ [k]) (bs @ ?l)\<rparr>"
  have "\<forall>x \<in> set ks'. Suc k \<le> x" using weight_dvd [OF ks'(1), of "Suc k"] dvd ks'(2) by simp
  then have st: "strict (ks' @ [k])" using ks'(1) by (auto simp: sorted_wrt_append Suc_le_eq)
  have w: "weight (ks' @ [k]) = weight ks + 2 ^ k" using ks'(2) by simp
  have "unat (of_nat (weight ks) + of_nat (2 ^ k) :: u64) = weight (ks' @ [k])"
    unfolding w of_nat_add [symmetric] by (rule unat_of_nat_u64) (use small in simp)
  then have merged: "hasher_merge_cv_stack K (of_nat (weight ks) + of_nat (2 ^ k)) ?h = ?h"
    using merge_strict [OF st, of ?h] by (simp add: hasher_merge_cv_stack_def)
  have "weight (ks' @ [k]) * 1024 = length (bs @ ?l)" using rel(2) lens(1) w by (simp add: algebra_simps)
  from stack_cvs_push [OF this lens(2), of key flags]
  have "hasher_push_cv K (drop BLAKE3_OUT_LEN pair) (of_nat (weight ks) + of_nat (2 ^ k)) ?h =
      h\<lparr>hs_stack := stack_cvs key flags 0 (ks' @ [k, k]) (bs @ part)\<rparr>"
    unfolding hasher_push_cv_def merged by (simp add: ks'(2) right)
  moreover have "twins (ks' @ [k, k])" using st by (auto simp: twins_def)
  ultimately show thesis using that [of "ks' @ [k, k]"] ks'(2,3) by simp
qed

text \<open>The loop over subtrees: it starts and ends with a fresh chunk.\<close>

lemma subtrees_rel:
  assumes "stack_rel key flags ks bs h" "weight ks * 1024 = length bs" "fresh key (hs_chunk h)"
    "length bs + length inp < 2 ^ 64" "subtrees_loop K inp h = (inp', h')"
  shows "\<exists>ks' pre. inp = pre @ inp' \<and> stack_rel key flags ks' (bs @ pre) h' \<and> weight ks' * 1024 = length (bs @ pre) \<and>
    fresh key (hs_chunk h') \<and> length inp' \<le> 1024 \<and> (inp \<noteq> [] \<and> inp' = [] \<longrightarrow> twins ks')"
  using assms
proof (induction "length inp" arbitrary: inp ks bs h rule: less_induct)
  case less
  show ?case
  proof (cases "1024 < length inp")
    case False
    then have "inp' = inp \<and> h' = h"
      using less.prems(5) by (subst (asm) subtrees_loop.simps) (simp add: BLAKE3_CHUNK_LEN_def)
    then show ?thesis using less.prems False by (intro exI [of _ ks] exI [of _ "[]"]) simp
  next
    case True
    let ?c = "weight ks"
    have "length inp < 2 ^ 64" "?c * 1024 < 2 ^ 64" using less.prems(2,4) by linarith+
    from next_subtree [OF True this] obtain m where
      m: "shrink_loop (of_nat ?c * of_nat BLAKE3_CHUNK_LEN) (round_down_to_power_of_2 (length inp)) = 2 ^ m * 1024"
        "2 ^ m dvd ?c" "2 ^ m * 1024 \<le> length inp" by metis
    define part where "part = take (2 ^ m * 1024) inp"
    define inp1 where "inp1 = drop (2 ^ m * 1024) inp"
    have part: "length part = 2 ^ m * 1024" "inp = part @ inp1" using m(3) by (simp_all add: part_def inp1_def)
    have small: "?c + 2 ^ m < 2 ^ 64" using less.prems(2,4) m(3) by linarith
    have h: "hs_key h = key" "cs_flags (hs_chunk h) = flags" "cs_counter (hs_chunk h) = of_nat ?c"
      using less.prems(1) by (simp_all add: stack_rel_def)
    let ?pushed = "if 2 ^ m * 1024 \<le> BLAKE3_CHUNK_LEN
      then hasher_push_cv K (single_chunk_cv K part key (of_nat ?c) flags) (of_nat ?c) h
      else let cv_pair = compress_subtree_to_parent_node K part key (of_nat ?c) flags
           in hasher_push_cv K (drop BLAKE3_OUT_LEN cv_pair) (of_nat ?c + of_nat (2 ^ m * 1024 div BLAKE3_CHUNK_LEN div 2))
                (hasher_push_cv K (take BLAKE3_OUT_LEN cv_pair) (of_nat ?c) h)"
    have pushed: "\<exists>ks1. lazy ks1 \<and> weight ks1 = ?c + 2 ^ m \<and> ?pushed = h\<lparr>hs_stack := stack_cvs key flags 0 ks1 (bs @ part)\<rparr> \<and>
      (inp1 = [] \<longrightarrow> twins ks1)"
    proof (cases m)
      case 0
      have "?c < 2 ^ 64" using small by linarith
      moreover have "length part = 1024" "inp1 \<noteq> []" using part(1) True 0 by (simp_all add: inp1_def)
      ultimately show ?thesis
        using push_chunk [OF less.prems(1,2), of part "single_chunk_cv K part key (of_nat ?c) flags"] single_chunk_cv 0
        by (simp add: BLAKE3_CHUNK_LEN_def) metis
    next
      case (Suc k)
      have big: "\<not> 2 ^ m * 1024 \<le> BLAKE3_CHUNK_LEN" using Suc one_less_power [of "2 :: nat" m] by (simp add: BLAKE3_CHUNK_LEN_def)
      have half: "2 ^ m * 1024 div BLAKE3_CHUNK_LEN div 2 = (2 :: nat) ^ k" by (simp add: Suc BLAKE3_CHUNK_LEN_def)
      obtain ks1 where "twins ks1" "weight ks1 = ?c + 2 ^ m"
          "?pushed = h\<lparr>hs_stack := stack_cvs key flags 0 ks1 (bs @ part)\<rparr>"
        unfolding if_not_P [OF big] half Let_def using push_pair [OF less.prems(1,2), of k part] small part(1) m(2) unfolding Suc by metis
      then show ?thesis using twins_lazy by blast
    qed
    then obtain ks1 where ks1: "lazy ks1" "weight ks1 = ?c + 2 ^ m" "?pushed = h\<lparr>hs_stack := stack_cvs key flags 0 ks1 (bs @ part)\<rparr>"
      "inp1 = [] \<longrightarrow> twins ks1" by blast
    define h1 where "h1 = h\<lparr>hs_stack := stack_cvs key flags 0 ks1 (bs @ part), hs_chunk := (hs_chunk h)\<lparr>cs_counter := of_nat ?c + of_nat (2 ^ m)\<rparr>\<rparr>"
    have step: "subtrees_loop K inp1 h1 = (inp', h')"
      using less.prems(5) True ks1(3) unfolding subtrees_loop.simps [of K inp h] Let_def h m(1) part_def [symmetric] inp1_def [symmetric]
      by (simp add: h1_def h BLAKE3_CHUNK_LEN_def)
    have w1: "weight ks1 * 1024 = length (bs @ part)" using ks1(2) less.prems(2) part(1) by (simp add: algebra_simps)
    have rel1: "stack_rel key flags ks1 (bs @ part) h1"
      using ks1(1,2) w1 h by (simp add: stack_rel_def h1_def)
    have fr1: "fresh key (hs_chunk h1)" using less.prems(3) by (simp add: h1_def fresh_def drained_def)
    have "0 < length part" using part(1) by simp
    then have lt: "length inp1 < length inp" "length (bs @ part) + length inp1 < 2 ^ 64"
      using less.prems(4) by (simp_all add: part(2))
    show ?thesis
    proof (cases "inp1 = []")
      case False
      from less.hyps [OF lt(1) rel1 w1 fr1 lt(2) step] False obtain ks' pre where
        "inp1 = pre @ inp'" "stack_rel key flags ks' ((bs @ part) @ pre) h'" "weight ks' * 1024 = length ((bs @ part) @ pre)"
        "fresh key (hs_chunk h')" "length inp' \<le> 1024" "inp' = [] \<longrightarrow> twins ks'" by blast
      then show ?thesis using part(2) by (intro exI [of _ ks'] exI [of _ "part @ pre"]) simp
    next
      case nil: True
      then have "inp' = []" "h' = h1" using step by (simp_all add: subtrees_loop.simps)
      then show ?thesis using rel1 w1 fr1 part(2) ks1(4) nil by (intro exI [of _ ks1] exI [of _ part]) simp
    qed
  qed
qed

end

section \<open>The steps of an update\<close>

text \<open>Pushing the full chunk, and the loop with what it leaves to the chunk state.\<close>

definition finish_chunk :: "kernels \<Rightarrow> hasher \<Rightarrow> hasher" where
  "finish_chunk K h =
     (let pushed = hasher_push_cv K (output_chaining_value K (chunk_state_output (hs_chunk h))) (cs_counter (hs_chunk h)) h
      in pushed\<lparr>hs_chunk := chunk_state_reset (hs_key pushed) (cs_counter (hs_chunk pushed) + 1) (hs_chunk pushed)\<rparr>)"

definition add_subtrees :: "kernels \<Rightarrow> byte list \<Rightarrow> hasher \<Rightarrow> hasher" where
  "add_subtrees K inp h =
     (let (inp3, h3) = subtrees_loop K inp h
      in if length inp3 > 0
         then hasher_merge_cv_stack K (cs_counter (hs_chunk h3)) (h3\<lparr>hs_chunk := chunk_state_update K inp3 (hs_chunk h3)\<rparr>)
         else h3)"

lemma update_same:
  assumes "0 < chunk_state_len (hs_chunk h)" "inp \<noteq> []" "length inp \<le> 1024 - chunk_state_len (hs_chunk h)"
  shows "blake3_hasher_update K inp h = h\<lparr>hs_chunk := chunk_state_update K inp (hs_chunk h)\<rparr>"
  using assms by (simp add: blake3_hasher_update_def Let_def BLAKE3_CHUNK_LEN_def min_absorb2)

lemma update_finish:
  assumes "0 < chunk_state_len (hs_chunk h)" "\<not> length inp \<le> n" "n = 1024 - chunk_state_len (hs_chunk h)"
  shows "blake3_hasher_update K inp h =
    add_subtrees K (drop n inp) (finish_chunk K (h\<lparr>hs_chunk := chunk_state_update K (take n inp) (hs_chunk h)\<rparr>))"
proof -
  have n: "min (BLAKE3_CHUNK_LEN - chunk_state_len (hs_chunk h)) (length inp) = n" using assms by (simp add: BLAKE3_CHUNK_LEN_def)
  have len: "length inp \<noteq> 0" "length (drop n inp) \<noteq> 0" using assms(2) by auto
  show ?thesis
    unfolding blake3_hasher_update_def if_not_P [OF len(1)] if_P [OF assms(1)] n using len(2) assms(1)
    by (simp add: Let_def add_subtrees_def finish_chunk_def)
qed

lemma update_fresh:
  assumes "chunk_state_len (hs_chunk h) = 0" "inp \<noteq> []"
  shows "blake3_hasher_update K inp h = add_subtrees K inp h"
  using assms by (simp add: blake3_hasher_update_def Let_def add_subtrees_def)

lemma stack_relD:
  assumes "stack_rel key flags ks bs h"
  shows "weight ks * 1024 \<le> length bs" "hs_key h = key" "cs_flags (hs_chunk h) = flags"
    "cs_counter (hs_chunk h) = of_nat (weight ks)" "hs_stack h = stack_cvs key flags 0 ks bs" "lazy ks"
  using assms by (simp_all add: stack_rel_def)

context blake3_kernels
begin

lemma finish_rel:
  assumes st: "stack_rel key flags ks bs h" and full: "length bs = weight ks * 1024 + 1024" "weight ks < 2 ^ 64"
    and ch: "chunk_rel key (drop (weight ks * 1024) bs) (hs_chunk h)"
  shows "\<exists>ks'. stack_rel key flags ks' bs (finish_chunk K h) \<and> weight ks' * 1024 = length bs \<and> fresh key (hs_chunk (finish_chunk K h))"
proof -
  let ?pre = "take (weight ks * 1024) bs" and ?part = "drop (weight ks * 1024) bs"
  note h = stack_relD [OF st]
  have st1: "stack_rel key flags ks ?pre h" "weight ks * 1024 = length ?pre"
    using st h(1) stack_cvs_more [of ks ?pre key flags 0 ?part] by (simp_all add: stack_rel_def)
  have part: "length ?part = 1024" using full by simp
  have "output_chaining_value K (chunk_state_output (hs_chunk h)) = ref_cv (ref_chunk flags (of_nat (weight ks)) key True ?part)"
    using chunk_rel_output [OF ch] h(3,4) by (simp add: output_chaining_value)
  from push_chunk [OF st1 full(2) part this] obtain ks' where ks': "lazy ks'" "weight ks' = weight ks + 1"
      "hasher_push_cv K (output_chaining_value K (chunk_state_output (hs_chunk h))) (of_nat (weight ks)) h =
       h\<lparr>hs_stack := stack_cvs key flags 0 ks' bs\<rparr>"
    unfolding append_take_drop_id by metis
  have "finish_chunk K h = h\<lparr>hs_stack := stack_cvs key flags 0 ks' bs,
      hs_chunk := chunk_state_reset key (of_nat (weight ks) + 1) (hs_chunk h)\<rparr>"
    unfolding finish_chunk_def h(4) ks'(3) by (simp add: h)
  then show ?thesis
    using ks' full h by (intro exI [of _ ks'])
      (simp add: stack_rel_def fresh_def drained_def chunk_state_reset_def BLAKE3_BLOCK_LEN_def)
qed

lemma add_subtrees_rel:
  assumes st: "stack_rel key flags ks bs h" "weight ks * 1024 = length bs" "fresh key (hs_chunk h)"
    and len: "length bs + length inp < 2 ^ 64" and ne: "inp \<noteq> []"
  shows "hasher_rel key flags (bs @ inp) (add_subtrees K inp h)"
proof -
  obtain inp3 h3 where loop: "subtrees_loop K inp h = (inp3, h3)" by fastforce
  from subtrees_rel [OF st len loop] obtain ks3 pre where s3: "inp = pre @ inp3" "stack_rel key flags ks3 (bs @ pre) h3"
      "weight ks3 * 1024 = length (bs @ pre)" "fresh key (hs_chunk h3)" "length inp3 \<le> 1024" "inp3 = [] \<longrightarrow> twins ks3"
    using ne by blast
  show ?thesis
  proof (cases "inp3 = []")
    case True
    then have "hasher_rel key flags (bs @ pre) h3"
      unfolding hasher_rel_def using s3 fresh_chunk_rel by (intro exI [of _ ks3]) simp
    then show ?thesis using True s3(1) loop by (simp add: add_subtrees_def)
  next
    case False
    let ?h4 = "h3\<lparr>hs_chunk := chunk_state_update K inp3 (hs_chunk h3)\<rparr>"
    note up = chunk_rel_update [OF fresh_chunk_rel [OF s3(4)], of inp3, simplified, OF s3(5)]
    note h3 = stack_relD [OF s3(2)]
    have st4: "stack_rel key flags ks3 (bs @ pre) ?h4" using s3(2) up by (simp add: stack_rel_def)
    have "weight ks3 < 2 ^ 64" using s3(1,3) len by simp
    from merge_rel [OF st4 this] obtain ks4 where ks4: "strict ks4" "weight ks4 = weight ks3"
        "hasher_merge_cv_stack K (of_nat (weight ks3)) ?h4 = ?h4\<lparr>hs_stack := stack_cvs key flags 0 ks4 (bs @ pre)\<rparr>" by metis
    have "add_subtrees K inp h = ?h4\<lparr>hs_stack := stack_cvs key flags 0 ks4 (bs @ pre)\<rparr>"
      using False ks4(3) by (simp add: add_subtrees_def loop h3(4))
    moreover have "hasher_rel key flags ((bs @ pre) @ inp3) (?h4\<lparr>hs_stack := stack_cvs key flags 0 ks4 (bs @ pre)\<rparr>)"
      unfolding hasher_rel_def using ks4(1,2) h3(2-4) s3(3) up False stack_cvs_more [of ks4 "bs @ pre" key flags 0 inp3]
      by (intro exI [of _ ks4]) (simp add: stack_rel_def lazy_def)
    ultimately show ?thesis using s3(1) by simp
  qed
qed

text \<open>Feeding more bytes.\<close>

lemma update_rel:
  assumes rel: "hasher_rel key flags bs h" and len: "length bs + length inp < 2 ^ 64"
  shows "hasher_rel key flags (bs @ inp) (blake3_hasher_update K inp h)"
proof (cases "inp = []")
  case True
  then show ?thesis using rel by (simp add: blake3_hasher_update_def)
next
  case ne: False
  obtain ks where st: "stack_rel key flags ks bs h" and ch: "chunk_rel key (drop (weight ks * 1024) bs) (hs_chunk h)"
      and ord: "if length bs = weight ks * 1024 then ks = [] \<or> twins ks else strict ks"
    using rel by (auto simp: hasher_rel_def)
  let ?cur = "drop (weight ks * 1024) bs"
  note h = stack_relD [OF st]
  have clen: "chunk_state_len (hs_chunk h) = length ?cur" "length ?cur \<le> 1024" using ch by (simp_all add: chunk_rel_def)
  consider "?cur = []" | "?cur \<noteq> []" "length inp \<le> 1024 - length ?cur" | "?cur \<noteq> []" "\<not> length inp \<le> 1024 - length ?cur"
    by blast
  then show ?thesis
  proof cases
    case 1
    then have "weight ks * 1024 = length bs" "fresh key (hs_chunk h)" using h(1) ch by (simp_all add: chunk_rel_def)
    from add_subtrees_rel [OF st this len ne] show ?thesis using 1 clen update_fresh ne by simp
  next
    case 2
    then have "length ?cur + length inp \<le> 1024" using clen(2) by linarith
    note up = chunk_rel_update [OF ch this]
    have eq: "blake3_hasher_update K inp h = h\<lparr>hs_chunk := chunk_state_update K inp (hs_chunk h)\<rparr>"
      using 2 ne by (intro update_same) (simp_all only: clen, simp_all)
    have "strict ks" using ord 2(1) by (auto split: if_splits)
    then show ?thesis
      unfolding hasher_rel_def eq using st up 2(1) h(1)
      by (intro exI [of _ ks]) (auto simp: stack_rel_def stack_cvs_more)
  next
    case 3
    let ?n = "1024 - length ?cur"
    let ?h1 = "h\<lparr>hs_chunk := chunk_state_update K (take ?n inp) (hs_chunk h)\<rparr>"
    have ltn: "length (take ?n inp) = ?n" using 3(2) by simp
    then have "length ?cur + length (take ?n inp) \<le> 1024" using clen(2) by linarith
    note up = chunk_rel_update [OF ch this]
    have pos: "0 < chunk_state_len (hs_chunk h)" unfolding clen(1) using 3(1) by simp
    have eq: "blake3_hasher_update K inp h = add_subtrees K (drop ?n inp) (finish_chunk K ?h1)"
      by (rule update_finish [OF pos 3(2)]) (simp only: clen(1))
    have full: "length (bs @ take ?n inp) = weight ks * 1024 + 1024" using ltn h(1) clen(2) by simp
    have "stack_rel key flags ks (bs @ take ?n inp) ?h1" using st up by (simp add: stack_rel_def stack_cvs_more)
    moreover have "weight ks < 2 ^ 64" using h(1) len by linarith
    moreover have "chunk_rel key (drop (weight ks * 1024) (bs @ take ?n inp)) (hs_chunk ?h1)" using up(1) h(1) by simp
    ultimately obtain ks' where ks': "stack_rel key flags ks' (bs @ take ?n inp) (finish_chunk K ?h1)"
        "weight ks' * 1024 = length (bs @ take ?n inp)" "fresh key (hs_chunk (finish_chunk K ?h1))"
      using finish_rel full by metis
    have "drop ?n inp \<noteq> []" "length (bs @ take ?n inp) + length (drop ?n inp) < 2 ^ 64" using 3(2) len by simp_all
    from add_subtrees_rel [OF ks' this(2,1)] show ?thesis unfolding eq by simp
  qed
qed

end

section \<open>Finalizing\<close>

lemma finalize_loop_append:
  "finalize_loop K key flags (xs @ ys) out = finalize_loop K key flags ys (finalize_loop K key flags xs out)"
  by (induction xs arbitrary: out) auto

context blake3_kernels
begin

text \<open>
  Subtrees of strictly decreasing heights, and behind them at least one byte but no more than the last of them
  has, are the left spine of the tree.
\<close>

lemma finalize_spine:
  assumes "strict ks" "length bs = weight ks * 1024 + r" "0 < r" "\<forall>x \<in> set ks. r \<le> 2 ^ x * 1024"
  shows "finalize_loop K key flags (rev (stack_cvs key flags c ks bs)) (ref_tree key flags (c + weight ks) (drop (weight ks * 1024) bs)) =
    ref_tree key flags c bs"
  using assms
proof (induction ks arbitrary: c bs)
  case (Cons k ks)
  let ?bs = "drop (2 ^ k * 1024) bs"
  have st: "strict ks" "\<forall>x \<in> set ks. x < k" using Cons.prems(1) by simp_all
  have rest: "length ?bs = weight ks * 1024 + r" using Cons.prems(2) by simp
  have "weight ks * 1024 + r \<le> 2 ^ k * 1024"
  proof (cases ks rule: rev_cases)
    case (snoc ys a)
    have "strict (ys @ [a])" "\<forall>x \<in> set ys. a < x" using st(1) snoc by (auto simp: sorted_wrt_append)
    then have "2 ^ Suc a dvd weight ys"
    proof -
      have "\<forall>x \<in> set zs. a < x \<Longrightarrow> 2 ^ Suc a dvd weight zs" for zs
        by (induction zs) (auto intro!: dvd_add le_imp_power_dvd simp del: power_Suc)
      then show ?thesis using \<open>\<forall>x \<in> set ys. a < x\<close> by blast
    qed
    then have "2 ^ a dvd weight ks" unfolding snoc by (simp add: dvd_mult_right)
    moreover have ak: "a < k" using st(2) snoc by simp
    then have "(2 :: nat) ^ a dvd 2 ^ k" by (intro le_imp_power_dvd) simp
    ultimately obtain u v where uv: "weight ks = 2 ^ a * u" "(2 :: nat) ^ k = 2 ^ a * v" by (metis dvd_def)
    have "weight ks < 2 ^ k" using weight_less st by simp
    then have "Suc u \<le> v" using uv by simp
    then have "weight ks + 2 ^ a \<le> 2 ^ k" using uv mult_le_mono2 [of "Suc u" v "2 ^ a"] by simp
    moreover have "r \<le> 2 ^ a * 1024" using Cons.prems(4) snoc by simp
    ultimately show ?thesis by linarith
  qed (use Cons.prems(4) in simp)
  then have "2 ^ k * 1024 < length bs" "length bs \<le> 2 ^ Suc k * 1024" using Cons.prems(2,3) by simp_all
  note sp = ref_tree_split [OF this, of key flags c]
  have "\<forall>x \<in> set ks. r \<le> 2 ^ x * 1024" using Cons.prems(4) by simp
  note ih = Cons.IH [OF st(1) rest Cons.prems(3) this, of "c + 2 ^ k"]
  have "finalize_loop K key flags (rev (stack_cvs key flags c (k # ks) bs))
      (ref_tree key flags (c + weight (k # ks)) (drop (weight (k # ks) * 1024) bs)) =
    finalize_loop K key flags [subtree_cv key flags k c bs] (ref_tree key flags (c + 2 ^ k) ?bs)"
    using ih by (simp add: finalize_loop_append algebra_simps)
  then show ?case by (simp add: sp output_chaining_value)
qed simp

lemma root_bytes_loop_zero: "root_bytes_loop K out c off 0 = []"
  by (subst root_bytes_loop.simps) simp

lemma finalize_rel:
  assumes rel: "hasher_rel key flags bs h"
  shows "blake3_hasher_finalize_seek K h seek n = output_root_bytes K (ref_tree key flags 0 bs) seek n"
proof (cases "n = 0")
  case True
  then show ?thesis by (simp add: blake3_hasher_finalize_seek_def output_root_bytes_def root_bytes_loop_zero)
next
  case n: False
  obtain ks where st: "stack_rel key flags ks bs h" and ch: "chunk_rel key (drop (weight ks * 1024) bs) (hs_chunk h)"
      and ord: "if length bs = weight ks * 1024 then ks = [] \<or> twins ks else strict ks"
    using rel by (auto simp: hasher_rel_def)
  let ?cur = "drop (weight ks * 1024) bs"
  have w: "weight ks * 1024 \<le> length bs" and key: "hs_key h = key" and fl: "cs_flags (hs_chunk h) = flags"
      and cnt: "cs_counter (hs_chunk h) = of_nat (weight ks)" and stack: "hs_stack h = stack_cvs key flags 0 ks bs"
    using st by (simp_all add: stack_rel_def)
  have clen: "chunk_state_len (hs_chunk h) = length ?cur" "length ?cur \<le> 1024" using ch by (simp_all add: chunk_rel_def)
  have out: "chunk_state_output (hs_chunk h) = ref_tree key flags (weight ks) ?cur"
    unfolding chunk_rel_output [OF ch] fl cnt using clen(2) by (subst ref_tree.simps) simp
  show ?thesis
  proof (cases "ks = []")
    case True
    then show ?thesis using n out by (simp add: blake3_hasher_finalize_seek_def stack)
  next
    case ks: False
    then have ne: "hs_stack h \<noteq> []" by (cases ks) (simp_all add: stack)
    show ?thesis
    proof (cases "?cur = []")
      case False
      then have s: "strict ks" using ord by (auto split: if_splits)
      have "\<forall>x \<in> set ks. length ?cur \<le> 2 ^ x * 1024"
        using clen(2) by (metis le_trans mult_1 mult_le_mono1 one_le_numeral one_le_power)
      then have "finalize_loop K key flags (rev (hs_stack h)) (chunk_state_output (hs_chunk h)) = ref_tree key flags 0 bs"
        using finalize_spine [OF s, of bs "length ?cur" key flags 0] w False by (simp add: stack out)
      then show ?thesis using n ne False key fl by (simp add: blake3_hasher_finalize_seek_def clen(1))
    next
      case True
      then have len: "length bs = weight ks * 1024" using w by simp
      then obtain ys a where ya: "ks = ys @ [a, a]" "strict (ys @ [a])"
        using ord ks by (auto simp: twins_def)
      let ?s = "hs_stack h" and ?r = "drop (weight ys * 1024) bs"
      have lr: "length ?r = 2 ^ Suc a * 1024" using len by (simp add: ya(1))
      have stk: "?s = stack_cvs key flags 0 ys bs @ [subtree_cv key flags a (weight ys) ?r,
          subtree_cv key flags a (weight ys + 2 ^ a) (drop (2 ^ a * 1024) ?r)]"
        by (simp add: stack ya(1) stack_cvs_append del: drop_drop)
      have pre: "take (length ?s - 2) ?s = stack_cvs key flags 0 ys bs"
        and top: "concat (drop (length ?s - 2) ?s) =
          subtree_cv key flags a (weight ys) ?r @ subtree_cv key flags a (weight ys + 2 ^ a) (drop (2 ^ a * 1024) ?r)"
        unfolding stk by (simp_all del: drop_drop)
      have "2 ^ a * 1024 < length ?r" "length ?r \<le> 2 ^ Suc a * 1024" unfolding lr by simp_all
      note sp = ref_tree_split [OF this, of key flags "weight ys"]
      have "subtree_cv key flags a (weight ys + 2 ^ a) (drop (2 ^ a * 1024) ?r) =
          ref_cv (ref_tree key flags (weight ys + 2 ^ a) (drop (2 ^ a * 1024) ?r))"
        using lr by (simp add: subtree_cv_def del: drop_drop)
      then have po: "parent_output (concat (drop (length ?s - 2) ?s)) key flags = ref_tree key flags (weight ys) ?r"
        unfolding top sp by simp
      have sy: "strict ys" "\<forall>x \<in> set ys. Suc a \<le> x" using ya(2) by (auto simp: sorted_wrt_append)
      have "\<forall>x \<in> set ys. 2 ^ Suc a * 1024 \<le> 2 ^ x * (1024 :: nat)"
        using sy(2) by (auto intro!: mult_le_mono1 power_increasing simp del: power_Suc)
      then have "finalize_loop K key flags (rev (stack_cvs key flags 0 ys bs)) (ref_tree key flags (weight ys) ?r) = ref_tree key flags 0 bs"
        using finalize_spine [OF sy(1), of bs "2 ^ Suc a * 1024" key flags 0] len by (simp add: ya(1))
      then show ?thesis
        using n ne True key fl by (simp add: blake3_hasher_finalize_seek_def Let_def clen(1) pre po)
    qed
  qed
qed

text \<open>Any way of cutting the message into updates gives the root of the tree over the whole message.\<close>

lemma updates_rel:
  "hasher_rel key flags bs h \<Longrightarrow> length bs + length (concat parts) < 2 ^ 64 \<Longrightarrow>
     hasher_rel key flags (bs @ concat parts) (fold (blake3_hasher_update K) parts h)"
proof (induction parts arbitrary: bs h)
  case (Cons p parts)
  have "hasher_rel key flags (bs @ p) (blake3_hasher_update K p h)"
    using update_rel [OF Cons.prems(1)] Cons.prems(2) by simp
  from Cons.IH [OF this] show ?case using Cons.prems(2) by simp
qed simp

lemma hasher_refines_tree:
  assumes "length (concat parts) < 2 ^ 64"
  shows "blake3_hasher_finalize_seek K (fold (blake3_hasher_update K) parts (hasher_init_base key flags)) seek n =
    output_root_bytes K (ref_tree key flags 0 (concat parts)) seek n"
  using updates_rel [OF hasher_init_rel, of parts key flags] assms by (simp add: finalize_rel)

end

end
