(* ===== verification/Blake3_Dispatch.thy ===== *)
theory Blake3_Dispatch
  imports Blake3_Hasher
begin

text \<open>
  The choice of kernels in external/blake3/blake3_dispatch.c, as the Makefile builds it: 64-bit x86, gcc, none
  of the \<open>BLAKE3_NO_\<dots>\<close> macros. The instructions cpuid and xgetbv are the record \<open>cpu\<close>, the vector kernels
  the record \<open>simd\<close>; \<open>enum cpu_feature\<close> is a 32-bit word, and the static variable that caches it is passed on.
\<close>

section \<open>Features\<close>

definition SSE2 :: u32 where "SSE2 = push_bit 0 1"
definition SSSE3 :: u32 where "SSSE3 = push_bit 1 1"
definition SSE41 :: u32 where "SSE41 = push_bit 2 1"
definition AVX :: u32 where "AVX = push_bit 3 1"
definition AVX2 :: u32 where "AVX2 = push_bit 4 1"
definition AVX512F :: u32 where "AVX512F = push_bit 5 1"
definition AVX512VL :: u32 where "AVX512VL = push_bit 6 1"
definition UNDEFINED_FEATURES :: u32 where "UNDEFINED_FEATURES = push_bit 30 1"

record regs =
  eax :: u32
  ebx :: u32
  ecx :: u32
  edx :: u32

text \<open>What the processor answers; \<open>xgetbv_regs\<close> are the \<open>edx\<close> and \<open>eax\<close> that xgetbv leaves.\<close>

record cpu =
  cpuid :: "u32 \<Rightarrow> regs"
  cpuidex :: "u32 \<Rightarrow> u32 \<Rightarrow> regs"
  xgetbv_regs :: "u32 \<times> u32"

definition xgetbv :: "cpu \<Rightarrow> u64" where
  "xgetbv C = push_bit 32 (ucast (fst (xgetbv_regs C))) OR ucast (snd (xgetbv_regs C))"

definition detect_features :: "cpu \<Rightarrow> u32" where
  "detect_features C =
     (let features = 0;
          r = cpuid C 0;
          max_id = sint (eax r);
          r = cpuid C 1;
          features = features OR SSE2;
          features = (if ecx r AND push_bit 9 1 \<noteq> 0 then features OR SSSE3 else features);
          features = (if ecx r AND push_bit 19 1 \<noteq> 0 then features OR SSE41 else features)
      in if ecx r AND push_bit 27 1 \<noteq> 0
         then let mask = xgetbv C
              in if mask AND 6 = 6
                 then let features = (if ecx r AND push_bit 28 1 \<noteq> 0 then features OR AVX else features)
                      in if max_id \<ge> 7
                         then let r = cpuidex C 7 0;
                                  features = (if ebx r AND push_bit 5 1 \<noteq> 0 then features OR AVX2 else features)
                              in if mask AND 224 = 224
                                 then let features = (if ebx r AND push_bit 31 1 \<noteq> 0 then features OR AVX512VL else features)
                                      in (if ebx r AND push_bit 16 1 \<noteq> 0 then features OR AVX512F else features)
                                 else features
                         else features
                 else features
         else features)"

text \<open>The result, and the new value of \<open>g_cpu_features\<close>.\<close>

definition get_cpu_features :: "cpu \<Rightarrow> u32 \<Rightarrow> u32 \<times> u32" where
  "get_cpu_features C g_cpu_features =
     (let features = g_cpu_features
      in if features \<noteq> UNDEFINED_FEATURES then (features, g_cpu_features)
         else let features = detect_features C in (features, features))"

section \<open>Kernels\<close>

record simd =
  compress_in_place_avx512 :: "u32 list \<Rightarrow> byte list \<Rightarrow> nat \<Rightarrow> u64 \<Rightarrow> byte \<Rightarrow> u32 list"
  compress_in_place_sse41 :: "u32 list \<Rightarrow> byte list \<Rightarrow> nat \<Rightarrow> u64 \<Rightarrow> byte \<Rightarrow> u32 list"
  compress_in_place_sse2 :: "u32 list \<Rightarrow> byte list \<Rightarrow> nat \<Rightarrow> u64 \<Rightarrow> byte \<Rightarrow> u32 list"
  compress_xof_avx512 :: "u32 list \<Rightarrow> byte list \<Rightarrow> nat \<Rightarrow> u64 \<Rightarrow> byte \<Rightarrow> byte list"
  compress_xof_sse41 :: "u32 list \<Rightarrow> byte list \<Rightarrow> nat \<Rightarrow> u64 \<Rightarrow> byte \<Rightarrow> byte list"
  compress_xof_sse2 :: "u32 list \<Rightarrow> byte list \<Rightarrow> nat \<Rightarrow> u64 \<Rightarrow> byte \<Rightarrow> byte list"
  hash_many_avx512 :: "byte list list \<Rightarrow> nat \<Rightarrow> u32 list \<Rightarrow> u64 \<Rightarrow> bool \<Rightarrow> byte \<Rightarrow> byte \<Rightarrow> byte \<Rightarrow> byte list"
  hash_many_avx2 :: "byte list list \<Rightarrow> nat \<Rightarrow> u32 list \<Rightarrow> u64 \<Rightarrow> bool \<Rightarrow> byte \<Rightarrow> byte \<Rightarrow> byte \<Rightarrow> byte list"
  hash_many_sse41 :: "byte list list \<Rightarrow> nat \<Rightarrow> u32 list \<Rightarrow> u64 \<Rightarrow> bool \<Rightarrow> byte \<Rightarrow> byte \<Rightarrow> byte \<Rightarrow> byte list"
  hash_many_sse2 :: "byte list list \<Rightarrow> nat \<Rightarrow> u32 list \<Rightarrow> u64 \<Rightarrow> bool \<Rightarrow> byte \<Rightarrow> byte \<Rightarrow> byte \<Rightarrow> byte list"

definition blake3_compress_in_place :: "simd \<Rightarrow> u32 \<Rightarrow> u32 list \<Rightarrow> byte list \<Rightarrow> nat \<Rightarrow> u64 \<Rightarrow> byte \<Rightarrow> u32 list" where
  "blake3_compress_in_place S features cv block block_len counter flags =
     (if features AND AVX512VL \<noteq> 0 then compress_in_place_avx512 S cv block block_len counter flags
      else if features AND SSE41 \<noteq> 0 then compress_in_place_sse41 S cv block block_len counter flags
      else if features AND SSE2 \<noteq> 0 then compress_in_place_sse2 S cv block block_len counter flags
      else blake3_compress_in_place_portable cv block block_len counter flags)"

definition blake3_compress_xof :: "simd \<Rightarrow> u32 \<Rightarrow> u32 list \<Rightarrow> byte list \<Rightarrow> nat \<Rightarrow> u64 \<Rightarrow> byte \<Rightarrow> byte list" where
  "blake3_compress_xof S features cv block block_len counter flags =
     (if features AND AVX512VL \<noteq> 0 then compress_xof_avx512 S cv block block_len counter flags
      else if features AND SSE41 \<noteq> 0 then compress_xof_sse41 S cv block block_len counter flags
      else if features AND SSE2 \<noteq> 0 then compress_xof_sse2 S cv block block_len counter flags
      else blake3_compress_xof_portable cv block block_len counter flags)"

definition blake3_hash_many ::
  "simd \<Rightarrow> u32 \<Rightarrow> byte list list \<Rightarrow> nat \<Rightarrow> u32 list \<Rightarrow> u64 \<Rightarrow> bool \<Rightarrow> byte \<Rightarrow> byte \<Rightarrow> byte \<Rightarrow> byte list" where
  "blake3_hash_many S features inputs blocks key counter increment_counter flags flags_start flags_end =
     (if features AND (AVX512F OR AVX512VL) = AVX512F OR AVX512VL
      then hash_many_avx512 S inputs blocks key counter increment_counter flags flags_start flags_end
      else if features AND AVX2 \<noteq> 0
      then hash_many_avx2 S inputs blocks key counter increment_counter flags flags_start flags_end
      else if features AND SSE41 \<noteq> 0
      then hash_many_sse41 S inputs blocks key counter increment_counter flags flags_start flags_end
      else if features AND SSE2 \<noteq> 0
      then hash_many_sse2 S inputs blocks key counter increment_counter flags flags_start flags_end
      else blake3_hash_many_portable inputs blocks key counter increment_counter flags flags_start flags_end)"

definition blake3_simd_degree :: "u32 \<Rightarrow> nat" where
  "blake3_simd_degree features =
     (if features AND (AVX512F OR AVX512VL) = AVX512F OR AVX512VL then 16
      else if features AND AVX2 \<noteq> 0 then 8
      else if features AND SSE41 \<noteq> 0 then 4
      else if features AND SSE2 \<noteq> 0 then 4
      else 1)"

definition dispatch :: "simd \<Rightarrow> u32 \<Rightarrow> kernels" where
  "dispatch S features =
     \<lparr>k_compress_in_place = blake3_compress_in_place S features, k_compress_xof = blake3_compress_xof S features,
      k_hash_many = blake3_hash_many S features, k_simd_degree = blake3_simd_degree features\<rparr>"

section \<open>The contract of the vector kernels\<close>

text \<open>Every vector kernel computes what the portable one does; then so does every choice among them.\<close>

locale simd_kernels =
  fixes S :: simd and features :: u32
  assumes in_place: "compress_in_place_avx512 S = blake3_compress_in_place_portable"
      "compress_in_place_sse41 S = blake3_compress_in_place_portable" "compress_in_place_sse2 S = blake3_compress_in_place_portable"
    and xof: "compress_xof_avx512 S = blake3_compress_xof_portable"
      "compress_xof_sse41 S = blake3_compress_xof_portable" "compress_xof_sse2 S = blake3_compress_xof_portable"
    and many: "hash_many_avx512 S = blake3_hash_many_portable" "hash_many_avx2 S = blake3_hash_many_portable"
      "hash_many_sse41 S = blake3_hash_many_portable" "hash_many_sse2 S = blake3_hash_many_portable"

sublocale simd_kernels \<subseteq> blake3_kernels "dispatch S features"
proof unfold_locales
  show "\<exists>j\<le>4. simd_degree (dispatch S features) = 2 ^ j"
  proof -
    have "simd_degree (dispatch S features) \<in> {2 ^ 0, 2 ^ 2, 2 ^ 3, 2 ^ 4}"
      by (auto simp: simd_degree_def dispatch_def blake3_simd_degree_def)
    then show ?thesis by (auto intro: exI [of _ 0] exI [of _ 2] exI [of _ 3] exI [of _ 4])
  qed
qed (auto simp: dispatch_def fun_eq_iff blake3_compress_in_place_def blake3_compress_xof_def blake3_hash_many_def in_place xof many)

context simd_kernels
begin

lemma dispatch_kernels: "blake3_kernels (dispatch S features)"
  by unfold_locales

end

section \<open>Detection\<close>

lemmas feature_defs = SSE2_def SSSE3_def SSE41_def AVX_def AVX2_def AVX512F_def AVX512VL_def UNDEFINED_FEATURES_def

lemma and_push_bit_one: "(w AND push_bit n 1 \<noteq> 0) = bit w n" if "n < LENGTH('a)" for w :: "'a::len word"
  using that by (simp add: push_bit_eq_mult and_exp_eq_0_iff_not_bit)

text \<open>What has to hold for the vector registers to be usable.\<close>

definition os_saves_avx :: "cpu \<Rightarrow> bool" where
  "os_saves_avx C \<longleftrightarrow> bit (ecx (cpuid C 1)) 27 \<and> xgetbv C AND 6 = 6"

definition leaf7 :: "cpu \<Rightarrow> bool" where
  "leaf7 C \<longleftrightarrow> 7 \<le> sint (eax (cpuid C 0))"

definition os_saves_avx512 :: "cpu \<Rightarrow> bool" where
  "os_saves_avx512 C \<longleftrightarrow> os_saves_avx C \<and> xgetbv C AND 224 = 224"

text \<open>Setting a feature under a condition.\<close>

definition set_if :: "bool \<Rightarrow> u32 \<Rightarrow> nat \<Rightarrow> u32" where
  "set_if c w k = (if c then w OR push_bit k 1 else w)"

lemma bit_set_if: "k < 32 \<Longrightarrow> bit (set_if c w k) i \<longleftrightarrow> bit w i \<or> c \<and> i = k"
  by (auto simp: set_if_def bit_simps)

lemma bit_if: "bit (if c then x else y) i \<longleftrightarrow> (if c then bit x i else bit y i)"
  by simp

lemma detected_bits:
  "bit (detect_features C) i \<longleftrightarrow>
     i = 0 \<or> i = 1 \<and> bit (ecx (cpuid C 1)) 9 \<or> i = 2 \<and> bit (ecx (cpuid C 1)) 19 \<or>
     i = 3 \<and> os_saves_avx C \<and> bit (ecx (cpuid C 1)) 28 \<or>
     i = 4 \<and> os_saves_avx C \<and> leaf7 C \<and> bit (ebx (cpuidex C 7 0)) 5 \<or>
     i = 5 \<and> os_saves_avx512 C \<and> leaf7 C \<and> bit (ebx (cpuidex C 7 0)) 16 \<or>
     i = 6 \<and> os_saves_avx512 C \<and> leaf7 C \<and> bit (ebx (cpuidex C 7 0)) 31"
proof -
  have one: "bit (0 OR push_bit 0 1 :: u32) i \<longleftrightarrow> i = 0" by (simp add: bit_1_iff)
  have w: "(w AND push_bit n 1 \<noteq> 0) = bit w n" if "n < 32" for w :: u32 and n
    by (rule and_push_bit_one) (use that in simp)
  define m a b l where "m = xgetbv C" and "a = ecx (cpuid C 1)" and "b = ebx (cpuidex C 7 0)" and "l = sint (eax (cpuid C 0))"
  have lt: "(1 :: nat) < 32" "(2 :: nat) < 32" "(3 :: nat) < 32" "(4 :: nat) < 32" "(5 :: nat) < 32" "(6 :: nat) < 32"
    "(9 :: nat) < 32" "(16 :: nat) < 32" "(19 :: nat) < 32" "(27 :: nat) < 32" "(28 :: nat) < 32" "(31 :: nat) < 32" by simp_all
  have eq: "detect_features C =
    (let features = set_if (bit a 19) (set_if (bit a 9) (0 OR push_bit 0 1) 1) 2;
         f3 = set_if (bit a 28) features 3; f4 = set_if (bit b 5) f3 4; f6 = set_if (bit b 31) f4 6
     in if bit a 27 then if m AND 6 = 6 then if 7 \<le> l then if m AND 224 = 224 then set_if (bit b 16) f6 5 else f4 else f3 else features
        else features)"
    unfolding detect_features_def feature_defs set_if_def Let_def m_def a_def b_def l_def
    by (simp only: w lt)
  show ?thesis
    unfolding eq os_saves_avx512_def os_saves_avx_def leaf7_def m_def [symmetric] a_def [symmetric] b_def [symmetric] l_def [symmetric]
    by (simp only: Let_def bit_if bit_set_if lt one) argo
qed

end
