(* ===== verification/Blake3_Output.thy ===== *)
theory Blake3_Output
  imports Blake3_Dispatch
begin

text \<open>
  The output of the BLAKE3 hasher and the bounds of its state, and the portable bit counting of blake3_impl.h.
\<close>

section \<open>The output stream\<close>

lemma length_xof_portable [simp]: "length (blake3_compress_xof_portable cv block block_len counter flags) = 64"
  by (simp add: blake3_compress_xof_portable_def Let_def)

lemma block_number_step: "c + 1 + of_nat (r div 64) = (c + of_nat ((64 + r) div 64) :: u64)" for r :: nat
  by (simp add: div_add_self1 add.assoc)

context blake3_kernels
begin

lemma root_bytes_step:
  assumes "0 < n" "off < 64"
  shows "root_bytes_loop K out c off n =
    take (min n (64 - off)) (drop off (blake3_compress_xof_portable (out_cv out) (out_block out) (out_block_len out) c (out_flags out OR ROOT))) @
    root_bytes_loop K out (c + 1) 0 (n - min n (64 - off))"
  using assms by (subst root_bytes_loop.simps) (simp add: Let_def compress_xof min_def)

lemma length_root_bytes: "off < 64 \<Longrightarrow> length (root_bytes_loop K out c off n) = n"
proof (induction n arbitrary: c off rule: less_induct)
  case (less n)
  show ?case
  proof (cases "n = 0")
    case True
    then show ?thesis by (simp add: root_bytes_loop_zero)
  next
    case False
    then have "n - min n (64 - off) < n" using less.prems by simp
    from less.IH [OF this, of 0] show ?thesis
      using False less.prems by (simp add: root_bytes_step)
  qed
qed

text \<open>Dropping from the stream is starting later.\<close>

lemma drop_root_bytes:
  assumes "off < 64" "0 < n"
  shows "drop m (root_bytes_loop K out c off (m + n)) = root_bytes_loop K out (c + of_nat ((off + m) div 64)) ((off + m) mod 64) n"
  using assms(1)
proof (induction m arbitrary: c off rule: less_induct)
  case (less m)
  let ?w = "blake3_compress_xof_portable (out_cv out) (out_block out) (out_block_len out) c (out_flags out OR ROOT)"
  show ?case
  proof (cases "m < 64 - off")
    case True
    have "drop m (take (min (m + n) (64 - off)) (drop off ?w)) = take (min n (64 - (off + m))) (drop (off + m) ?w)"
      using True by (simp add: drop_take add.commute min_def)
    moreover have "m + n - min (m + n) (64 - off) = n - min n (64 - (off + m))"
      using True by (simp add: min_def) arith
    moreover have "m \<le> length (take (min (m + n) (64 - off)) (drop off ?w))" using True by simp
    ultimately show ?thesis
      using True less.prems assms(2) root_bytes_step [of "m + n" off out c] root_bytes_step [of n "off + m" out c] by simp
  next
    case False
    let ?r = "m - (64 - off)"
    have r: "off + m = 64 + ?r" "min (m + n) (64 - off) = 64 - off" "m + n - (64 - off) = ?r + n" "?r < m"
      using False less.prems by simp_all
    have "drop m (root_bytes_loop K out c off (m + n)) = drop ?r (root_bytes_loop K out (c + 1) 0 (?r + n))"
      using root_bytes_step [of "m + n" off out c] less.prems assms(2) False by (simp add: r(2,3))
    also have "\<dots> = root_bytes_loop K out (c + 1 + of_nat (?r div 64)) (?r mod 64) n"
      using less.IH [OF r(4), of 0 "c + 1"] by simp
    also have "c + 1 + of_nat (?r div 64) = c + of_nat ((off + m) div 64)" unfolding r(1) by (rule block_number_step)
    also have "?r mod 64 = (off + m) mod 64" unfolding r(1) by simp
    finally show ?thesis .
  qed
qed

lemma seek_split: "seek div 64 = (of_nat (unat seek div 64) :: u64)" "unat (seek mod 64 :: u64) = unat seek mod 64"
proof -
  show "unat (seek mod 64 :: u64) = unat seek mod 64" by (simp add: unat_mod_distrib)
  have "unat (seek div 64) = unat seek div 64" by (simp add: unat_div_distrib)
  then show "seek div 64 = (of_nat (unat seek div 64) :: u64)" by (metis of_nat_unat ucast_id)
qed

lemma output_root_bytes_drop:
  assumes "unat seek + m < 2 ^ 64" "0 < n"
  shows "drop m (output_root_bytes K out seek (m + n)) = output_root_bytes K out (seek + of_nat m) n"
proof -
  have m: "unat (of_nat m :: u64) = m" using assms(1) by (intro unat_of_nat_u64) simp
  have u: "unat (seek + of_nat m) = unat seek + m" using assms(1) by (simp add: unat_add_lem [THEN iffD1] m)
  have div: "unat seek div 64 + (unat seek mod 64 + m) div 64 = (unat seek + m) div 64"
  proof -
    have "unat seek + m = unat seek div 64 * 64 + (unat seek mod 64 + m)" by simp
    then show ?thesis using div_mult_self3 [of 64 "unat seek div 64" "unat seek mod 64 + m"] by simp
  qed
  have "of_nat (unat seek div 64) + of_nat ((unat seek mod 64 + m) div 64) = (of_nat ((unat seek + m) div 64) :: u64)"
    unfolding div [symmetric] by simp
  then show ?thesis
    unfolding output_root_bytes_def seek_split u using assms(2) by (simp add: drop_root_bytes mod_add_left_eq)
qed

lemma length_finalize_seek: "length (blake3_hasher_finalize_seek K h seek n) = n"
proof -
  have "unat (seek mod 64) < 64" by (simp add: seek_split)
  then show ?thesis
    by (simp add: blake3_hasher_finalize_seek_def output_root_bytes_def length_root_bytes Let_def)
qed

lemma finalize_seek_drop:
  assumes "unat seek + m < 2 ^ 64"
  shows "drop m (blake3_hasher_finalize_seek K h seek (m + n)) = blake3_hasher_finalize_seek K h (seek + of_nat m) n"
proof (cases "n = 0")
  case True
  then show ?thesis
    using length_finalize_seek [of h seek m] length_finalize_seek [of h "seek + of_nat m" 0] by simp
next
  case False
  have "\<exists>out. \<forall>s k. k \<noteq> 0 \<longrightarrow> blake3_hasher_finalize_seek K h s k = output_root_bytes K out s k"
    unfolding blake3_hasher_finalize_seek_def by (cases "hs_stack h = []") (auto simp: Let_def)
  then obtain out where "\<And>s k. k \<noteq> 0 \<Longrightarrow> blake3_hasher_finalize_seek K h s k = output_root_bytes K out s k" by metis
  then show ?thesis using False assms by (simp add: output_root_bytes_drop)
qed

end

section \<open>The bounds of the state\<close>

lemma strict_length: "strict ks \<Longrightarrow> \<forall>x \<in> set ks. x < n \<Longrightarrow> length ks \<le> n"
proof -
  assume s: "strict ks" "\<forall>x \<in> set ks. x < n"
  have "distinct ks" using s(1) by (induction ks) auto
  then have "length ks = card (set ks)" by (simp add: distinct_card)
  also have "\<dots> \<le> card {..<n}" using s(2) by (intro card_mono) auto
  finally show ?thesis by simp
qed

lemma weight_member: "x \<in> set ks \<Longrightarrow> 2 ^ x \<le> weight ks"
  by (induction ks) auto

lemma lazy_length: "lazy ks \<Longrightarrow> weight ks < 2 ^ 54 \<Longrightarrow> length ks \<le> 55"
proof -
  assume l: "lazy ks" "weight ks < 2 ^ 54"
  have small: "\<forall>x \<in> set ks. x < 54"
  proof
    fix x assume "x \<in> set ks"
    then have "(2 :: nat) ^ x < 2 ^ 54" using weight_member l(2) by (meson le_less_trans)
    then show "x < 54" by (simp only: power_strict_increasing_iff)
  qed
  show ?thesis
  proof (cases "strict ks")
    case True
    then show ?thesis using strict_length [OF _ small] by fastforce
  next
    case False
    then obtain ys a where ks: "ks = ys @ [a, a]" "strict (ys @ [a])" using l(1) by (auto simp: lazy_def twins_def)
    then have "length (ys @ [a]) \<le> 54" using small by (intro strict_length) auto
    then show ?thesis by (simp add: ks(1))
  qed
qed

lemma all_stack_cvs: "\<forall>v \<in> set (stack_cvs key flags c ks bs). length v = 32"
  by (induction ks arbitrary: c bs) auto

text \<open>What the arrays and bytes of the C structures hold.\<close>

definition hasher_fits :: "hasher \<Rightarrow> bool" where
  "hasher_fits h \<longleftrightarrow>
     length (hs_stack h) \<le> BLAKE3_MAX_DEPTH + 1 \<and> (\<forall>cv \<in> set (hs_stack h). length cv = BLAKE3_OUT_LEN) \<and>
     length (cs_buf (hs_chunk h)) = BLAKE3_BLOCK_LEN \<and> cs_buf_len (hs_chunk h) \<le> BLAKE3_BLOCK_LEN \<and>
     cs_blocks (hs_chunk h) \<le> 16 \<and> chunk_state_len (hs_chunk h) \<le> BLAKE3_CHUNK_LEN"

lemma hasher_rel_fits:
  assumes "hasher_rel key flags bs h" "length bs < 2 ^ 64"
  shows "hasher_fits h"
proof -
  obtain ks where st: "stack_rel key flags ks bs h" and ch: "chunk_rel key (drop (weight ks * 1024) bs) (hs_chunk h)"
    using assms(1) by (auto simp: hasher_rel_def)
  note h = stack_relD [OF st]
  have "weight ks < 2 ^ 54" using h(1) assms(2) by simp
  then have "length ks \<le> 55" using lazy_length h(6) by blast
  moreover have "buf_ok (hs_chunk h)" "chunk_state_len (hs_chunk h) \<le> 1024" using ch by (auto simp: chunk_rel_def chunk_ok_def)
  moreover from this have "cs_blocks (hs_chunk h) \<le> 16" by (simp add: chunk_state_len_def BLAKE3_BLOCK_LEN_def)
  ultimately show ?thesis
    using all_stack_cvs [of key flags 0 ks bs]
    by (simp add: hasher_fits_def h(5) BLAKE3_MAX_DEPTH_def blake3_lengths buf_ok_def)
qed

lemma reset_rel: "hasher_rel key flags bs h \<Longrightarrow> hasher_rel key flags [] (blake3_hasher_reset h)"
proof -
  assume "hasher_rel key flags bs h"
  then have h: "hs_key h = key" "cs_flags (hs_chunk h) = flags" by (auto simp: hasher_rel_def stack_rel_def)
  have "fresh key (chunk_state_reset key 0 (hs_chunk h))"
    by (simp add: fresh_def chunk_state_reset_def drained_def BLAKE3_BLOCK_LEN_def)
  then show ?thesis
    unfolding hasher_rel_def stack_rel_def
    by (intro exI [of _ "[]"]) (simp add: fresh_chunk_rel blake3_hasher_reset_def h lazy_def, simp add: chunk_state_reset_def h)
qed

section \<open>Counting bits without compiler support\<close>

function popcnt_loop :: "u64 \<Rightarrow> nat \<Rightarrow> nat" where
  "popcnt_loop x n = (if x \<noteq> 0 then popcnt_loop (x AND (x - 1)) (n + 1) else n)"
  by pat_completeness auto
termination
proof (relation "measure (\<lambda>(x, _). unat x)", goal_cases)
  case (2 x n)
  have "unat (x AND (x - 1)) \<le> unat (x - 1)" using word_and_le1 by (simp add: word_le_nat_alt)
  moreover have "unat (x - 1) < unat x" using 2 by (simp add: unat_minus_one unat_gt_0)
  ultimately show ?case by simp
qed simp

declare popcnt_loop.simps [simp del]

text \<open>The binary search for the highest bit: one step shifts by \<open>k\<close> when a bit of the mask is set.\<close>

definition highest_step :: "u64 \<Rightarrow> nat \<Rightarrow> u64 \<times> nat \<Rightarrow> u64 \<times> nat" where
  "highest_step m k xc = (case xc of (x, c) \<Rightarrow> if x AND m \<noteq> 0 then (drop_bit k x, c + k) else (x, c))"

definition highest_one_loop :: "u64 \<Rightarrow> nat" where
  "highest_one_loop x =
     (let xc = highest_step 0xffffffff00000000 32 (x, 0);
          xc = highest_step 0x00000000ffff0000 16 xc;
          xc = highest_step 0x000000000000ff00 8 xc;
          xc = highest_step 0x00000000000000f0 4 xc;
          xc = highest_step 0x000000000000000c 2 xc;
          (x, c) = xc
      in if x AND 0x0000000000000002 \<noteq> 0 then c + 1 else c)"

lemma and_pred_even: "m \<noteq> 0 \<Longrightarrow> (2 * m) AND (2 * m - 1) = 2 * (m AND (m - 1))" for m :: nat
proof -
  assume "m \<noteq> 0"
  then have "2 * m - 1 = Suc (2 * (m - 1))" by simp
  then show ?thesis by (simp add: and_nat_rec [of "2 * m"])
qed

lemma and_pred_odd: "(2 * m + 1) AND (2 * m) = 2 * m" for m :: nat
  by (simp add: and_nat_rec [of "Suc (2 * m)"])

lemma popcnt_and_pred: "n \<noteq> 0 \<Longrightarrow> popcnt n = Suc (popcnt (n AND (n - 1)))"
proof (induction n rule: less_induct)
  case (less n)
  show ?case
  proof (cases "even n")
    case True
    then obtain m where m: "n = 2 * m" "m \<noteq> 0" "m < n" using less.prems by (auto elim: evenE)
    have "popcnt n = popcnt m" using m(1) popcnt_rec [of n] by simp
    moreover have "popcnt (2 * (m AND (m - 1))) = popcnt (m AND (m - 1))" by (subst popcnt_rec) simp
    ultimately show ?thesis using less.IH [OF m(3,2)] and_pred_even [OF m(2)] m(1) by simp
  next
    case False
    then obtain m where m: "n = 2 * m + 1" by (auto elim: oddE)
    then show ?thesis using popcnt_rec [of n] popcnt_rec [of "2 * m"] and_pred_odd [of m] by simp
  qed
qed

lemma popcnt_loop_popcnt: "popcnt_loop x n = n + popcnt (unat x)"
proof (induction x n rule: popcnt_loop.induct)
  case (1 x n)
  show ?case
  proof (cases "x = 0")
    case True
    then show ?thesis by (simp add: popcnt_loop.simps popcnt.simps [of 0])
  next
    case False
    then have "unat (x AND (x - 1)) = unat x AND (unat x - 1)" "unat x \<noteq> 0"
      by (simp_all add: unsigned_and_eq unat_minus_one unat_eq_0)
    then show ?thesis using 1 False popcnt_and_pred [of "unat x"] by (subst popcnt_loop.simps) simp
  qed
qed

lemma highest_one_shift: "2 ^ k \<le> n \<Longrightarrow> highest_one n = highest_one (n div 2 ^ k) + k"
proof (induction k arbitrary: n)
  case (Suc k)
  then have "2 ^ k \<le> n div 2" by (simp add: less_eq_div_iff_mult_less_eq mult.commute)
  moreover have "2 \<le> n" using Suc.prems one_le_power [of "2 :: nat" k] unfolding power_Suc by linarith
  ultimately show ?case
    using Suc.IH [of "n div 2"] by (subst highest_one.simps) (simp add: div_mult2_eq)
qed simp

lemma and_upper_half: "n < 2 ^ (2 * k) \<Longrightarrow> n AND push_bit k (mask k) \<noteq> 0 \<longleftrightarrow> 2 ^ k \<le> n" for n :: nat
proof -
  assume n: "n < 2 ^ (2 * k)"
  have "n AND push_bit k (mask k) = push_bit k (take_bit k (drop_bit k n))"
    by (rule bit_eqI) (auto simp: bit_simps)
  also have "take_bit k (drop_bit k n) = drop_bit k n"
    using n by (simp add: take_bit_nat_eq_self_iff drop_bit_eq_div less_mult_imp_div_less power_add mult_2)
  finally have "n AND push_bit k (mask k) = 2 ^ k * (n div 2 ^ k)" by (simp add: push_bit_eq_mult drop_bit_eq_div mult.commute)
  then show ?thesis by (simp add: div_greater_zero_iff)
qed

lemma highest_step:
  assumes "unat x < 2 ^ (2 * k)" "x \<noteq> 0" "unat m = push_bit k (mask k)" "highest_step m k (x, c) = (x', c')"
  shows "unat x' < 2 ^ k" "x' \<noteq> 0" "c' + highest_one (unat x') = c + highest_one (unat x)"
proof -
  have "unat (x AND m) = unat x AND push_bit k (mask k)" by (simp add: unsigned_and_eq assms(3))
  then have guard: "x AND m \<noteq> 0 \<longleftrightarrow> 2 ^ k \<le> unat x"
    using and_upper_half [OF assms(1)] by (metis unat_eq_0)
  have drop: "unat (drop_bit k x) = unat x div 2 ^ k" by (simp only: unat_drop_bit_eq) (simp add: drop_bit_eq_div)
  have "unat x' < 2 ^ k \<and> unat x' \<noteq> 0 \<and> c' + highest_one (unat x') = c + highest_one (unat x)"
  proof (cases "2 ^ k \<le> unat x")
    case True
    then have "x' = drop_bit k x" "c' = c + k" using assms(4) guard by (simp_all add: highest_step_def)
    then show ?thesis
      using True assms(1) highest_one_shift [OF True] drop
      by (simp add: less_mult_imp_div_less power_add mult_2 div_eq_0_iff)
  next
    case False
    then show ?thesis using assms(2,4) guard by (auto simp: highest_step_def unat_eq_0)
  qed
  then show "unat x' < 2 ^ k" "x' \<noteq> 0" "c' + highest_one (unat x') = c + highest_one (unat x)" by (auto simp: unat_eq_0)
qed

lemma highest_last: "unat x < 4 \<Longrightarrow> x \<noteq> 0 \<Longrightarrow> (if x AND 2 \<noteq> 0 then c + 1 else c) = c + highest_one (unat x)" for x :: u64
proof -
  assume x: "unat x < 4" "x \<noteq> 0"
  then have "unat x \<noteq> 0" by (simp add: unat_eq_0)
  then have "unat x = 1 \<or> unat x = 2 \<or> unat x = 3" using x(1) by linarith
  moreover have "unat (x AND 2) = unat x AND 2" by (simp add: unsigned_and_eq)
  moreover have "highest_one (Suc 0) = 0" "highest_one 2 = 1" "highest_one 3 = 1"
    by (simp_all add: highest_one.simps)
  ultimately show ?thesis by (auto simp flip: unat_eq_0)
qed

lemma highest_one_loop_eq:
  assumes "x \<noteq> 0"
  shows "highest_one_loop x = highest_one (unat x)"
proof -
  obtain x1 c1 where s1: "highest_step 0xffffffff00000000 32 (x, 0) = (x1, c1)" by fastforce
  obtain x2 c2 where s2: "highest_step 0x00000000ffff0000 16 (x1, c1) = (x2, c2)" by fastforce
  obtain x3 c3 where s3: "highest_step 0x000000000000ff00 8 (x2, c2) = (x3, c3)" by fastforce
  obtain x4 c4 where s4: "highest_step 0x00000000000000f0 4 (x3, c3) = (x4, c4)" by fastforce
  obtain x5 c5 where s5: "highest_step 0x000000000000000c 2 (x4, c4) = (x5, c5)" by fastforce
  have "unat x < 2 ^ (2 * 32)" using unsigned_less [of x] by simp
  note t1 = highest_step [OF this assms _ s1, unfolded push_bit_eq_mult mask_eq_exp_minus_1, simplified]
  have "unat x1 < 2 ^ (2 * 16)" using t1 by simp
  note t2 = highest_step [OF this t1(2) _ s2, unfolded push_bit_eq_mult mask_eq_exp_minus_1, simplified]
  have "unat x2 < 2 ^ (2 * 8)" using t2 by simp
  note t3 = highest_step [OF this t2(2) _ s3, unfolded push_bit_eq_mult mask_eq_exp_minus_1, simplified]
  have "unat x3 < 2 ^ (2 * 4)" using t3 by simp
  note t4 = highest_step [OF this t3(2) _ s4, unfolded push_bit_eq_mult mask_eq_exp_minus_1, simplified]
  have "unat x4 < 2 ^ (2 * 2)" using t4 by simp
  note t5 = highest_step [OF this t4(2) _ s5, unfolded push_bit_eq_mult mask_eq_exp_minus_1, simplified]
  have "highest_one_loop x = (if x5 AND 2 \<noteq> 0 then c5 + 1 else c5)"
    by (simp only: highest_one_loop_def Let_def s1 s2 s3 s4 s5 split_conv)
  also have "\<dots> = c5 + highest_one (unat x5)" using t5 by (intro highest_last) simp_all
  finally show ?thesis using t1(3) t2(3) t3(3) t4(3) t5(3) by simp
qed

end
