(* ===== verification/Intrinsics.thy ===== *)
theory Intrinsics
  imports Blake3_Compress
begin

text \<open>
  The vector instructions behind the compiler intrinsics that the kernels of external/blake3 use. A vector of
  128, 256 or 512 bits is the list of its 32-bit lanes, the lowest one first; 8-bit, 16-bit and 64-bit lanes
  are the little-endian parts or groups of these. The operations are those of the processor's manual.
\<close>

section \<open>Lanes of other widths\<close>

definition bytes_of :: "u32 list \<Rightarrow> byte list" where
  "bytes_of v = concat (map store32 v)"

fun words_of :: "byte list \<Rightarrow> u32 list" where
  "words_of (b0 # b1 # b2 # b3 # bs) = load32 [b0, b1, b2, b3] # words_of bs"
| "words_of _ = []"

definition epi16_of :: "u32 list \<Rightarrow> 16 word list" where
  "epi16_of v = concat (map (\<lambda>w. [ucast w, ucast (drop_bit 16 w)]) v)"

fun of_epi16 :: "16 word list \<Rightarrow> u32 list" where
  "of_epi16 (lo # hi # hs) = (ucast lo OR push_bit 16 (ucast hi)) # of_epi16 hs"
| "of_epi16 _ = []"

definition of_epi64 :: "u64 list \<Rightarrow> u32 list" where
  "of_epi64 v = concat (map (\<lambda>w. [ucast w, ucast (drop_bit 32 w)]) v)"

fun epi64_of :: "u32 list \<Rightarrow> u64 list" where
  "epi64_of (lo # hi # ws) = (ucast lo OR push_bit 32 (ucast hi)) # epi64_of ws"
| "epi64_of _ = []"

text \<open>The 128-bit lanes; instructions on longer vectors shuffle inside each of them.\<close>

fun lanes128 :: "u32 list \<Rightarrow> u32 list list" where
  "lanes128 (a # b # c # d # v) = [a, b, c, d] # lanes128 v"
| "lanes128 _ = []"

definition per128 :: "(u32 list \<Rightarrow> u32 list \<Rightarrow> u32 list) \<Rightarrow> u32 list \<Rightarrow> u32 list \<Rightarrow> u32 list" where
  "per128 f a b = concat (map2 f (lanes128 a) (lanes128 b))"

text \<open>Field \<open>k\<close> of two bits of an immediate operand, and the macro that packs four of them.\<close>

definition imm2 :: "nat \<Rightarrow> nat \<Rightarrow> nat" where
  "imm2 imm8 k = imm8 div 4 ^ k mod 4"

definition MM_SHUFFLE :: "nat \<Rightarrow> nat \<Rightarrow> nat \<Rightarrow> nat \<Rightarrow> nat" where
  "MM_SHUFFLE z y x w = z * 64 + y * 16 + x * 4 + w"

section \<open>Arithmetic and logic\<close>

definition set1_epi32 :: "nat \<Rightarrow> u32 \<Rightarrow> u32 list" where
  "set1_epi32 n x = replicate n x"

definition set_epi32 :: "u32 list \<Rightarrow> u32 list" where
  "set_epi32 es = rev es"

definition setr_epi32 :: "u32 list \<Rightarrow> u32 list" where
  "setr_epi32 es = es"

definition add_epi32 :: "u32 list \<Rightarrow> u32 list \<Rightarrow> u32 list" where
  "add_epi32 a b = map2 (+) a b"

definition sub_epi32 :: "u32 list \<Rightarrow> u32 list \<Rightarrow> u32 list" where
  "sub_epi32 a b = map2 (-) a b"

definition xor_si :: "u32 list \<Rightarrow> u32 list \<Rightarrow> u32 list" where
  "xor_si a b = map2 (XOR) a b"

definition or_si :: "u32 list \<Rightarrow> u32 list \<Rightarrow> u32 list" where
  "or_si a b = map2 (OR) a b"

definition and_si :: "u32 list \<Rightarrow> u32 list \<Rightarrow> u32 list" where
  "and_si a b = map2 (AND) a b"

definition andnot_si :: "u32 list \<Rightarrow> u32 list \<Rightarrow> u32 list" where
  "andnot_si a b = map2 (\<lambda>x y. NOT x AND y) a b"

definition srli_epi32 :: "u32 list \<Rightarrow> nat \<Rightarrow> u32 list" where
  "srli_epi32 a n = map (drop_bit n) a"

definition slli_epi32 :: "u32 list \<Rightarrow> nat \<Rightarrow> u32 list" where
  "slli_epi32 a n = map (push_bit n) a"

definition ror_epi32 :: "u32 list \<Rightarrow> nat \<Rightarrow> u32 list" where
  "ror_epi32 a n = map (\<lambda>w. word_rotr n w) a"

text \<open>A comparison gives all ones or zero; the numbers are signed.\<close>

definition cmpgt_epi32 :: "u32 list \<Rightarrow> u32 list \<Rightarrow> u32 list" where
  "cmpgt_epi32 a b = map2 (\<lambda>x y. if sint y < sint x then - 1 else 0) a b"

definition set_epi16 :: "16 word list \<Rightarrow> u32 list" where
  "set_epi16 es = of_epi16 (rev es)"

definition set1_epi16 :: "nat \<Rightarrow> 16 word \<Rightarrow> u32 list" where
  "set1_epi16 n x = of_epi16 (replicate (2 * n) x)"

definition cmpeq_epi16 :: "u32 list \<Rightarrow> u32 list \<Rightarrow> u32 list" where
  "cmpeq_epi16 a b = of_epi16 (map2 (\<lambda>x y. if x = y then - 1 else 0) (epi16_of a) (epi16_of b))"

definition set1_epi64 :: "nat \<Rightarrow> u64 \<Rightarrow> u32 list" where
  "set1_epi64 n x = of_epi64 (replicate (n div 2) x)"

definition setr_epi64 :: "u64 list \<Rightarrow> u32 list" where
  "setr_epi64 es = of_epi64 es"

definition add_epi64 :: "u32 list \<Rightarrow> u32 list \<Rightarrow> u32 list" where
  "add_epi64 a b = of_epi64 (map2 (+) (epi64_of a) (epi64_of b))"

definition srli_epi64 :: "u32 list \<Rightarrow> nat \<Rightarrow> u32 list" where
  "srli_epi64 a n = of_epi64 (map (drop_bit n) (epi64_of a))"

definition cvtepi64_epi32 :: "u32 list \<Rightarrow> u32 list" where
  "cvtepi64_epi32 a = map ucast (epi64_of a)"

section \<open>Shuffles\<close>

definition set_epi8 :: "byte list \<Rightarrow> u32 list" where
  "set_epi8 es = words_of (rev es)"

text \<open>Byte \<open>i\<close> of a 128-bit lane is the byte of the lane that byte \<open>i\<close> of the mask names, or 0.\<close>

definition shuffle_epi8_128 :: "u32 list \<Rightarrow> u32 list \<Rightarrow> u32 list" where
  "shuffle_epi8_128 a idx =
     words_of (map (\<lambda>m. if bit m 7 then 0 else bytes_of a ! unat (m AND 15)) (bytes_of idx))"

definition shuffle_epi8 :: "u32 list \<Rightarrow> u32 list \<Rightarrow> u32 list" where
  "shuffle_epi8 = per128 shuffle_epi8_128"

definition shufflelo_epi16 :: "u32 list \<Rightarrow> nat \<Rightarrow> u32 list" where
  "shufflelo_epi16 a imm8 =
     of_epi16 (map (\<lambda>k. epi16_of a ! imm2 imm8 k) [0..<4] @ drop 4 (epi16_of a))"

definition shufflehi_epi16 :: "u32 list \<Rightarrow> nat \<Rightarrow> u32 list" where
  "shufflehi_epi16 a imm8 =
     of_epi16 (take 4 (epi16_of a) @ map (\<lambda>k. epi16_of a ! (4 + imm2 imm8 k)) [0..<4])"

definition shuffle_epi32 :: "u32 list \<Rightarrow> nat \<Rightarrow> u32 list" where
  "shuffle_epi32 a imm8 = map (\<lambda>k. a ! imm2 imm8 k) [0..<4]"

definition shuffle_ps :: "u32 list \<Rightarrow> u32 list \<Rightarrow> nat \<Rightarrow> u32 list" where
  "shuffle_ps a b imm8 = [a ! imm2 imm8 0, a ! imm2 imm8 1, b ! imm2 imm8 2, b ! imm2 imm8 3]"

definition blend_epi16 :: "u32 list \<Rightarrow> u32 list \<Rightarrow> nat \<Rightarrow> u32 list" where
  "blend_epi16 a b imm8 =
     of_epi16 (map (\<lambda>k. if bit imm8 k then epi16_of b ! k else epi16_of a ! k) [0..<8])"

definition unpacklo_epi32 :: "u32 list \<Rightarrow> u32 list \<Rightarrow> u32 list" where
  "unpacklo_epi32 = per128 (\<lambda>a b. [a ! 0, b ! 0, a ! 1, b ! 1])"

definition unpackhi_epi32 :: "u32 list \<Rightarrow> u32 list \<Rightarrow> u32 list" where
  "unpackhi_epi32 = per128 (\<lambda>a b. [a ! 2, b ! 2, a ! 3, b ! 3])"

definition unpacklo_epi64 :: "u32 list \<Rightarrow> u32 list \<Rightarrow> u32 list" where
  "unpacklo_epi64 = per128 (\<lambda>a b. [a ! 0, a ! 1, b ! 0, b ! 1])"

definition unpackhi_epi64 :: "u32 list \<Rightarrow> u32 list \<Rightarrow> u32 list" where
  "unpackhi_epi64 = per128 (\<lambda>a b. [a ! 2, a ! 3, b ! 2, b ! 3])"

text \<open>Each half of the result is one of the four halves of the operands; bits 3 and 7 of the operand are 0 here.\<close>

definition permute2x128 :: "u32 list \<Rightarrow> u32 list \<Rightarrow> nat \<Rightarrow> u32 list" where
  "permute2x128 a b imm8 =
     (let halves = lanes128 a @ lanes128 b in halves ! (imm8 mod 4) @ halves ! (imm8 div 16 mod 4))"

definition shuffle_i32x4 :: "u32 list \<Rightarrow> u32 list \<Rightarrow> nat \<Rightarrow> u32 list" where
  "shuffle_i32x4 a b imm8 =
     lanes128 a ! imm2 imm8 0 @ lanes128 a ! imm2 imm8 1 @ lanes128 b ! imm2 imm8 2 @ lanes128 b ! imm2 imm8 3"

section \<open>Lanes in terms of one another\<close>

named_theorems lane_simps \<open>instructions on explicit lists of lanes\<close>

lemma load32_store32 [simp]: "load32 (store32 w) = w"
proof (rule bit_word_eqI)
  show "bit (load32 (store32 w)) n = bit w n" if "n < LENGTH(32)" for n
    using that by (cases "n < 24"; cases "n < 16") (auto simp: load32_def store32_def bit_simps)
qed

lemma words_of_store32: "words_of (store32 w @ bs) = w # words_of bs"
proof -
  have "words_of (store32 w @ bs) = load32 (store32 w) # words_of bs" by (simp add: store32_def)
  then show ?thesis by simp
qed

lemma words_of_bytes_of: "words_of (bytes_of v) = v"
  by (induction v) (simp_all add: bytes_of_def words_of_store32)

lemma epi16_parts: "ucast (ucast w :: 16 word) OR push_bit 16 (ucast (ucast (drop_bit 16 w) :: 16 word)) = (w :: u32)"
  by (rule bit_word_eqI) (auto simp: bit_simps)

lemma epi64_parts: "ucast (ucast w :: u32) OR push_bit 32 (ucast (ucast (drop_bit 32 w) :: u32)) = (w :: u64)"
  by (rule bit_word_eqI) (auto simp: bit_simps)

lemma of_epi16_epi16_of: "of_epi16 (epi16_of v) = v"
  by (induction v) (simp_all add: epi16_of_def epi16_parts)

lemma epi64_of_epi64 [simp]: "epi64_of (of_epi64 v) = v"
  by (induction v) (simp_all add: of_epi64_def epi64_parts)

lemmas lane_arith [lane_simps] = set1_epi32_def set_epi32_def setr_epi32_def add_epi32_def sub_epi32_def xor_si_def or_si_def
  and_si_def andnot_si_def srli_epi32_def slli_epi32_def cmpgt_epi32_def

lemmas lane_shuffles [lane_simps] = shuffle_epi32_def shuffle_ps_def unpacklo_epi32_def unpackhi_epi32_def unpacklo_epi64_def
  unpackhi_epi64_def per128_def permute2x128_def shuffle_i32x4_def imm2_def MM_SHUFFLE_def

end
