(* ===== verification/Blake3_Rows.thy ===== *)
theory Blake3_Rows
  imports Intrinsics
begin

text \<open>
  The compression function on four vectors of four lanes, as blake3_sse2.c, blake3_sse41.c and
  blake3_avx512.c have it in the same words. The functions in which the files differ are the fields of a
  record; the vectors mix the four columns and then the four diagonals of the state at once, and each round
  shuffles the vectors of message words of the round before. The portable compression function is the
  reference.
\<close>

section \<open>The text the files share\<close>

record vec_unit =
  addv :: "u32 list \<Rightarrow> u32 list \<Rightarrow> u32 list"
  xorv :: "u32 list \<Rightarrow> u32 list \<Rightarrow> u32 list"
  rot16 :: "u32 list \<Rightarrow> u32 list"
  rot12 :: "u32 list \<Rightarrow> u32 list"
  rot8 :: "u32 list \<Rightarrow> u32 list"
  rot7 :: "u32 list \<Rightarrow> u32 list"

record row_unit = vec_unit +
  blend :: "u32 list \<Rightarrow> u32 list \<Rightarrow> nat \<Rightarrow> u32 list"

type_synonym rows = "u32 list \<times> u32 list \<times> u32 list \<times> u32 list"

definition g1 :: "row_unit \<Rightarrow> u32 list \<Rightarrow> rows \<Rightarrow> rows" where
  "g1 U m = (\<lambda>(row0, row1, row2, row3).
     let row0 = addv U (addv U row0 m) row1;
         row3 = xorv U row3 row0;
         row3 = rot16 U row3;
         row2 = addv U row2 row3;
         row1 = xorv U row1 row2;
         row1 = rot12 U row1
     in (row0, row1, row2, row3))"

definition g2 :: "row_unit \<Rightarrow> u32 list \<Rightarrow> rows \<Rightarrow> rows" where
  "g2 U m = (\<lambda>(row0, row1, row2, row3).
     let row0 = addv U (addv U row0 m) row1;
         row3 = xorv U row3 row0;
         row3 = rot8 U row3;
         row2 = addv U row2 row3;
         row1 = xorv U row1 row2;
         row1 = rot7 U row1
     in (row0, row1, row2, row3))"

definition diagonalize :: "rows \<Rightarrow> rows" where
  "diagonalize = (\<lambda>(row0, row1, row2, row3).
     (shuffle_epi32 row0 (MM_SHUFFLE 2 1 0 3), row1, shuffle_epi32 row2 (MM_SHUFFLE 0 3 2 1),
      shuffle_epi32 row3 (MM_SHUFFLE 1 0 3 2)))"

definition undiagonalize :: "rows \<Rightarrow> rows" where
  "undiagonalize = (\<lambda>(row0, row1, row2, row3).
     (shuffle_epi32 row0 (MM_SHUFFLE 0 3 2 1), row1, shuffle_epi32 row2 (MM_SHUFFLE 2 1 0 3),
      shuffle_epi32 row3 (MM_SHUFFLE 1 0 3 2)))"

text \<open>The rounds of \<open>compress_pre\<close>: round 1, and the text of rounds 2 to 7. The second component is \<open>m0\<close> to \<open>m3\<close>.\<close>

definition round_one :: "row_unit \<Rightarrow> rows \<times> rows \<Rightarrow> rows \<times> rows" where
  "round_one U = (\<lambda>(rows, m0, m1, m2, m3).
     let t0 = shuffle_ps m0 m1 (MM_SHUFFLE 2 0 2 0);
         rows = g1 U t0 rows;
         t1 = shuffle_ps m0 m1 (MM_SHUFFLE 3 1 3 1);
         rows = g2 U t1 rows;
         rows = diagonalize rows;
         t2 = shuffle_ps m2 m3 (MM_SHUFFLE 2 0 2 0);
         t2 = shuffle_epi32 t2 (MM_SHUFFLE 2 1 0 3);
         rows = g1 U t2 rows;
         t3 = shuffle_ps m2 m3 (MM_SHUFFLE 3 1 3 1);
         t3 = shuffle_epi32 t3 (MM_SHUFFLE 2 1 0 3);
         rows = g2 U t3 rows;
         rows = undiagonalize rows
     in (rows, t0, t1, t2, t3))"

definition round_next :: "row_unit \<Rightarrow> rows \<times> rows \<Rightarrow> rows \<times> rows" where
  "round_next U = (\<lambda>(rows, m0, m1, m2, m3).
     let t0 = shuffle_ps m0 m1 (MM_SHUFFLE 3 1 1 2);
         t0 = shuffle_epi32 t0 (MM_SHUFFLE 0 3 2 1);
         rows = g1 U t0 rows;
         t1 = shuffle_ps m2 m3 (MM_SHUFFLE 3 3 2 2);
         tt = shuffle_epi32 m0 (MM_SHUFFLE 0 0 3 3);
         t1 = blend U tt t1 0xCC;
         rows = g2 U t1 rows;
         rows = diagonalize rows;
         t2 = unpacklo_epi64 m3 m1;
         tt = blend U t2 m2 0xC0;
         t2 = shuffle_epi32 tt (MM_SHUFFLE 1 3 2 0);
         rows = g1 U t2 rows;
         t3 = unpackhi_epi32 m1 m3;
         tt = unpacklo_epi32 m2 t3;
         t3 = shuffle_epi32 tt (MM_SHUFFLE 0 1 3 2);
         rows = g2 U t3 rows;
         rows = undiagonalize rows
     in (rows, t0, t1, t2, t3))"

text \<open>\<open>loadu\<close> of bytes, and of the words of a chaining value from \<open>cv[k]\<close> on.\<close>

definition loadu_128 :: "byte list \<Rightarrow> u32 list" where
  "loadu_128 src = map (\<lambda>i. load32 (drop (4 * i) src)) [0..<4]"

definition loadu_cv :: "u32 list \<Rightarrow> nat \<Rightarrow> u32 list" where
  "loadu_cv cv k = [cv ! k, cv ! (k + 1), cv ! (k + 2), cv ! (k + 3)]"

definition rows_compress_pre :: "row_unit \<Rightarrow> u32 list \<Rightarrow> byte list \<Rightarrow> nat \<Rightarrow> u64 \<Rightarrow> byte \<Rightarrow> rows" where
  "rows_compress_pre U cv block block_len counter flags =
     (let rows = (loadu_cv cv 0, loadu_cv cv 4, setr_epi32 [IV ! 0, IV ! 1, IV ! 2, IV ! 3],
                  setr_epi32 [counter_low counter, counter_high counter, of_nat block_len, ucast flags]);
          m0 = loadu_128 (drop (16 * 0) block);
          m1 = loadu_128 (drop (16 * 1) block);
          m2 = loadu_128 (drop (16 * 2) block);
          m3 = loadu_128 (drop (16 * 3) block);
          s = round_one U (rows, m0, m1, m2, m3);
          s = round_next U s;
          s = round_next U s;
          s = round_next U s;
          s = round_next U s;
          s = round_next U s;
          s = round_next U s
      in fst s)"

text \<open>What \<open>compress_in_place\<close> stores in \<open>cv\<close> and \<open>compress_xof\<close> in \<open>out\<close>.\<close>

definition rows_in_place :: "row_unit \<Rightarrow> rows \<Rightarrow> u32 list" where
  "rows_in_place U = (\<lambda>(row0, row1, row2, row3). xorv U row0 row2 @ xorv U row1 row3)"

definition rows_xof :: "row_unit \<Rightarrow> u32 list \<Rightarrow> rows \<Rightarrow> byte list" where
  "rows_xof U cv = (\<lambda>(row0, row1, row2, row3).
     bytes_of (xorv U row0 row2) @ bytes_of (xorv U row1 row3) @
     bytes_of (xorv U row2 (loadu_cv cv 0)) @ bytes_of (xorv U row3 (loadu_cv cv 4)))"

section \<open>The portable rounds by quarter rounds\<close>

definition quarter :: "u32 \<Rightarrow> u32 \<Rightarrow> u32 \<Rightarrow> u32 \<Rightarrow> u32 \<Rightarrow> u32 \<Rightarrow> u32 \<times> u32 \<times> u32 \<times> u32" where
  "quarter a b c d x y =
     (let a = a + b + x; d = rotr32 (d XOR a) 16; c = c + d; b = rotr32 (b XOR c) 12;
          a = a + b + y; d = rotr32 (d XOR a) 8; c = c + d; b = rotr32 (b XOR c) 7
      in (a, b, c, d))"

definition qa where "qa a b c d x y = fst (quarter a b c d x y)"
definition qb where "qb a b c d x y = fst (snd (quarter a b c d x y))"
definition qc where "qc a b c d x y = fst (snd (snd (quarter a b c d x y)))"
definition qd where "qd a b c d x y = snd (snd (snd (quarter a b c d x y)))"

lemmas quarter_defs = qa_def qb_def qc_def qd_def quarter_def

lemma blake3_g_quarter:
  assumes "distinct [i, j, k, l]" "i < length st" "j < length st" "k < length st" "l < length st"
  shows "blake3_g i j k l x y st =
    st[i := qa (st ! i) (st ! j) (st ! k) (st ! l) x y, j := qb (st ! i) (st ! j) (st ! k) (st ! l) x y,
       k := qc (st ! i) (st ! j) (st ! k) (st ! l) x y, l := qd (st ! i) (st ! j) (st ! k) (st ! l) x y]"
proof (rule nth_equalityI)
  fix n assume "n < length (blake3_g i j k l x y st)"
  then show "blake3_g i j k l x y st ! n =
    st[i := qa (st ! i) (st ! j) (st ! k) (st ! l) x y, j := qb (st ! i) (st ! j) (st ! k) (st ! l) x y,
       k := qc (st ! i) (st ! j) (st ! k) (st ! l) x y, l := qd (st ! i) (st ! j) (st ! k) (st ! l) x y] ! n"
    using assms by (auto simp: blake3_g_def Let_def quarter_defs nth_list_update)
qed (simp add: blake3_g_def Let_def)

text \<open>A round on the message words in the order in which it uses them.\<close>

definition mix :: "u32 list \<Rightarrow> u32 list \<Rightarrow> u32 list" where
  "mix xs st =
     (let st = blake3_g 0 4 8 12 (xs ! 0) (xs ! 1) st;
          st = blake3_g 1 5 9 13 (xs ! 2) (xs ! 3) st;
          st = blake3_g 2 6 10 14 (xs ! 4) (xs ! 5) st;
          st = blake3_g 3 7 11 15 (xs ! 6) (xs ! 7) st;
          st = blake3_g 0 5 10 15 (xs ! 8) (xs ! 9) st;
          st = blake3_g 1 6 11 12 (xs ! 10) (xs ! 11) st;
          st = blake3_g 2 7 8 13 (xs ! 12) (xs ! 13) st;
          st = blake3_g 3 4 9 14 (xs ! 14) (xs ! 15) st
      in st)"

definition scheduled :: "nat \<Rightarrow> u32 list \<Rightarrow> u32 list" where
  "scheduled r msg = map (\<lambda>j. msg ! (MSG_SCHEDULE ! r ! j)) [0..<16]"

lemma length_scheduled [simp]: "length (scheduled r msg) = 16"
  by (simp add: scheduled_def)

lemma scheduled_nth [simp]: "j < 16 \<Longrightarrow> scheduled r msg ! j = msg ! (MSG_SCHEDULE ! r ! j)"
  by (simp add: scheduled_def)

lemma round_fn_mix: "round_fn msg r st = mix (scheduled r msg) st"
  by (simp add: round_fn_def mix_def Let_def)

lemma length_blake3_g [simp]: "length (blake3_g i j k l x y st) = length st"
  by (simp add: blake3_g_def Let_def)

lemma length_mix [simp]: "length (mix xs st) = length st"
  by (simp add: mix_def Let_def)

lemma scheduled_step:
  assumes "r < 6" "length msg = 16"
  shows "scheduled 1 (scheduled r msg) = scheduled (Suc r) msg"
proof -
  have "r \<in> set [0..<6]" using assms(1) by simp
  then show ?thesis by (auto simp: scheduled_def MSG_SCHEDULE_def upt_conv_Cons)
qed

lemma scheduled_0: "length msg = 16 \<Longrightarrow> scheduled 0 msg = msg"
  by (rule nth_equalityI) (auto simp: scheduled_def MSG_SCHEDULE_def less_Suc_eq numeral_eq_Suc)

section \<open>The rounds on explicit states\<close>

lemma list4: "length v = 4 \<Longrightarrow> \<exists>a b c d. v = [a, b, c, d]"
  by (auto simp: numeral_eq_Suc length_Suc_conv)

lemma list16: "length v = 16 \<Longrightarrow> \<exists>x0 x1 x2 x3 x4 x5 x6 x7 x8 x9 x10 x11 x12 x13 x14 x15.
    v = [x0, x1, x2, x3, x4, x5, x6, x7, x8, x9, x10, x11, x12, x13, x14, x15]"
  by (auto simp: numeral_eq_Suc length_Suc_conv)

lemma mix_explicit:
  "mix [x0, x1, x2, x3, x4, x5, x6, x7, x8, x9, x10, x11, x12, x13, x14, x15]
     [a0, a1, a2, a3, b0, b1, b2, b3, c0, c1, c2, c3, d0, d1, d2, d3] =
   (let A0 = qa a0 b0 c0 d0 x0 x1; B0 = qb a0 b0 c0 d0 x0 x1; C0 = qc a0 b0 c0 d0 x0 x1; D0 = qd a0 b0 c0 d0 x0 x1;
        A1 = qa a1 b1 c1 d1 x2 x3; B1 = qb a1 b1 c1 d1 x2 x3; C1 = qc a1 b1 c1 d1 x2 x3; D1 = qd a1 b1 c1 d1 x2 x3;
        A2 = qa a2 b2 c2 d2 x4 x5; B2 = qb a2 b2 c2 d2 x4 x5; C2 = qc a2 b2 c2 d2 x4 x5; D2 = qd a2 b2 c2 d2 x4 x5;
        A3 = qa a3 b3 c3 d3 x6 x7; B3 = qb a3 b3 c3 d3 x6 x7; C3 = qc a3 b3 c3 d3 x6 x7; D3 = qd a3 b3 c3 d3 x6 x7
    in [qa A0 B1 C2 D3 x8 x9, qa A1 B2 C3 D0 x10 x11, qa A2 B3 C0 D1 x12 x13, qa A3 B0 C1 D2 x14 x15,
        qb A3 B0 C1 D2 x14 x15, qb A0 B1 C2 D3 x8 x9, qb A1 B2 C3 D0 x10 x11, qb A2 B3 C0 D1 x12 x13,
        qc A2 B3 C0 D1 x12 x13, qc A3 B0 C1 D2 x14 x15, qc A0 B1 C2 D3 x8 x9, qc A1 B2 C3 D0 x10 x11,
        qd A1 B2 C3 D0 x10 x11, qd A2 B3 C0 D1 x12 x13, qd A3 B0 C1 D2 x14 x15, qd A0 B1 C2 D3 x8 x9])"
  by (simp add: mix_def blake3_g_quarter Let_def)

section \<open>What the files have to provide\<close>

definition flat :: "rows \<Rightarrow> u32 list" where
  "flat = (\<lambda>(row0, row1, row2, row3). row0 @ row1 @ row2 @ row3)"

definition rows_ok :: "rows \<Rightarrow> bool" where
  "rows_ok = (\<lambda>(row0, row1, row2, row3). length row0 = 4 \<and> length row1 = 4 \<and> length row2 = 4 \<and> length row3 = 4)"

text \<open>The vectors of message words that a round leaves for the next one.\<close>

definition arranged :: "u32 list \<Rightarrow> rows" where
  "arranged xs =
     ([xs ! 0, xs ! 2, xs ! 4, xs ! 6], [xs ! 1, xs ! 3, xs ! 5, xs ! 7],
      [xs ! 14, xs ! 8, xs ! 10, xs ! 12], [xs ! 15, xs ! 9, xs ! 11, xs ! 13])"

lemma shuffles_4:
  "shuffle_epi32 [a0, a1, a2, a3] (MM_SHUFFLE 2 1 0 3) = [a3, a0, a1, a2]"
  "shuffle_epi32 [a0, a1, a2, a3] (MM_SHUFFLE 0 3 2 1) = [a1, a2, a3, a0]"
  "shuffle_epi32 [a0, a1, a2, a3] (MM_SHUFFLE 1 0 3 2) = [a2, a3, a0, a1]"
  "shuffle_epi32 [a0, a1, a2, a3] (MM_SHUFFLE 0 0 3 3) = [a3, a3, a0, a0]"
  "shuffle_epi32 [a0, a1, a2, a3] (MM_SHUFFLE 1 3 2 0) = [a0, a2, a3, a1]"
  "shuffle_epi32 [a0, a1, a2, a3] (MM_SHUFFLE 0 1 3 2) = [a2, a3, a1, a0]"
  "shuffle_ps [a0, a1, a2, a3] [b0, b1, b2, b3] (MM_SHUFFLE 2 0 2 0) = [a0, a2, b0, b2]"
  "shuffle_ps [a0, a1, a2, a3] [b0, b1, b2, b3] (MM_SHUFFLE 3 1 3 1) = [a1, a3, b1, b3]"
  "shuffle_ps [a0, a1, a2, a3] [b0, b1, b2, b3] (MM_SHUFFLE 3 1 1 2) = [a2, a1, b1, b3]"
  "shuffle_ps [a0, a1, a2, a3] [b0, b1, b2, b3] (MM_SHUFFLE 3 3 2 2) = [a2, a2, b3, b3]"
  "unpacklo_epi64 [a0, a1, a2, a3] [b0, b1, b2, b3] = [a0, a1, b0, b1]"
  "unpacklo_epi32 [a0, a1, a2, a3] [b0, b1, b2, b3] = [a0, b0, a1, b1]"
  "unpackhi_epi32 [a0, a1, a2, a3] [b0, b1, b2, b3] = [a2, b2, a3, b3]"
  by (simp_all add: lane_shuffles upt_conv_Cons)

lemmas diagonals = diagonalize_def undiagonalize_def

lemma rows_explicit: "rows_ok st \<Longrightarrow> \<exists>a0 a1 a2 a3 b0 b1 b2 b3 c0 c1 c2 c3 d0 d1 d2 d3.
    st = ([a0, a1, a2, a3], [b0, b1, b2, b3], [c0, c1, c2, c3], [d0, d1, d2, d3])"
  using list4 by (cases st) (fastforce simp: rows_ok_def)

locale row_kernel =
  fixes U :: row_unit
  assumes add: "addv U a b = map2 (+) a b"
    and xor: "xorv U a b = map2 (XOR) a b"
    and rots: "length v = 4 \<Longrightarrow> rot16 U v = map (\<lambda>w. rotr32 w 16) v"
      "length v = 4 \<Longrightarrow> rot12 U v = map (\<lambda>w. rotr32 w 12) v"
      "length v = 4 \<Longrightarrow> rot8 U v = map (\<lambda>w. rotr32 w 8) v"
      "length v = 4 \<Longrightarrow> rot7 U v = map (\<lambda>w. rotr32 w 7) v"
    and blends: "blend U [a0, a1, a2, a3] [b0, b1, b2, b3] 0xCC = [a0, b1, a2, b3]"
      "blend U [a0, a1, a2, a3] [b0, b1, b2, b3] 0xC0 = [a0, a1, a2, b3]"
begin

lemma g_quarter:
  "g2 U [y0, y1, y2, y3] (g1 U [x0, x1, x2, x3] ([a0, a1, a2, a3], [b0, b1, b2, b3], [c0, c1, c2, c3], [d0, d1, d2, d3])) =
     ([qa a0 b0 c0 d0 x0 y0, qa a1 b1 c1 d1 x1 y1, qa a2 b2 c2 d2 x2 y2, qa a3 b3 c3 d3 x3 y3],
      [qb a0 b0 c0 d0 x0 y0, qb a1 b1 c1 d1 x1 y1, qb a2 b2 c2 d2 x2 y2, qb a3 b3 c3 d3 x3 y3],
      [qc a0 b0 c0 d0 x0 y0, qc a1 b1 c1 d1 x1 y1, qc a2 b2 c2 d2 x2 y2, qc a3 b3 c3 d3 x3 y3],
      [qd a0 b0 c0 d0 x0 y0, qd a1 b1 c1 d1 x1 y1, qd a2 b2 c2 d2 x2 y2, qd a3 b3 c3 d3 x3 y3])"
  by (simp add: g1_def g2_def add xor rots quarter_defs Let_def ac_simps)

lemma round_one_explicit:
  "round_one U (([a0, a1, a2, a3], [b0, b1, b2, b3], [c0, c1, c2, c3], [d0, d1, d2, d3]),
      [x0, x1, x2, x3], [x4, x5, x6, x7], [x8, x9, x10, x11], [x12, x13, x14, x15]) = (rows, m) \<Longrightarrow>
    m = arranged [x0, x1, x2, x3, x4, x5, x6, x7, x8, x9, x10, x11, x12, x13, x14, x15] \<and> rows_ok rows \<and>
    flat rows = mix [x0, x1, x2, x3, x4, x5, x6, x7, x8, x9, x10, x11, x12, x13, x14, x15]
      [a0, a1, a2, a3, b0, b1, b2, b3, c0, c1, c2, c3, d0, d1, d2, d3]"
  by (auto simp: round_one_def Let_def g_quarter shuffles_4 diagonals mix_explicit flat_def rows_ok_def arranged_def simp del: One_nat_def)

lemma round_next_explicit:
  "round_next U (([a0, a1, a2, a3], [b0, b1, b2, b3], [c0, c1, c2, c3], [d0, d1, d2, d3]),
      arranged [x0, x1, x2, x3, x4, x5, x6, x7, x8, x9, x10, x11, x12, x13, x14, x15]) = (rows, m) \<Longrightarrow>
    m = arranged [x2, x6, x3, x10, x7, x0, x4, x13, x1, x11, x12, x5, x9, x14, x15, x8] \<and> rows_ok rows \<and>
    flat rows = mix [x2, x6, x3, x10, x7, x0, x4, x13, x1, x11, x12, x5, x9, x14, x15, x8]
      [a0, a1, a2, a3, b0, b1, b2, b3, c0, c1, c2, c3, d0, d1, d2, d3]"
  by (auto simp: round_next_def Let_def g_quarter shuffles_4 diagonals blends mix_explicit flat_def rows_ok_def arranged_def simp del: One_nat_def)

lemma round_one_mix:
  assumes "rows_ok st" "length xs = 16"
    and "m = ([xs ! 0, xs ! 1, xs ! 2, xs ! 3], [xs ! 4, xs ! 5, xs ! 6, xs ! 7],
      [xs ! 8, xs ! 9, xs ! 10, xs ! 11], [xs ! 12, xs ! 13, xs ! 14, xs ! 15])"
  shows "\<exists>st'. round_one U (st, m) = (st', arranged xs) \<and> rows_ok st' \<and> flat st' = mix xs (flat st)"
proof -
  obtain a0 a1 a2 a3 b0 b1 b2 b3 c0 c1 c2 c3 d0 d1 d2 d3 where
    st: "st = ([a0, a1, a2, a3], [b0, b1, b2, b3], [c0, c1, c2, c3], [d0, d1, d2, d3])"
    using rows_explicit [OF assms(1)] by blast
  obtain x0 x1 x2 x3 x4 x5 x6 x7 x8 x9 x10 x11 x12 x13 x14 x15 where xs: "xs = [x0, x1, x2, x3, x4, x5, x6, x7, x8, x9, x10, x11, x12, x13, x14, x15]"
    using list16 [OF assms(2)] by blast
  have m: "m = ([x0, x1, x2, x3], [x4, x5, x6, x7], [x8, x9, x10, x11], [x12, x13, x14, x15])"
    by (simp add: assms(3) xs)
  obtain st' m' where e: "round_one U (st, m) = (st', m')" by (cases "round_one U (st, m)")
  from round_one_explicit [OF e [unfolded st m]] e show ?thesis by (simp add: xs st flat_def)
qed

lemma round_next_mix:
  assumes "rows_ok st" "length xs = 16"
  shows "\<exists>st'. round_next U (st, arranged xs) = (st', arranged (scheduled 1 xs)) \<and> rows_ok st' \<and>
    flat st' = mix (scheduled 1 xs) (flat st)"
proof -
  obtain a0 a1 a2 a3 b0 b1 b2 b3 c0 c1 c2 c3 d0 d1 d2 d3 where
    st: "st = ([a0, a1, a2, a3], [b0, b1, b2, b3], [c0, c1, c2, c3], [d0, d1, d2, d3])"
    using rows_explicit [OF assms(1)] by blast
  obtain x0 x1 x2 x3 x4 x5 x6 x7 x8 x9 x10 x11 x12 x13 x14 x15 where xs: "xs = [x0, x1, x2, x3, x4, x5, x6, x7, x8, x9, x10, x11, x12, x13, x14, x15]"
    using list16 [OF assms(2)] by blast
  have p: "scheduled 1 xs = [x2, x6, x3, x10, x7, x0, x4, x13, x1, x11, x12, x5, x9, x14, x15, x8]"
    by (simp add: xs scheduled_def MSG_SCHEDULE_def upt_conv_Cons)
  obtain st' m' where e: "round_next U (st, arranged xs) = (st', m')" by (cases "round_next U (st, arranged xs)")
  from round_next_explicit [OF e [unfolded st xs]] e show ?thesis by (simp add: p st flat_def del: One_nat_def)
qed

text \<open>Rounds 2 to 7 with the schedule of the message words.\<close>

lemma rounds_scheduled:
  assumes "rows_ok st" "length msg = 16" "n \<le> 6"
  shows "\<exists>st'. (round_next U ^^ n) (st, arranged msg) = (st', arranged (scheduled n msg)) \<and> rows_ok st' \<and>
    flat st' = fold (round_fn msg) [1..<Suc n] (flat st)"
  using assms(3)
proof (induction n)
  case 0
  then show ?case using assms(1,2) by (simp add: scheduled_0)
next
  case (Suc n)
  then obtain st' where "(round_next U ^^ n) (st, arranged msg) = (st', arranged (scheduled n msg))" "rows_ok st'"
    "flat st' = fold (round_fn msg) [1..<Suc n] (flat st)" by auto
  moreover from round_next_mix [OF this(2), of "scheduled n msg"] obtain st'' where
    "round_next U (st', arranged (scheduled n msg)) = (st'', arranged (scheduled (Suc n) msg))" "rows_ok st''"
    "flat st'' = round_fn msg (Suc n) (flat st')"
    using scheduled_step [of n msg] Suc.prems assms(2) by (auto simp: round_fn_mix)
  ultimately show ?case by simp
qed

lemma compress_pre_rows:
  "rows_ok (rows_compress_pre U cv block block_len counter flags) \<and>
   flat (rows_compress_pre U cv block block_len counter flags) = compress_pre cv block block_len counter flags"
proof -
  let ?ws = "map (\<lambda>i. load32 (drop (4 * i) block)) [0..<16]"
  let ?st = "(loadu_cv cv 0, loadu_cv cv 4, setr_epi32 [IV ! 0, IV ! 1, IV ! 2, IV ! 3],
    setr_epi32 [counter_low counter, counter_high counter, of_nat block_len, ucast flags])"
  let ?m = "(loadu_128 (drop (16 * 0) block), loadu_128 (drop (16 * 1) block), loadu_128 (drop (16 * 2) block),
    loadu_128 (drop (16 * 3) block))"
  have st: "rows_ok ?st" "flat ?st = [cv ! 0, cv ! 1, cv ! 2, cv ! 3, cv ! 4, cv ! 5, cv ! 6, cv ! 7, IV ! 0, IV ! 1,
      IV ! 2, IV ! 3, counter_low counter, counter_high counter, of_nat block_len, ucast flags]"
    by (simp_all add: rows_ok_def flat_def loadu_cv_def setr_epi32_def numeral_eq_Suc)
  have m: "?m = ([?ws ! 0, ?ws ! 1, ?ws ! 2, ?ws ! 3], [?ws ! 4, ?ws ! 5, ?ws ! 6, ?ws ! 7],
      [?ws ! 8, ?ws ! 9, ?ws ! 10, ?ws ! 11], [?ws ! 12, ?ws ! 13, ?ws ! 14, ?ws ! 15])"
    by (simp add: loadu_128_def upt_conv_Cons)
  have ws: "length ?ws = 16" by simp
  obtain s0 where s0: "round_one U (?st, ?m) = (s0, arranged ?ws)" "rows_ok s0" "flat s0 = round_fn ?ws 0 (flat ?st)"
    using round_one_mix [OF st(1) ws m] by (auto simp: scheduled_0 [OF ws] round_fn_mix)
  obtain s6 where s6: "(round_next U ^^ 6) (s0, arranged ?ws) = (s6, arranged (scheduled 6 ?ws))" "rows_ok s6"
    "flat s6 = fold (round_fn ?ws) [1..<Suc 6] (flat s0)"
    using rounds_scheduled [OF s0(2) ws, of 6] by auto
  have "rows_compress_pre U cv block block_len counter flags = fst ((round_next U ^^ 6) (round_one U (?st, ?m)))"
    by (simp add: rows_compress_pre_def Let_def numeral_eq_Suc)
  then have "rows_compress_pre U cv block block_len counter flags = s6" by (simp only: s0(1) s6(1) fst_conv)
  moreover have six: "[1..<Suc 6] = [1, 2, 3, 4, 5, 6]" by (simp add: upt_conv_Cons)
  have "flat s6 = compress_pre cv block block_len counter flags"
    unfolding s6(3) s0(3) st(2) compress_pre_def Let_def six by (simp only: fold_simps)
  ultimately show ?thesis using s6(2) by simp
qed

lemma bytes_4: "bytes_of [a, b, c, d] = store32 a @ store32 b @ store32 c @ store32 d"
  by (simp add: bytes_of_def)

lemma compress_pre_explicit:
  obtains a0 a1 a2 a3 b0 b1 b2 b3 c0 c1 c2 c3 d0 d1 d2 d3 where
    "rows_compress_pre U cv block block_len counter flags =
      ([a0, a1, a2, a3], [b0, b1, b2, b3], [c0, c1, c2, c3], [d0, d1, d2, d3])"
    "compress_pre cv block block_len counter flags = [a0, a1, a2, a3, b0, b1, b2, b3, c0, c1, c2, c3, d0, d1, d2, d3]"
proof -
  note cp = compress_pre_rows [of cv block block_len counter flags]
  from rows_explicit [OF conjunct1 [OF cp]] obtain a0 a1 a2 a3 b0 b1 b2 b3 c0 c1 c2 c3 d0 d1 d2 d3 where
    r: "rows_compress_pre U cv block block_len counter flags =
      ([a0, a1, a2, a3], [b0, b1, b2, b3], [c0, c1, c2, c3], [d0, d1, d2, d3])"
    by blast
  with conjunct2 [OF cp] show thesis by (intro that [OF r]) (simp add: flat_def)
qed

lemma in_place_portable:
  "rows_in_place U (rows_compress_pre U cv block block_len counter flags) =
     blake3_compress_in_place_portable cv block block_len counter flags"
  by (rule compress_pre_explicit [of cv block block_len counter flags])
    (simp add: rows_in_place_def blake3_compress_in_place_portable_def xor Let_def)

lemma xof_portable:
  "rows_xof U cv (rows_compress_pre U cv block block_len counter flags) =
     blake3_compress_xof_portable cv block block_len counter flags"
  by (rule compress_pre_explicit [of cv block block_len counter flags])
    (simp add: rows_xof_def blake3_compress_xof_portable_def xor Let_def loadu_cv_def bytes_4 numeral_2_eq_2)

end

end
