(* ===== verification/Blake3_Lanes.thy ===== *)
theory Blake3_Lanes
  imports Blake3_Rows
begin

text \<open>
  Hashing as many inputs at once as a vector has lanes: \<open>round_fn\<close> and the block loop of the functions
  \<open>blake3_hash4\<close>, \<open>blake3_hash8\<close> and \<open>blake3_hash16\<close>, which blake3_sse2.c, blake3_sse41.c, blake3_avx2.c and
  blake3_avx512.c have in the same words. Vector \<open>k\<close> holds word \<open>k\<close> of the state of every input, so a lane
  is the state of one input; the portable functions on one input are the reference.
\<close>

section \<open>The text the files share\<close>

record lane_unit =
  ops :: vec_unit
  set1 :: "u32 \<Rightarrow> u32 list"
  round_v :: "u32 list list \<Rightarrow> nat \<Rightarrow> u32 list list \<Rightarrow> u32 list list"
  transpose_msgs :: "byte list list \<Rightarrow> nat \<Rightarrow> u32 list list"
  counters :: "u64 \<Rightarrow> bool \<Rightarrow> u32 list \<times> u32 list"
  store_h :: "u32 list list \<Rightarrow> byte list"

text \<open>
  The assignments of \<open>round_fn\<close>: \<open>Add_msg k j\<close> adds the message vector that the schedule has at position
  \<open>j\<close> to \<open>v[k]\<close>; \<open>Add k l\<close> and \<open>Xor k l\<close> combine \<open>v[k]\<close> with \<open>v[l]\<close>.
\<close>

datatype lane_step = Add_msg nat nat | Add nat nat | Xor nat nat | Rot16 nat | Rot12 nat | Rot8 nat | Rot7 nat

definition column_steps :: "lane_step list" where
  "column_steps =
    [Add_msg 0 0, Add_msg 1 2, Add_msg 2 4, Add_msg 3 6,
     Add 0 4, Add 1 5, Add 2 6, Add 3 7,
     Xor 12 0, Xor 13 1, Xor 14 2, Xor 15 3,
     Rot16 12, Rot16 13, Rot16 14, Rot16 15,
     Add 8 12, Add 9 13, Add 10 14, Add 11 15,
     Xor 4 8, Xor 5 9, Xor 6 10, Xor 7 11,
     Rot12 4, Rot12 5, Rot12 6, Rot12 7,
     Add_msg 0 1, Add_msg 1 3, Add_msg 2 5, Add_msg 3 7,
     Add 0 4, Add 1 5, Add 2 6, Add 3 7,
     Xor 12 0, Xor 13 1, Xor 14 2, Xor 15 3,
     Rot8 12, Rot8 13, Rot8 14, Rot8 15,
     Add 8 12, Add 9 13, Add 10 14, Add 11 15,
     Xor 4 8, Xor 5 9, Xor 6 10, Xor 7 11,
     Rot7 4, Rot7 5, Rot7 6, Rot7 7]"

definition diagonal_steps :: "lane_step list" where
  "diagonal_steps =
    [Add_msg 0 8, Add_msg 1 10, Add_msg 2 12, Add_msg 3 14,
     Add 0 5, Add 1 6, Add 2 7, Add 3 4,
     Xor 15 0, Xor 12 1, Xor 13 2, Xor 14 3,
     Rot16 15, Rot16 12, Rot16 13, Rot16 14,
     Add 10 15, Add 11 12, Add 8 13, Add 9 14,
     Xor 5 10, Xor 6 11, Xor 7 8, Xor 4 9,
     Rot12 5, Rot12 6, Rot12 7, Rot12 4,
     Add_msg 0 9, Add_msg 1 11, Add_msg 2 13, Add_msg 3 15,
     Add 0 5, Add 1 6, Add 2 7, Add 3 4,
     Xor 15 0, Xor 12 1, Xor 13 2, Xor 14 3,
     Rot8 15, Rot8 12, Rot8 13, Rot8 14,
     Add 10 15, Add 11 12, Add 8 13, Add 9 14,
     Xor 5 10, Xor 6 11, Xor 7 8, Xor 4 9,
     Rot7 5, Rot7 6, Rot7 7, Rot7 4]"

fun run_step :: "vec_unit \<Rightarrow> u32 list list \<Rightarrow> nat \<Rightarrow> lane_step \<Rightarrow> u32 list list \<Rightarrow> u32 list list" where
  "run_step U m r (Add_msg k j) v = v[k := addv U (v ! k) (m ! (MSG_SCHEDULE ! r ! j))]"
| "run_step U m r (Add k l) v = v[k := addv U (v ! k) (v ! l)]"
| "run_step U m r (Xor k l) v = v[k := xorv U (v ! k) (v ! l)]"
| "run_step U m r (Rot16 k) v = v[k := rot16 U (v ! k)]"
| "run_step U m r (Rot12 k) v = v[k := rot12 U (v ! k)]"
| "run_step U m r (Rot8 k) v = v[k := rot8 U (v ! k)]"
| "run_step U m r (Rot7 k) v = v[k := rot7 U (v ! k)]"

definition lanes_round :: "vec_unit \<Rightarrow> u32 list list \<Rightarrow> nat \<Rightarrow> u32 list list \<Rightarrow> u32 list list" where
  "lanes_round U m r v = fold (run_step U m r) (column_steps @ diagonal_steps) v"

text \<open>The loop over the blocks from block \<open>block\<close> on, with the number of blocks to go.\<close>

fun lanes_blocks ::
  "lane_unit \<Rightarrow> byte list list \<Rightarrow> nat \<Rightarrow> nat \<Rightarrow> u32 list \<Rightarrow> u32 list \<Rightarrow> byte \<Rightarrow> byte \<Rightarrow> u32 list list \<Rightarrow> byte
     \<Rightarrow> u32 list list" where
  "lanes_blocks U inputs 0 block lo hi flags flags_end h block_flags = h"
| "lanes_blocks U inputs (Suc n) block lo hi flags flags_end h block_flags =
     (let block_flags = (if n = 0 then block_flags OR flags_end else block_flags);
          m = transpose_msgs U inputs (block * BLAKE3_BLOCK_LEN);
          v = [h ! 0, h ! 1, h ! 2, h ! 3, h ! 4, h ! 5, h ! 6, h ! 7,
               set1 U (IV ! 0), set1 U (IV ! 1), set1 U (IV ! 2), set1 U (IV ! 3),
               lo, hi, set1 U (of_nat BLAKE3_BLOCK_LEN), set1 U (ucast block_flags)];
          v = round_v U m 0 v;
          v = round_v U m 1 v;
          v = round_v U m 2 v;
          v = round_v U m 3 v;
          v = round_v U m 4 v;
          v = round_v U m 5 v;
          v = round_v U m 6 v;
          h = [xorv (ops U) (v ! 0) (v ! 8), xorv (ops U) (v ! 1) (v ! 9), xorv (ops U) (v ! 2) (v ! 10), xorv (ops U) (v ! 3) (v ! 11),
               xorv (ops U) (v ! 4) (v ! 12), xorv (ops U) (v ! 5) (v ! 13), xorv (ops U) (v ! 6) (v ! 14), xorv (ops U) (v ! 7) (v ! 15)]
      in lanes_blocks U inputs n (Suc block) lo hi flags flags_end h flags)"

definition lanes_hash ::
  "lane_unit \<Rightarrow> byte list list \<Rightarrow> nat \<Rightarrow> u32 list \<Rightarrow> u64 \<Rightarrow> bool \<Rightarrow> byte \<Rightarrow> byte \<Rightarrow> byte \<Rightarrow> byte list" where
  "lanes_hash U inputs blocks key counter increment_counter flags flags_start flags_end =
     (case counters U counter increment_counter of (lo, hi) \<Rightarrow>
        store_h U (lanes_blocks U inputs blocks 0 lo hi flags flags_end (map (\<lambda>k. set1 U (key ! k)) [0..<8])
          (flags OR flags_start)))"

text \<open>
  The loops of the \<open>blake3_hash_many\<close> functions: while there are at least \<open>N\<close> inputs, \<open>hash_n\<close> hashes \<open>N\<close> of them
  at once, and the next loop takes the rest; the last loop hashes the inputs one by one with \<open>hash_one\<close>, which
  runs the compression function of its file on block after block. The guard \<open>0 < N\<close> only serves the termination
  proof.
\<close>

type_synonym hash_n = "byte list list \<Rightarrow> nat \<Rightarrow> u32 list \<Rightarrow> u64 \<Rightarrow> bool \<Rightarrow> byte \<Rightarrow> byte \<Rightarrow> byte \<Rightarrow> byte list"
type_synonym hash_1 = "byte list \<Rightarrow> nat \<Rightarrow> u32 list \<Rightarrow> u64 \<Rightarrow> byte \<Rightarrow> byte \<Rightarrow> byte \<Rightarrow> byte list"
type_synonym hash_rest = "byte list list \<Rightarrow> u64 \<Rightarrow> byte list"

function degree_loop ::
  "hash_n \<Rightarrow> nat \<Rightarrow> nat \<Rightarrow> u32 list \<Rightarrow> bool \<Rightarrow> byte \<Rightarrow> byte \<Rightarrow> byte \<Rightarrow> hash_rest \<Rightarrow> byte list list \<Rightarrow> u64 \<Rightarrow> byte list" where
  "degree_loop hash_n N blocks key increment_counter flags flags_start flags_end rest inputs counter =
     (if 0 < N \<and> N \<le> length inputs
      then hash_n inputs blocks key counter increment_counter flags flags_start flags_end @
           degree_loop hash_n N blocks key increment_counter flags flags_start flags_end rest (drop N inputs)
             (if increment_counter then counter + of_nat N else counter)
      else rest inputs counter)"
  by pat_completeness auto
termination by (relation "measure (\<lambda>(_, _, _, _, _, _, _, _, _, inputs, _). length inputs)") auto

declare degree_loop.simps [simp del]

type_synonym compressor = "u32 list \<Rightarrow> byte list \<Rightarrow> nat \<Rightarrow> u64 \<Rightarrow> byte \<Rightarrow> u32 list"

fun hash_one_blocks :: "compressor \<Rightarrow> byte list \<Rightarrow> nat \<Rightarrow> u64 \<Rightarrow> byte \<Rightarrow> byte \<Rightarrow> u32 list \<Rightarrow> byte \<Rightarrow> u32 list" where
  "hash_one_blocks cip inp 0 counter flags flags_end cv block_flags = cv"
| "hash_one_blocks cip inp (Suc blocks) counter flags flags_end cv block_flags =
     (let block_flags = (if blocks = 0 then block_flags OR flags_end else block_flags)
      in hash_one_blocks cip (drop BLAKE3_BLOCK_LEN inp) blocks counter flags flags_end
           (cip cv (take BLAKE3_BLOCK_LEN inp) BLAKE3_BLOCK_LEN counter block_flags) flags)"

definition hash_one_with :: "compressor \<Rightarrow> hash_1" where
  "hash_one_with cip inp blocks key counter flags flags_start flags_end =
     store_cv_words (hash_one_blocks cip inp blocks counter flags flags_end key (flags OR flags_start))"

fun one_by_one :: "hash_1 \<Rightarrow> nat \<Rightarrow> u32 list \<Rightarrow> bool \<Rightarrow> byte \<Rightarrow> byte \<Rightarrow> byte \<Rightarrow> hash_rest" where
  "one_by_one hash_one blocks key increment_counter flags flags_start flags_end [] counter = []"
| "one_by_one hash_one blocks key increment_counter flags flags_start flags_end (inp # inputs) counter =
     hash_one inp blocks key counter flags flags_start flags_end @
     one_by_one hash_one blocks key increment_counter flags flags_start flags_end inputs
       (if increment_counter then counter + 1 else counter)"

section \<open>The portable loops\<close>

lemma hash_one_blocks_portable:
  "hash_one_blocks blake3_compress_in_place_portable inp n c flags fe cv bf = hash_one_loop inp n c flags fe cv bf"
  by (induction n arbitrary: inp cv bf) (simp_all add: Let_def)

lemma one_by_one_portable:
  "one_by_one (hash_one_with blake3_compress_in_place_portable) blocks key inc flags fs fe inputs c =
     blake3_hash_many_portable inputs blocks key c inc flags fs fe"
  by (induction inputs arbitrary: c) (simp_all add: hash_one_with_def hash_one_portable_def hash_one_blocks_portable)

lemma hash_many_append:
  "blake3_hash_many_portable (xs @ ys) blocks key c inc flags fs fe =
     blake3_hash_many_portable xs blocks key c inc flags fs fe @
     blake3_hash_many_portable ys blocks key (if inc then c + of_nat (length xs) else c) inc flags fs fe"
  by (induction xs arbitrary: c) (simp_all add: add.assoc)

lemma hash_many_concat:
  "blake3_hash_many_portable xs blocks key c inc flags fs fe =
     concat (map (\<lambda>i. hash_one_portable (xs ! i) blocks key (if inc then c + of_nat i else c) flags fs fe) [0..<length xs])"
proof (induction xs rule: rev_induct)
  case (snoc x xs)
  then show ?case
    by (simp add: hash_many_append) (intro arg_cong [where f = concat] map_cong refl, simp add: nth_append)
qed simp

text \<open>Only the eight words of a chaining value are read.\<close>

lemma compress_pre_eight:
  "compress_pre (map (\<lambda>k. cv ! k) [0..<8]) block block_len c flags = compress_pre cv block block_len c flags"
  by (simp add: compress_pre_def numeral_2_eq_2)

lemma in_place_eight:
  "blake3_compress_in_place_portable (map (\<lambda>k. cv ! k) [0..<8]) block block_len c flags =
     blake3_compress_in_place_portable cv block block_len c flags"
  by (simp only: blake3_compress_in_place_portable_def compress_pre_eight)

lemma hash_one_loop_eight:
  "store_cv_words (hash_one_loop inp n c flags fe (map (\<lambda>k. cv ! k) [0..<8]) bf) =
     store_cv_words (hash_one_loop inp n c flags fe cv bf)"
proof (cases n)
  case 0
  then show ?thesis by (simp add: store_cv_words_def) (intro arg_cong [where f = concat] map_cong refl, simp)
next
  case (Suc m)
  then show ?thesis by (simp only: hash_one_loop.simps Let_def in_place_eight)
qed

section \<open>One lane\<close>

fun scalar_step :: "u32 list \<Rightarrow> lane_step \<Rightarrow> u32 list \<Rightarrow> u32 list" where
  "scalar_step xs (Add_msg k j) v = v[k := v ! k + xs ! j]"
| "scalar_step xs (Add k l) v = v[k := v ! k + v ! l]"
| "scalar_step xs (Xor k l) v = v[k := v ! k XOR v ! l]"
| "scalar_step xs (Rot16 k) v = v[k := rotr32 (v ! k) 16]"
| "scalar_step xs (Rot12 k) v = v[k := rotr32 (v ! k) 12]"
| "scalar_step xs (Rot8 k) v = v[k := rotr32 (v ! k) 8]"
| "scalar_step xs (Rot7 k) v = v[k := rotr32 (v ! k) 7]"

lemma column_scalar:
  "fold (scalar_step xs) column_steps [a0, a1, a2, a3, b0, b1, b2, b3, c0, c1, c2, c3, d0, d1, d2, d3] =
     [qa a0 b0 c0 d0 (xs ! 0) (xs ! 1), qa a1 b1 c1 d1 (xs ! 2) (xs ! 3), qa a2 b2 c2 d2 (xs ! 4) (xs ! 5), qa a3 b3 c3 d3 (xs ! 6) (xs ! 7),
      qb a0 b0 c0 d0 (xs ! 0) (xs ! 1), qb a1 b1 c1 d1 (xs ! 2) (xs ! 3), qb a2 b2 c2 d2 (xs ! 4) (xs ! 5), qb a3 b3 c3 d3 (xs ! 6) (xs ! 7),
      qc a0 b0 c0 d0 (xs ! 0) (xs ! 1), qc a1 b1 c1 d1 (xs ! 2) (xs ! 3), qc a2 b2 c2 d2 (xs ! 4) (xs ! 5), qc a3 b3 c3 d3 (xs ! 6) (xs ! 7),
      qd a0 b0 c0 d0 (xs ! 0) (xs ! 1), qd a1 b1 c1 d1 (xs ! 2) (xs ! 3), qd a2 b2 c2 d2 (xs ! 4) (xs ! 5), qd a3 b3 c3 d3 (xs ! 6) (xs ! 7)]"
  by (simp add: column_steps_def quarter_defs Let_def ac_simps)

lemma diagonal_scalar:
  "fold (scalar_step xs) diagonal_steps [a0, a1, a2, a3, b0, b1, b2, b3, c0, c1, c2, c3, d0, d1, d2, d3] =
     [qa a0 b1 c2 d3 (xs ! 8) (xs ! 9), qa a1 b2 c3 d0 (xs ! 10) (xs ! 11), qa a2 b3 c0 d1 (xs ! 12) (xs ! 13), qa a3 b0 c1 d2 (xs ! 14) (xs ! 15),
      qb a3 b0 c1 d2 (xs ! 14) (xs ! 15), qb a0 b1 c2 d3 (xs ! 8) (xs ! 9), qb a1 b2 c3 d0 (xs ! 10) (xs ! 11), qb a2 b3 c0 d1 (xs ! 12) (xs ! 13),
      qc a2 b3 c0 d1 (xs ! 12) (xs ! 13), qc a3 b0 c1 d2 (xs ! 14) (xs ! 15), qc a0 b1 c2 d3 (xs ! 8) (xs ! 9), qc a1 b2 c3 d0 (xs ! 10) (xs ! 11),
      qd a1 b2 c3 d0 (xs ! 10) (xs ! 11), qd a2 b3 c0 d1 (xs ! 12) (xs ! 13), qd a3 b0 c1 d2 (xs ! 14) (xs ! 15), qd a0 b1 c2 d3 (xs ! 8) (xs ! 9)]"
  by (simp add: diagonal_steps_def quarter_defs Let_def ac_simps)

lemma scalar_round:
  assumes "length st = 16"
  shows "fold (scalar_step (scheduled r msg)) (column_steps @ diagonal_steps) st = round_fn msg r st"
proof -
  let ?xs = "scheduled r msg"
  obtain a0 a1 a2 a3 b0 b1 b2 b3 c0 c1 c2 c3 d0 d1 d2 d3 where
    st: "st = [a0, a1, a2, a3, b0, b1, b2, b3, c0, c1, c2, c3, d0, d1, d2, d3]" using list16 [OF assms] by blast
  have xs: "?xs = [?xs ! 0, ?xs ! 1, ?xs ! 2, ?xs ! 3, ?xs ! 4, ?xs ! 5, ?xs ! 6, ?xs ! 7, ?xs ! 8, ?xs ! 9, ?xs ! 10,
      ?xs ! 11, ?xs ! 12, ?xs ! 13, ?xs ! 14, ?xs ! 15]"
    by (simp add: scheduled_def upt_conv_Cons)
  have "mix ?xs st = mix [?xs ! 0, ?xs ! 1, ?xs ! 2, ?xs ! 3, ?xs ! 4, ?xs ! 5, ?xs ! 6, ?xs ! 7, ?xs ! 8, ?xs ! 9, ?xs ! 10,
      ?xs ! 11, ?xs ! 12, ?xs ! 13, ?xs ! 14, ?xs ! 15] st"
    using xs by (rule arg_cong)
  then show ?thesis
    unfolding round_fn_mix st mix_explicit Let_def fold_append comp_apply column_scalar diagonal_scalar by (rule sym)
qed

definition lane :: "nat \<Rightarrow> u32 list list \<Rightarrow> u32 list" where
  "lane i v = map (\<lambda>x. x ! i) v"

lemma lane_list_simps [simp]:
  "lane i [] = []" "lane i (x # v) = x ! i # lane i v" "length (lane i v) = length v"
  "k < length v \<Longrightarrow> lane i v ! k = v ! k ! i" "lane i (v[k := x]) = (lane i v)[k := x ! i]"
  by (simp_all add: lane_def map_update)

definition of_width :: "nat \<Rightarrow> u32 list list \<Rightarrow> bool" where
  "of_width N v \<longleftrightarrow> (\<forall>x\<in>set v. length x = N)"

lemma of_width_nth: "of_width N v \<Longrightarrow> k < length v \<Longrightarrow> length (v ! k) = N"
  by (simp add: of_width_def)

lemma of_width_update: "of_width N v \<Longrightarrow> length x = N \<Longrightarrow> of_width N (v[k := x])"
  by (auto simp: of_width_def dest: set_update_cases)

text \<open>The vectors that the steps touch.\<close>

fun step_fits :: "lane_step \<Rightarrow> bool" where
  "step_fits (Add_msg k j) \<longleftrightarrow> k < 16 \<and> j < 16"
| "step_fits (Add k l) \<longleftrightarrow> k < 16 \<and> l < 16"
| "step_fits (Xor k l) \<longleftrightarrow> k < 16 \<and> l < 16"
| "step_fits (Rot16 k) \<longleftrightarrow> k < 16"
| "step_fits (Rot12 k) \<longleftrightarrow> k < 16"
| "step_fits (Rot8 k) \<longleftrightarrow> k < 16"
| "step_fits (Rot7 k) \<longleftrightarrow> k < 16"

lemma steps_fit: "\<forall>s\<in>set (column_steps @ diagonal_steps). step_fits s"
  by (simp add: column_steps_def diagonal_steps_def)

lemma schedule_bound:
  assumes "r < 7" "j < 16"
  shows "MSG_SCHEDULE ! r ! j < 16"
proof -
  have all: "length MSG_SCHEDULE = 7" "\<forall>row\<in>set MSG_SCHEDULE. length row = 16 \<and> (\<forall>x\<in>set row. x < 16)"
    by (simp_all add: MSG_SCHEDULE_def)
  have "MSG_SCHEDULE ! r \<in> set MSG_SCHEDULE" using assms(1) all(1) by (intro nth_mem) simp
  with all(2) have "length (MSG_SCHEDULE ! r) = 16" "\<forall>x\<in>set (MSG_SCHEDULE ! r). x < 16" by blast+
  then show ?thesis using assms(2) by simp
qed

section \<open>What the files have to provide\<close>

locale lane_kernel =
  fixes U :: lane_unit and N :: nat
  assumes add: "addv (ops U) a b = map2 (+) a b"
    and xor: "xorv (ops U) a b = map2 (XOR) a b"
    and rots: "length v = N \<Longrightarrow> rot16 (ops U) v = map (\<lambda>w. rotr32 w 16) v"
      "length v = N \<Longrightarrow> rot12 (ops U) v = map (\<lambda>w. rotr32 w 12) v"
      "length v = N \<Longrightarrow> rot8 (ops U) v = map (\<lambda>w. rotr32 w 8) v"
      "length v = N \<Longrightarrow> rot7 (ops U) v = map (\<lambda>w. rotr32 w 7) v"
    and rounds: "round_v U = lanes_round (ops U)"
    and set1: "set1 U w = replicate N w"
    and msgs: "N \<le> length inputs \<Longrightarrow> transpose_msgs U inputs off =
      map (\<lambda>k. map (\<lambda>i. load32 (drop (4 * k) (take 64 (drop off (inputs ! i))))) [0..<N]) [0..<16]"
    and counts: "counters U c inc =
      (map (\<lambda>i. counter_low (if inc then c + of_nat i else c)) [0..<N],
       map (\<lambda>i. counter_high (if inc then c + of_nat i else c)) [0..<N])"
    and stores: "length h = 8 \<Longrightarrow> of_width N h \<Longrightarrow> store_h U h = concat (map (\<lambda>i. store_cv_words (lane i h)) [0..<N])"
begin

lemma run_step_lane:
  assumes "step_fits s" "length v = 16" "of_width N v" "length m = 16" "of_width N m" "r < 7"
  shows "length (run_step (ops U) m r s v) = 16 \<and> of_width N (run_step (ops U) m r s v) \<and>
    (i < N \<longrightarrow> lane i (run_step (ops U) m r s v) = scalar_step (scheduled r (lane i m)) s (lane i v))"
  using assms
  by (cases s)
    (auto simp: add xor rots of_width_nth schedule_bound intro!: of_width_update)

lemma run_steps_lane:
  assumes "\<forall>s\<in>set ss. step_fits s" "length v = 16" "of_width N v" "length m = 16" "of_width N m" "r < 7"
  shows "length (fold (run_step (ops U) m r) ss v) = 16 \<and> of_width N (fold (run_step (ops U) m r) ss v) \<and>
    (i < N \<longrightarrow> lane i (fold (run_step (ops U) m r) ss v) = fold (scalar_step (scheduled r (lane i m))) ss (lane i v))"
  using assms(1,2,3)
proof (induction ss arbitrary: v)
  case (Cons s ss)
  from run_step_lane [of s v m r i] Cons.prems assms(4-6) Cons.IH [of "run_step (ops U) m r s v"]
  show ?case by simp
qed simp

lemma lanes_round_lane:
  assumes "length v = 16" "of_width N v" "length m = 16" "of_width N m" "r < 7"
  shows "length (lanes_round (ops U) m r v) = 16 \<and> of_width N (lanes_round (ops U) m r v) \<and>
    (i < N \<longrightarrow> lane i (lanes_round (ops U) m r v) = round_fn (lane i m) r (lane i v))"
  using run_steps_lane [OF steps_fit assms, of i] scalar_round [of "lane i v" r "lane i m"] assms(1)
  by (simp add: lanes_round_def)

lemma rounds_lane:
  assumes "\<forall>r\<in>set rs. r < 7" "length v = 16" "of_width N v" "length m = 16" "of_width N m"
  shows "length (fold (lanes_round (ops U) m) rs v) = 16 \<and> of_width N (fold (lanes_round (ops U) m) rs v) \<and>
    (i < N \<longrightarrow> lane i (fold (lanes_round (ops U) m) rs v) = fold (round_fn (lane i m)) rs (lane i v))"
  using assms(1,2,3)
proof (induction rs arbitrary: v)
  case (Cons r rs)
  from lanes_round_lane [of v m r i] Cons.prems assms(4,5) Cons.IH [of "lanes_round (ops U) m r v"]
  show ?case by simp
qed simp

lemma message_lane:
  assumes "N \<le> length inputs"
  shows "length (transpose_msgs U inputs off) = 16" "of_width N (transpose_msgs U inputs off)"
    and "i < N \<Longrightarrow> lane i (transpose_msgs U inputs off) =
      map (\<lambda>k. load32 (drop (4 * k) (take 64 (drop off (inputs ! i))))) [0..<16]"
  by (auto simp: msgs [OF assms] of_width_def lane_def)

text \<open>One block: the chaining vectors \<open>h\<close> of the loop after it.\<close>

definition next_h :: "u32 list list \<Rightarrow> u32 list \<Rightarrow> u32 list \<Rightarrow> byte \<Rightarrow> u32 list list \<Rightarrow> u32 list list" where
  "next_h m lo hi block_flags h =
     (let v = fold (lanes_round (ops U) m) [0, 1, 2, 3, 4, 5, 6]
            [h ! 0, h ! 1, h ! 2, h ! 3, h ! 4, h ! 5, h ! 6, h ! 7,
             set1 U (IV ! 0), set1 U (IV ! 1), set1 U (IV ! 2), set1 U (IV ! 3),
             lo, hi, set1 U (of_nat BLAKE3_BLOCK_LEN), set1 U (ucast block_flags)]
      in [xorv (ops U) (v ! 0) (v ! 8), xorv (ops U) (v ! 1) (v ! 9), xorv (ops U) (v ! 2) (v ! 10), xorv (ops U) (v ! 3) (v ! 11),
          xorv (ops U) (v ! 4) (v ! 12), xorv (ops U) (v ! 5) (v ! 13), xorv (ops U) (v ! 6) (v ! 14), xorv (ops U) (v ! 7) (v ! 15)])"

lemma lanes_blocks_next:
  "lanes_blocks U inputs (Suc n) block lo hi flags flags_end h block_flags =
     lanes_blocks U inputs n (Suc block) lo hi flags flags_end
       (next_h (transpose_msgs U inputs (block * BLAKE3_BLOCK_LEN)) lo hi
         (if n = 0 then block_flags OR flags_end else block_flags) h) flags"
  unfolding next_h_def lanes_blocks.simps Let_def rounds by (simp only: fold_simps)

lemma next_h_lane:
  assumes "N \<le> length inputs" "length h = 8" "of_width N h" "length lo = N" "length hi = N"
    and "\<And>i. i < N \<Longrightarrow> lo ! i = counter_low (c i) \<and> hi ! i = counter_high (c i)"
  shows "length (next_h (transpose_msgs U inputs off) lo hi bf h) = 8 \<and>
    of_width N (next_h (transpose_msgs U inputs off) lo hi bf h) \<and>
    (i < N \<longrightarrow> lane i (next_h (transpose_msgs U inputs off) lo hi bf h) =
      blake3_compress_in_place_portable (lane i h) (take 64 (drop off (inputs ! i))) BLAKE3_BLOCK_LEN (c i) bf)"
proof -
  let ?m = "transpose_msgs U inputs off" and ?rs = "[0, 1, 2, 3, 4, 5, 6 :: nat]"
  let ?v = "[h ! 0, h ! 1, h ! 2, h ! 3, h ! 4, h ! 5, h ! 6, h ! 7,
    set1 U (IV ! 0), set1 U (IV ! 1), set1 U (IV ! 2), set1 U (IV ! 3),
    lo, hi, set1 U (of_nat BLAKE3_BLOCK_LEN), set1 U (ucast bf)]"
  have v: "length ?v = 16" "of_width N ?v"
    using assms(2-5) by (simp_all add: set1 of_width_def)
  define w where "w = fold (lanes_round (ops U) ?m) ?rs ?v"
  have w: "length w = 16" "of_width N w" "i < N \<Longrightarrow> lane i w = fold (round_fn (lane i ?m)) ?rs (lane i ?v)" for i
    using rounds_lane [of ?rs ?v ?m i, OF _ v message_lane(1,2) [OF assms(1)]] by (simp_all add: w_def)
  have l: "k < 16 \<Longrightarrow> length (w ! k) = N" for k using w(1,2) of_width_nth by simp
  have h: "next_h ?m lo hi bf h =
     [map2 (XOR) (w ! 0) (w ! 8), map2 (XOR) (w ! 1) (w ! 9), map2 (XOR) (w ! 2) (w ! 10), map2 (XOR) (w ! 3) (w ! 11),
      map2 (XOR) (w ! 4) (w ! 12), map2 (XOR) (w ! 5) (w ! 13), map2 (XOR) (w ! 6) (w ! 14), map2 (XOR) (w ! 7) (w ! 15)]"
    unfolding next_h_def w_def [symmetric] Let_def xor by simp
  have "lane i (next_h ?m lo hi bf h) =
      blake3_compress_in_place_portable (lane i h) (take 64 (drop off (inputs ! i))) BLAKE3_BLOCK_LEN (c i) bf" if i: "i < N"
  proof -
    have x: "\<And>k. k < 16 \<Longrightarrow> w ! k ! i = lane i w ! k" using w(1) by simp
    have iv: "lane i ?v = [lane i h ! 0, lane i h ! 1, lane i h ! 2, lane i h ! 3, lane i h ! 4, lane i h ! 5, lane i h ! 6,
        lane i h ! 7, IV ! 0, IV ! 1, IV ! 2, IV ! 3, counter_low (c i), counter_high (c i), of_nat BLAKE3_BLOCK_LEN, ucast bf]"
      using assms(2,6) i by (simp add: set1)
    have "compress_pre (lane i h) (take 64 (drop off (inputs ! i))) BLAKE3_BLOCK_LEN (c i) bf = lane i w"
      unfolding w(3) [OF i] iv message_lane(3) [OF assms(1) i] compress_pre_def Let_def by (simp only: fold_simps)
    then show ?thesis
      unfolding blake3_compress_in_place_portable_def Let_def h using i by (simp add: l x del: lane_list_simps(4))
  qed
  then show ?thesis by (simp add: h of_width_def l)
qed

lemma lanes_blocks_lane:
  assumes "N \<le> length inputs" "length h = 8" "of_width N h" "length lo = N" "length hi = N"
    and "\<And>i. i < N \<Longrightarrow> lo ! i = counter_low (c i) \<and> hi ! i = counter_high (c i)"
  shows "length (lanes_blocks U inputs n block lo hi flags flags_end h bf) = 8 \<and>
    of_width N (lanes_blocks U inputs n block lo hi flags flags_end h bf) \<and>
    (i < N \<longrightarrow> lane i (lanes_blocks U inputs n block lo hi flags flags_end h bf) =
      hash_one_loop (drop (block * 64) (inputs ! i)) n (c i) flags flags_end (lane i h) bf)"
  using assms(2,3)
proof (induction n arbitrary: block h bf)
  case (Suc n)
  note nh = next_h_lane [OF assms(1) Suc.prems assms(4-6)]
  show ?case
    unfolding lanes_blocks_next using nh Suc.IH by (auto simp: BLAKE3_BLOCK_LEN_def Let_def add.commute)
qed simp

lemma lanes_hash_portable:
  assumes "N \<le> length inputs"
  shows "lanes_hash U inputs blocks key c inc flags fs fe = blake3_hash_many_portable (take N inputs) blocks key c inc flags fs fe"
proof -
  let ?c = "\<lambda>i. if inc then c + of_nat i else c" and ?h = "map (\<lambda>k. set1 U (key ! k)) [0..<8]"
  let ?lo = "map (\<lambda>i. counter_low (?c i)) [0..<N]" and ?hi = "map (\<lambda>i. counter_high (?c i)) [0..<N]"
  let ?r = "lanes_blocks U inputs blocks 0 ?lo ?hi flags fe ?h (flags OR fs)"
  have h: "length ?h = 8" "of_width N ?h" by (simp_all add: of_width_def set1)
  have r: "length ?r = 8" "of_width N ?r" "i < N \<Longrightarrow> lane i ?r = hash_one_loop (inputs ! i) blocks (?c i) flags fe (lane i ?h) (flags OR fs)" for i
    using lanes_blocks_lane [OF assms h, of ?lo ?hi ?c blocks 0 flags fe "flags OR fs" i] by simp_all
  have "lane i ?h = map (\<lambda>k. key ! k) [0..<8]" if "i < N" for i
    using that by (simp add: lane_def set1)
  then have key: "store_cv_words (hash_one_loop inp blocks d flags fe (lane i ?h) bf) =
      store_cv_words (hash_one_loop inp blocks d flags fe key bf)" if "i < N" for i inp d bf
    using that by (simp only: hash_one_loop_eight)
  have "lanes_hash U inputs blocks key c inc flags fs fe = store_h U ?r" by (simp add: lanes_hash_def counts)
  also have "\<dots> = concat (map (\<lambda>i. store_cv_words (lane i ?r)) [0..<N])" by (rule stores [OF r(1,2)])
  also have "\<dots> = concat (map (\<lambda>i. hash_one_portable (inputs ! i) blocks key (?c i) flags fs fe) [0..<N])"
    by (intro arg_cong [where f = concat] map_cong refl) (simp add: r(3) key hash_one_portable_def del: lane_list_simps)
  also have "\<dots> = blake3_hash_many_portable (take N inputs) blocks key c inc flags fs fe"
    using assms by (simp add: hash_many_concat min_absorb2) (intro arg_cong [where f = concat] map_cong refl, simp)
  finally show ?thesis .
qed

lemma degree_loop_portable:
  assumes "0 < N" "\<And>inputs c. rest inputs c = blake3_hash_many_portable inputs blocks key c inc flags fs fe"
  shows "degree_loop (lanes_hash U) N blocks key inc flags fs fe rest inputs c = blake3_hash_many_portable inputs blocks key c inc flags fs fe"
proof (induction "length inputs" arbitrary: inputs c rule: less_induct)
  case less
  show ?case
  proof (cases "N \<le> length inputs")
    case True
    then have "blake3_hash_many_portable inputs blocks key c inc flags fs fe =
        blake3_hash_many_portable (take N inputs) blocks key c inc flags fs fe @
        blake3_hash_many_portable (drop N inputs) blocks key (if inc then c + of_nat N else c) inc flags fs fe"
      using hash_many_append [of "take N inputs" "drop N inputs"] by (simp add: min_absorb2)
    then show ?thesis
      using True assms(1) less [of "drop N inputs"]
      by (subst degree_loop.simps) (simp add: lanes_hash_portable [OF True])
  qed (use assms(2) in \<open>subst degree_loop.simps, simp\<close>)
qed

end

end
