(* ===== verification/Blake3_Counters.thy ===== *)
theory Blake3_Counters
  imports Intrinsics
begin

text \<open>
  The counters of the lanes in the vector kernels of blake3_sse2.c, blake3_sse41.c, blake3_avx2.c and
  blake3_avx512.c: lane \<open>i\<close> hashes with counter + i, and the kernels compute its low and high words with the
  carry between them in three ways.
\<close>

section \<open>Counters\<close>

text \<open>The low and the high word of \<open>counter + i\<close>, without and with a carry.\<close>

lemma unat_counter: "unat (counter_low c) = unat c mod 2 ^ 32" "unat (counter_high c) = unat c div 2 ^ 32"
proof -
  have c: "unat c < 2 ^ 64" using unsigned_less [of c, where 'a = nat] by simp
  show "unat (counter_low c) = unat c mod 2 ^ 32"
    unfolding counter_low_def by (simp add: unsigned_ucast_eq take_bit_eq_mod)
  have "unat c div 2 ^ 32 < 2 ^ 32" using c by (simp add: less_mult_imp_div_less)
  moreover have "unat (drop_bit 32 c) = unat c div 2 ^ 32" by (simp add: drop_bit_eq_div unat_div)
  ultimately show "unat (counter_high c) = unat c div 2 ^ 32"
    unfolding counter_high_def unsigned_ucast_eq take_bit_eq_mod by simp
qed

lemma unat_add_of_nat: "unat (w + of_nat i :: 'a::len word) = (unat w + i) mod 2 ^ LENGTH('a)"
  by (simp add: unat_word_ariths unat_of_nat take_bit_eq_mod mod_simps)

lemma counter_low_add: "counter_low (c + of_nat i) = counter_low c + of_nat i"
proof (rule iffD2 [OF word_unat_eq_iff])
  have "unat (counter_low (c + of_nat i)) = (unat c + i) mod 2 ^ 64 mod 2 ^ 32"
    unfolding unat_counter unat_add_of_nat by simp
  also have "\<dots> = (unat c + i) mod 2 ^ 32" by (rule mod_mod_cancel) (simp add: le_imp_power_dvd)
  also have "\<dots> = unat (counter_low c + of_nat i)"
    unfolding unat_counter unat_add_of_nat by (simp add: mod_simps)
  finally show "unat (counter_low (c + of_nat i)) = unat (counter_low c + of_nat i)" .
qed

lemma wrapped_less: "m < k \<Longrightarrow> i < k \<Longrightarrow> (m + i) mod k < i \<longleftrightarrow> k \<le> m + i" for m i k :: nat
  by (cases "k \<le> m + i") (simp_all add: le_mod_geq)

lemma wrapped_div: "i < k \<Longrightarrow> (n + i) div k = n div k + (if k \<le> n mod k + i then 1 else 0)" for n i k :: nat
proof -
  assume i: "i < k"
  then have m: "n mod k < k" by simp
  have "(n + i) div k = n div k + (n mod k + i) div k" using i by (simp add: div_add1_eq [of n i])
  moreover have "(n mod k + i) div k = (if k \<le> n mod k + i then 1 else 0)"
    using i m add_less_mono [OF m i] by (cases "k \<le> n mod k + i") (simp_all add: le_div_geq div_less)
  ultimately show ?thesis by simp
qed

lemma counter_high_add:
  assumes "i < 2 ^ 32"
  shows "counter_high (c + of_nat i) = counter_high c + (if counter_low c + of_nat i < of_nat i then 1 else 0)"
proof (rule iffD2 [OF word_unat_eq_iff])
  define n k :: nat where "n = unat c" and "k = 2 ^ 32"
  have k: "0 < k" "i < k" "2 ^ 64 = k * k" using assms by (simp_all add: k_def)
  have i: "unat (of_nat i :: u32) = i" using assms by (simp add: unat_of_nat take_bit_nat_eq_self)
  have carry: "counter_low c + of_nat i < (of_nat i :: u32) \<longleftrightarrow> k \<le> n mod k + i"
    unfolding word_less_nat_alt i unat_add_of_nat unat_counter
    using wrapped_less [of "n mod k" k i] k by (simp add: n_def k_def)
  have "unat (counter_high (c + of_nat i)) = (n + i) mod (k * k) div k"
    unfolding unat_counter unat_add_of_nat by (simp add: n_def k_def)
  also have "\<dots> = (n + i) div k mod k" using k(1) by (simp add: mod_mult2_eq)
  also have "\<dots> = (n div k + (if k \<le> n mod k + i then 1 else 0)) mod k" by (simp only: wrapped_div [OF k(2)])
  also have "\<dots> = unat (counter_high c + (if counter_low c + of_nat i < of_nat i then 1 else 0))"
    unfolding carry by (simp add: unat_word_ariths unat_counter n_def k_def)
  finally show "unat (counter_high (c + of_nat i)) =
      unat (counter_high c + (if counter_low c + of_nat i < of_nat i then 1 else 0))" .
qed

lemma sign_split:
  fixes x :: u32
  obtains y :: u32 where "unat y < 2 ^ 31" "x = y + 0x80000000" "x XOR 0x80000000 = y"
    | "unat x < 2 ^ 31" "x XOR 0x80000000 = x + 0x80000000"
proof -
  have "0x80000000 = (push_bit 31 1 :: u32)" by simp
  then have top: "bit (0x80000000 :: u32) n \<longleftrightarrow> n = 31" for n
    by (simp only: bit_push_bit_iff bit_1_iff) auto
  have sum: "z + 0x80000000 = z OR 0x80000000" if "\<not> bit z 31" for z :: u32
    by (rule disjunctive_add) (use that top in metis)
  have small: "unat z < 2 ^ 31" if "\<not> bit z 31" for z :: u32
  proof -
    have "bit (take_bit 31 z) n = bit z n" if "n < LENGTH(32)" for n
      using that \<open>\<not> bit z 31\<close> by (cases "n = 31") (auto simp: bit_simps)
    then have "take_bit 31 z = z" by (rule bit_word_eqI)
    then have "unat z = take_bit 31 (unat z)" by (metis unsigned_take_bit_eq)
    then show ?thesis by (metis take_bit_nat_less_exp)
  qed
  show thesis
  proof (cases "bit x 31")
    case True
    define y where "y = x XOR 0x80000000"
    have y: "\<not> bit y 31" using True unfolding y_def by (simp add: bit_simps top)
    have "y OR 0x80000000 = x"
      unfolding y_def by (rule bit_word_eqI) (simp only: bit_or_iff bit_xor_iff top, use True in metis)
    with sum [OF y] small [OF y] show thesis by (intro that(1) [of y]) (simp_all add: y_def)
  next
    case False
    have "x XOR 0x80000000 = x OR 0x80000000"
      by (rule bit_word_eqI) (simp only: bit_or_iff bit_xor_iff top, use False in metis)
    with sum [OF False] small [OF False] show thesis by (intro that(2)) simp_all
  qed
qed

lemma flip_sign: "sint (a XOR 0x80000000 :: u32) < sint (b XOR 0x80000000 :: u32) \<longleftrightarrow> a < b"
proof -
  have high: "unat (z + 0x80000000) = unat z + 2 ^ 31" if "unat z < 2 ^ 31" for z :: u32
    using that by (simp add: unat_word_ariths)
  have s: "sint (x XOR 0x80000000) = int (unat x) - 2 ^ 31" for x :: u32
    by (rule sign_split [of x]) (simp_all add: sint_u32 high)
  show ?thesis unfolding s word_less_nat_alt by linarith
qed

section \<open>The counters of the lanes\<close>

text \<open>\<open>load_counters\<close> by a signed comparison, on \<open>n\<close> lanes; \<open>add0\<close> is the vector of the numbers of the lanes.\<close>

definition compared_counters :: "nat \<Rightarrow> u32 list \<Rightarrow> u64 \<Rightarrow> bool \<Rightarrow> u32 list \<times> u32 list" where
  "compared_counters n add0 counter increment_counter =
     (let mask = set1_epi32 n (- of_bool increment_counter);
          add1 = and_si mask add0;
          l = add_epi32 (set1_epi32 n (ucast counter)) add1;
          carry = cmpgt_epi32 (xor_si add1 (set1_epi32 n 0x80000000)) (xor_si l (set1_epi32 n 0x80000000));
          h = sub_epi32 (set1_epi32 n (ucast (drop_bit 32 counter))) carry
      in (l, h))"

text \<open>With 64-bit lanes.\<close>

definition wide_counters :: "nat \<Rightarrow> u32 list \<Rightarrow> u64 \<Rightarrow> bool \<Rightarrow> u32 list \<times> u32 list" where
  "wide_counters n deltas counter increment_counter =
     (let mask_vec = set1_epi64 n (if increment_counter then NOT 0 else 0);
          deltas = and_si mask_vec deltas;
          cs = add_epi64 (set1_epi64 n counter) deltas
      in (cvtepi64_epi32 cs, cvtepi64_epi32 (srli_epi64 cs 32)))"

text \<open>By the top bits before and after the addition.\<close>

definition top_bit_counters :: "nat \<Rightarrow> u32 list \<Rightarrow> u64 \<Rightarrow> bool \<Rightarrow> u32 list \<times> u32 list" where
  "top_bit_counters n deltas counter increment_counter =
     (let mask = set1_epi32 n (- of_bool increment_counter);
          masked_deltas = and_si deltas mask;
          low_words = add_epi32 (set1_epi32 n (ucast counter)) masked_deltas;
          carries = srli_epi32 (andnot_si low_words (set1_epi32 n (ucast counter))) 31;
          high_words = add_epi32 (set1_epi32 n (ucast (drop_bit 32 counter))) carries
      in (low_words, high_words))"

definition lane_counters :: "nat \<Rightarrow> u64 \<Rightarrow> bool \<Rightarrow> u32 list \<times> u32 list" where
  "lane_counters n c inc =
     (map (\<lambda>i. counter_low (if inc then c + of_nat i else c)) [0..<n],
      map (\<lambda>i. counter_high (if inc then c + of_nat i else c)) [0..<n])"

lemmas counter_lane_defs = lane_counters_def counter_low_def counter_high_def

lemma low_lanes: "ucast (c + of_nat i) = (ucast c + of_nat i :: u32)" for c :: u64
  using counter_low_add [of c i] by (simp add: counter_low_def)

lemma compared_counters_lanes:
  assumes "n \<le> 2 ^ 32"
  shows "compared_counters n (map of_nat [0..<n]) c inc = lane_counters n c inc"
proof -
  have "ucast (drop_bit 32 (c + of_nat i)) = (ucast (drop_bit 32 c) -
      (if sint ((ucast c + of_nat i) XOR 0x80000000 :: u32) < sint (of_nat i XOR 0x80000000 :: u32) then - 1 else 0) :: u32)"
    if "i < n" for i
    unfolding flip_sign using counter_high_add [of i c] that assms by (simp add: counter_low_def counter_high_def)
  moreover have "\<not> sint (w XOR 0x80000000 :: u32) < - 0x80000000" for w
    using flip_sign [of w 0] by simp
  ultimately show ?thesis
    by (cases inc)
      (auto simp: compared_counters_def Let_def lane_arith counter_lane_defs low_lanes intro!: nth_equalityI)
qed

lemma halves_and: "ucast (x AND y) = (ucast x AND ucast y :: u32)"
    "ucast (drop_bit 32 (x AND y)) = (ucast (drop_bit 32 x) AND ucast (drop_bit 32 y) :: u32)" for x y :: u64
  by (rule bit_word_eqI, auto simp: bit_simps)+

lemma and_of_epi64: "and_si (of_epi64 xs) (of_epi64 ys) = of_epi64 (map2 (AND) xs ys)"
proof (induction xs arbitrary: ys)
  case (Cons x xs)
  then show ?case by (cases ys) (simp_all add: and_si_def of_epi64_def halves_and)
qed (simp add: and_si_def of_epi64_def)

lemma wide_counters_lanes:
  "wide_counters (2 * n) (setr_epi64 (map of_nat [0..<n])) c inc = lane_counters n c inc"
  by (cases inc)
    (auto simp: wide_counters_def Let_def set1_epi64_def setr_epi64_def and_of_epi64 add_epi64_def cvtepi64_epi32_def
      srli_epi64_def counter_lane_defs intro!: nth_equalityI)

lemma top_bit_carry:
  assumes "unat i < 2 ^ 31"
  shows "drop_bit 31 (NOT (l + i) AND l) = (if l + i < i then 1 else 0 :: u32)"
proof -
  have top: "bit w 31 \<longleftrightarrow> 2 ^ 31 \<le> unat w" for w :: u32
  proof -
    define n where "n = unat w"
    have "n < 2 ^ 32" using unsigned_less [of w, where 'a = nat] by (simp add: n_def)
    then have "n div 2 ^ 31 = (if 2 ^ 31 \<le> n then 1 else 0)" by (simp add: le_div_geq)
    then have "bit n 31 \<longleftrightarrow> 2 ^ 31 \<le> n" by (simp add: bit_iff_odd)
    then show ?thesis by (simp add: n_def bit_unsigned_iff)
  qed
  have one: "drop_bit 31 w = of_bool (bit w 31)" for w :: u32
  proof (rule bit_word_eqI)
    show "bit (drop_bit 31 w) n = bit (of_bool (bit w 31)) n" if "n < LENGTH(32)" for n
      using bit_imp_le_length [of w "31 + n"] by (cases n) (auto simp: bit_simps)
  qed
  have "unat (l + i) = (unat l + unat i) mod 2 ^ 32" by (simp add: unat_word_ariths)
  moreover have "unat l < 2 ^ 32" using unsigned_less [of l, where 'a = nat] by simp
  ultimately have "(\<not> 2 ^ 31 \<le> unat (l + i) \<and> 2 ^ 31 \<le> unat l) \<longleftrightarrow> unat (l + i) < unat i"
    using assms by (auto simp: mod_if)
  then have "bit (NOT (l + i) AND l) 31 \<longleftrightarrow> l + i < i"
    unfolding bit_and_iff word_less_nat_alt top [symmetric] by (simp add: bit_not_iff)
  then show ?thesis unfolding one by simp
qed

lemma top_bit_counters_lanes:
  assumes "n \<le> 2 ^ 31"
  shows "top_bit_counters n (map of_nat [0..<n]) c inc = lane_counters n c inc"
proof -
  have "ucast (drop_bit 32 (c + of_nat i)) = (ucast (drop_bit 32 c) +
      drop_bit 31 (NOT (ucast c + of_nat i) AND ucast c) :: u32)"
    if "i < n" for i
  proof -
    have "unat (of_nat i :: u32) < 2 ^ 31" using that assms by (simp add: unat_of_nat take_bit_nat_eq_self)
    from top_bit_carry [OF this] counter_high_add [of i c] that assms
    show ?thesis by (simp add: counter_low_def counter_high_def)
  qed
  then show ?thesis
    by (cases inc)
      (auto simp: top_bit_counters_def Let_def lane_arith counter_lane_defs low_lanes intro!: nth_equalityI)
qed

end
