(* ===== verification/Blake3_Vectors.thy ===== *)
theory Blake3_Vectors
  imports Blake3_Lanes Blake3_Counters
begin

text \<open>
  What the vector kernels of blake3_sse2.c, blake3_sse41.c, blake3_avx2.c and blake3_avx512.c share besides
  rounds and counters: loads, rotations by shuffles, and the transposition of vectors, which turns the
  consecutive words of each input into one vector for each word.
\<close>

section \<open>Rotations\<close>

lemma store32_load32: "store32 (load32 [b0, b1, b2, b3]) = [b0, b1, b2, b3]"
proof -
  have le: "bit b n \<Longrightarrow> n < 8" for b :: byte and n using bit_imp_le_length [of b n] by simp
  have "bit (ucast (drop_bit 0 (load32 [b0, b1, b2, b3])) :: byte) n = bit b0 n"
    "bit (ucast (drop_bit 8 (load32 [b0, b1, b2, b3])) :: byte) n = bit b1 n"
    "bit (ucast (drop_bit 16 (load32 [b0, b1, b2, b3])) :: byte) n = bit b2 n"
    "bit (ucast (drop_bit 24 (load32 [b0, b1, b2, b3])) :: byte) n = bit b3 n" if "n < LENGTH(8)" for n
    using that le [of b0 "8 + n"] le [of b0 "16 + n"] le [of b0 "24 + n"] le [of b1 "8 + n"] le [of b1 "16 + n"] le [of b2 "8 + n"]
    by (auto simp: load32_def bit_simps)
  note b = this
  have "ucast (drop_bit 0 (load32 [b0, b1, b2, b3])) = b0" "ucast (drop_bit 8 (load32 [b0, b1, b2, b3])) = b1"
    "ucast (drop_bit 16 (load32 [b0, b1, b2, b3])) = b2" "ucast (drop_bit 24 (load32 [b0, b1, b2, b3])) = b3"
    by (rule bit_word_eqI, erule b)+
  then show ?thesis by (simp only: store32_def)
qed

lemma bytes_of_words_of: "length bs = 4 * n \<Longrightarrow> bytes_of (words_of bs) = bs"
proof (induction n arbitrary: bs)
  case (Suc n)
  then obtain b0 b1 b2 b3 cs where "bs = b0 # b1 # b2 # b3 # cs" "length cs = 4 * n"
    by (cases bs rule: words_of.cases) auto
  with Suc.IH show ?case by (simp add: bytes_of_def store32_load32)
qed (simp add: bytes_of_def)

lemma load32_rotated:
  "load32 [store32 w ! 2, store32 w ! 3, store32 w ! 0, store32 w ! 1] = rotr32 w 16"
  "load32 [store32 w ! 1, store32 w ! 2, store32 w ! 3, store32 w ! 0] = rotr32 w 8"
proof -
  have le: "bit w n \<Longrightarrow> n < 32" for n using bit_imp_le_length [of w n] by simp
  have "bit (load32 [store32 w ! 2, store32 w ! 3, store32 w ! 0, store32 w ! 1]) n = bit (rotr32 w 16) n"
    "bit (load32 [store32 w ! 1, store32 w ! 2, store32 w ! 3, store32 w ! 0]) n = bit (rotr32 w 8) n"
    if "n < LENGTH(32)" for n
    using that le [of "16 + n"] le [of "8 + n"]
    by (cases "n < 24"; cases "n < 16"; cases "n < 8"; auto simp: load32_def store32_def rotr32_def bit_simps)+
  note b = this
  show "load32 [store32 w ! 2, store32 w ! 3, store32 w ! 0, store32 w ! 1] = rotr32 w 16"
    "load32 [store32 w ! 1, store32 w ! 2, store32 w ! 3, store32 w ! 0] = rotr32 w 8"
    by (rule bit_word_eqI, erule b)+
qed

lemma rotr32_or: "or_si (srli_epi32 v n) (slli_epi32 v (32 - n)) = map (\<lambda>w. rotr32 w n) v"
  by (simp add: lane_arith rotr32_def map2_map_map)

lemma rotr32_xor:
  assumes "n < 32"
  shows "xor_si (srli_epi32 v n) (slli_epi32 v (32 - n)) = map (\<lambda>w. rotr32 w n) v"
proof -
  have "bit (drop_bit n w XOR push_bit (32 - n) w) k = bit (rotr32 w n) k" if "k < LENGTH(32)" for w k
    using that assms bit_imp_le_length [of w "n + k"] by (auto simp: rotr32_def bit_simps)
  then have "drop_bit n w XOR push_bit (32 - n) w = rotr32 w n" for w by (rule bit_word_eqI)
  then show ?thesis by (simp add: lane_arith map2_map_map)
qed

lemma ror_rotr32: "n < 32 \<Longrightarrow> ror_epi32 v n = map (\<lambda>w. rotr32 w n) v"
proof -
  assume n: "n < 32"
  have "bit (word_rotr n w) k = bit (rotr32 w n) k" if "k < LENGTH(32)" for w :: u32 and k
    using that n bit_imp_le_length [of w "n + k"]
    by (cases "n + k < 32") (auto simp: rotr32_def bit_simps le_mod_geq add.commute [of k n])
  then have "word_rotr n w = rotr32 w n" for w by (rule bit_word_eqI)
  then show ?thesis by (simp add: ror_epi32_def)
qed

definition rot16_mask :: "byte list" where "rot16_mask = [13, 12, 15, 14, 9, 8, 11, 10, 5, 4, 7, 6, 1, 0, 3, 2]"
definition rot8_mask :: "byte list" where "rot8_mask = [12, 15, 14, 13, 8, 11, 10, 9, 4, 7, 6, 5, 0, 3, 2, 1]"

lemma bytes_of_4_words: "bytes_of [a, b, c, d] = [store32 a ! 0, store32 a ! 1, store32 a ! 2, store32 a ! 3,
    store32 b ! 0, store32 b ! 1, store32 b ! 2, store32 b ! 3, store32 c ! 0, store32 c ! 1, store32 c ! 2, store32 c ! 3,
    store32 d ! 0, store32 d ! 1, store32 d ! 2, store32 d ! 3]"
  by (simp add: bytes_of_def store32_def numeral_eq_Suc)

lemma shuffle_masks:
  "shuffle_epi8_128 [a, b, c, d] (words_of (rev rot16_mask)) = [rotr32 a 16, rotr32 b 16, rotr32 c 16, rotr32 d 16]"
  "shuffle_epi8_128 [a, b, c, d] (words_of (rev rot8_mask)) = [rotr32 a 8, rotr32 b 8, rotr32 c 8, rotr32 d 8]"
proof -
  have m: "bytes_of (words_of (rev rot16_mask)) = rev rot16_mask" "bytes_of (words_of (rev rot8_mask)) = rev rot8_mask"
    by (rule bytes_of_words_of [where n = 4], simp add: rot16_mask_def rot8_mask_def)+
  show "shuffle_epi8_128 [a, b, c, d] (words_of (rev rot16_mask)) = [rotr32 a 16, rotr32 b 16, rotr32 c 16, rotr32 d 16]"
    unfolding shuffle_epi8_128_def m bytes_of_4_words
    by (simp add: rot16_mask_def bit_numeral_word_iff flip: load32_rotated)
  show "shuffle_epi8_128 [a, b, c, d] (words_of (rev rot8_mask)) = [rotr32 a 8, rotr32 b 8, rotr32 c 8, rotr32 d 8]"
    unfolding shuffle_epi8_128_def m bytes_of_4_words
    by (simp add: rot8_mask_def flip: load32_rotated)
qed

lemma shuffle_rot16_4: "length v = 4 \<Longrightarrow> shuffle_epi8 v (set_epi8 rot16_mask) = map (\<lambda>w. rotr32 w 16) v"
proof -
  assume "length v = 4"
  from list4 [OF this] obtain a b c d where v: "v = [a, b, c, d]" by blast
  have l: "lanes128 (words_of (rev rot16_mask)) = [words_of (rev rot16_mask)]" by (simp add: rot16_mask_def)
  show ?thesis by (simp add: v shuffle_epi8_def per128_def set_epi8_def l shuffle_masks)
qed

lemma shuffle_rot8_4: "length v = 4 \<Longrightarrow> shuffle_epi8 v (set_epi8 rot8_mask) = map (\<lambda>w. rotr32 w 8) v"
proof -
  assume "length v = 4"
  from list4 [OF this] obtain a b c d where v: "v = [a, b, c, d]" by blast
  have l: "lanes128 (words_of (rev rot8_mask)) = [words_of (rev rot8_mask)]" by (simp add: rot8_mask_def)
  show ?thesis by (simp add: v shuffle_epi8_def per128_def set_epi8_def l shuffle_masks)
qed

section \<open>Loads\<close>

text \<open>\<open>loadu\<close> of a vector of \<open>n\<close> lanes; a word of a block is where the portable code reads it.\<close>

definition loadu :: "nat \<Rightarrow> byte list \<Rightarrow> u32 list" where
  "loadu n src = map (\<lambda>i. load32 (drop (4 * i) src)) [0..<n]"

lemma loadu_128_loadu: "loadu_128 src = loadu 4 src"
  by (simp add: loadu_128_def loadu_def)

definition block_word :: "byte list list \<Rightarrow> nat \<Rightarrow> nat \<Rightarrow> nat \<Rightarrow> u32" where
  "block_word inputs off i k = load32 (drop (4 * k) (take 64 (drop off (inputs ! i))))"

lemma load32_take: "4 \<le> n \<Longrightarrow> load32 (take n bs) = load32 bs"
  by (simp add: load32_def)

lemma loadu_block:
  assumes "q + n \<le> 16"
  shows "loadu n (drop (off + 4 * q) (inputs ! i)) = map (\<lambda>k. block_word inputs off i (q + k)) [0..<n]"
proof (rule nth_equalityI)
  fix k assume "k < length (loadu n (drop (off + 4 * q) (inputs ! i)))"
  then have k: "k < n" by (simp add: loadu_def)
  have "block_word inputs off i (q + k) = load32 (take (64 - 4 * (q + k)) (drop (off + 4 * q + 4 * k) (inputs ! i)))"
    by (simp add: block_word_def drop_take algebra_simps)
  also have "\<dots> = load32 (drop (off + 4 * q + 4 * k) (inputs ! i))"
    by (rule load32_take) (use assms k in presburger)
  finally show "loadu n (drop (off + 4 * q) (inputs ! i)) ! k = map (\<lambda>k. block_word inputs off i (q + k)) [0..<n] ! k"
    using k by (simp add: loadu_def algebra_simps)
qed (simp add: loadu_def)

section \<open>Transposition\<close>

definition transpose_vecs_128 :: "u32 list list \<Rightarrow> u32 list list" where
  "transpose_vecs_128 vecs =
     (let ab_01 = unpacklo_epi32 (vecs ! 0) (vecs ! 1);
          ab_23 = unpackhi_epi32 (vecs ! 0) (vecs ! 1);
          cd_01 = unpacklo_epi32 (vecs ! 2) (vecs ! 3);
          cd_23 = unpackhi_epi32 (vecs ! 2) (vecs ! 3);
          abcd_0 = unpacklo_epi64 ab_01 cd_01;
          abcd_1 = unpackhi_epi64 ab_01 cd_01;
          abcd_2 = unpacklo_epi64 ab_23 cd_23;
          abcd_3 = unpackhi_epi64 ab_23 cd_23
      in [abcd_0, abcd_1, abcd_2, abcd_3])"

definition transpose_vecs_256 :: "u32 list list \<Rightarrow> u32 list list" where
  "transpose_vecs_256 vecs =
     (let ab_0145 = unpacklo_epi32 (vecs ! 0) (vecs ! 1);
          ab_2367 = unpackhi_epi32 (vecs ! 0) (vecs ! 1);
          cd_0145 = unpacklo_epi32 (vecs ! 2) (vecs ! 3);
          cd_2367 = unpackhi_epi32 (vecs ! 2) (vecs ! 3);
          ef_0145 = unpacklo_epi32 (vecs ! 4) (vecs ! 5);
          ef_2367 = unpackhi_epi32 (vecs ! 4) (vecs ! 5);
          gh_0145 = unpacklo_epi32 (vecs ! 6) (vecs ! 7);
          gh_2367 = unpackhi_epi32 (vecs ! 6) (vecs ! 7);
          abcd_04 = unpacklo_epi64 ab_0145 cd_0145;
          abcd_15 = unpackhi_epi64 ab_0145 cd_0145;
          abcd_26 = unpacklo_epi64 ab_2367 cd_2367;
          abcd_37 = unpackhi_epi64 ab_2367 cd_2367;
          efgh_04 = unpacklo_epi64 ef_0145 gh_0145;
          efgh_15 = unpackhi_epi64 ef_0145 gh_0145;
          efgh_26 = unpacklo_epi64 ef_2367 gh_2367;
          efgh_37 = unpackhi_epi64 ef_2367 gh_2367
      in [permute2x128 abcd_04 efgh_04 0x20, permute2x128 abcd_15 efgh_15 0x20, permute2x128 abcd_26 efgh_26 0x20,
          permute2x128 abcd_37 efgh_37 0x20, permute2x128 abcd_04 efgh_04 0x31, permute2x128 abcd_15 efgh_15 0x31,
          permute2x128 abcd_26 efgh_26 0x31, permute2x128 abcd_37 efgh_37 0x31])"

text \<open>The matrix of \<open>n\<close> vectors whose vector \<open>i\<close> has \<open>f i k\<close> in lane \<open>k\<close>.\<close>

definition matrix :: "nat \<Rightarrow> (nat \<Rightarrow> nat \<Rightarrow> u32) \<Rightarrow> u32 list list" where
  "matrix n f = map (\<lambda>i. map (f i) [0..<n]) [0..<n]"

lemma transpose_128: "transpose_vecs_128 (matrix 4 f) = matrix 4 (\<lambda>k i. f i k)"
  by (simp add: transpose_vecs_128_def matrix_def upt_conv_Cons lane_shuffles Let_def)

lemma transpose_256: "transpose_vecs_256 (matrix 8 f) = matrix 8 (\<lambda>k i. f i k)"
  by (simp add: transpose_vecs_256_def matrix_def upt_conv_Cons lane_shuffles Let_def)

lemma matrix_4: "matrix 4 f = [map (f 0) [0..<4], map (f 1) [0..<4], map (f 2) [0..<4], map (f 3) [0..<4]]"
  and matrix_8: "matrix 8 f = [map (f 0) [0..<8], map (f 1) [0..<8], map (f 2) [0..<8], map (f 3) [0..<8],
    map (f 4) [0..<8], map (f 5) [0..<8], map (f 6) [0..<8], map (f 7) [0..<8]]"
  by (simp_all add: matrix_def upt_conv_Cons numeral_eq_Suc)

lemma matrix_of: "length h = n \<Longrightarrow> of_width n h \<Longrightarrow> h = matrix n (\<lambda>i k. h ! i ! k)"
  by (auto simp: matrix_def of_width_nth intro!: nth_equalityI)

lemma store_lane: "length h = 8 \<Longrightarrow> bytes_of (map (\<lambda>k. h ! k ! i) [0..<8]) = store_cv_words (lane i h)"
  by (simp add: bytes_of_def store_cv_words_def) (intro arg_cong [where f = concat] map_cong refl, simp)

section \<open>Messages and results\<close>

text \<open>Vectors of four lanes: sixteen bytes of each of four inputs at a time.\<close>

definition transpose_msg_vecs_128 :: "byte list list \<Rightarrow> nat \<Rightarrow> u32 list list" where
  "transpose_msg_vecs_128 inputs block_offset =
     (let out = (\<lambda>k. transpose_vecs_128
            [loadu 4 (drop (block_offset + k * 16) (inputs ! 0)), loadu 4 (drop (block_offset + k * 16) (inputs ! 1)),
             loadu 4 (drop (block_offset + k * 16) (inputs ! 2)), loadu 4 (drop (block_offset + k * 16) (inputs ! 3))])
      in out 0 @ out 1 @ out 2 @ out 3)"

definition store_vecs_128 :: "u32 list list \<Rightarrow> byte list" where
  "store_vecs_128 h_vecs =
     (let a = transpose_vecs_128 (take 4 h_vecs);
          b = transpose_vecs_128 (drop 4 h_vecs)
      in bytes_of (a ! 0) @ bytes_of (b ! 0) @ bytes_of (a ! 1) @ bytes_of (b ! 1) @
         bytes_of (a ! 2) @ bytes_of (b ! 2) @ bytes_of (a ! 3) @ bytes_of (b ! 3))"

text \<open>Vectors of eight lanes: thirty-two bytes of each of eight inputs at a time.\<close>

definition transpose_msg_vecs_256 :: "byte list list \<Rightarrow> nat \<Rightarrow> u32 list list" where
  "transpose_msg_vecs_256 inputs block_offset =
     (let out = (\<lambda>k. transpose_vecs_256
            [loadu 8 (drop (block_offset + k * 32) (inputs ! 0)), loadu 8 (drop (block_offset + k * 32) (inputs ! 1)),
             loadu 8 (drop (block_offset + k * 32) (inputs ! 2)), loadu 8 (drop (block_offset + k * 32) (inputs ! 3)),
             loadu 8 (drop (block_offset + k * 32) (inputs ! 4)), loadu 8 (drop (block_offset + k * 32) (inputs ! 5)),
             loadu 8 (drop (block_offset + k * 32) (inputs ! 6)), loadu 8 (drop (block_offset + k * 32) (inputs ! 7))])
      in out 0 @ out 1)"

definition store_vecs_256 :: "u32 list list \<Rightarrow> byte list" where
  "store_vecs_256 h_vecs =
     (let h_vecs = transpose_vecs_256 h_vecs
      in bytes_of (h_vecs ! 0) @ bytes_of (h_vecs ! 1) @ bytes_of (h_vecs ! 2) @ bytes_of (h_vecs ! 3) @
         bytes_of (h_vecs ! 4) @ bytes_of (h_vecs ! 5) @ bytes_of (h_vecs ! 6) @ bytes_of (h_vecs ! 7))"

definition msg_lanes :: "nat \<Rightarrow> byte list list \<Rightarrow> nat \<Rightarrow> u32 list list" where
  "msg_lanes n inputs off = map (\<lambda>k. map (\<lambda>i. block_word inputs off i k) [0..<n]) [0..<16]"

lemma msgs_128: "transpose_msg_vecs_128 inputs off = msg_lanes 4 inputs off"
proof -
  have "transpose_vecs_128 [loadu 4 (drop (off + k * 16) (inputs ! 0)), loadu 4 (drop (off + k * 16) (inputs ! 1)),
      loadu 4 (drop (off + k * 16) (inputs ! 2)), loadu 4 (drop (off + k * 16) (inputs ! 3))] =
      matrix 4 (\<lambda>j i. block_word inputs off i (4 * k + j))" if "k < 4" for k
    using loadu_block [of "4 * k" 4 off inputs] that transpose_128 [of "\<lambda>i j. block_word inputs off i (4 * k + j)"]
    unfolding matrix_4 by (simp add: mult.commute)
  note out = this
  have "(0 :: nat) < 4" "(1 :: nat) < 4" "(2 :: nat) < 4" "(3 :: nat) < 4" by simp_all
  then have "transpose_msg_vecs_128 inputs off = matrix 4 (\<lambda>j i. block_word inputs off i (4 * 0 + j)) @ matrix 4 (\<lambda>j i. block_word inputs off i (4 * 1 + j)) @ matrix 4 (\<lambda>j i. block_word inputs off i (4 * 2 + j)) @ matrix 4 (\<lambda>j i. block_word inputs off i (4 * 3 + j))"
    unfolding transpose_msg_vecs_128_def Let_def by (simp only: out)
  then show ?thesis by (simp add: matrix_def msg_lanes_def upt_conv_Cons numeral_eq_Suc)
qed

lemma msgs_256: "transpose_msg_vecs_256 inputs off = msg_lanes 8 inputs off"
proof -
  have "transpose_vecs_256 [loadu 8 (drop (off + k * 32) (inputs ! 0)), loadu 8 (drop (off + k * 32) (inputs ! 1)),
      loadu 8 (drop (off + k * 32) (inputs ! 2)), loadu 8 (drop (off + k * 32) (inputs ! 3)),
      loadu 8 (drop (off + k * 32) (inputs ! 4)), loadu 8 (drop (off + k * 32) (inputs ! 5)),
      loadu 8 (drop (off + k * 32) (inputs ! 6)), loadu 8 (drop (off + k * 32) (inputs ! 7))] =
      matrix 8 (\<lambda>j i. block_word inputs off i (8 * k + j))" if "k < 2" for k
    using loadu_block [of "8 * k" 8 off inputs] that transpose_256 [of "\<lambda>i j. block_word inputs off i (8 * k + j)"]
    unfolding matrix_8 by (simp add: mult.commute)
  note out = this
  have "(0 :: nat) < 2" "(1 :: nat) < 2" by simp_all
  then have "transpose_msg_vecs_256 inputs off = matrix 8 (\<lambda>j i. block_word inputs off i (8 * 0 + j)) @ matrix 8 (\<lambda>j i. block_word inputs off i (8 * 1 + j))"
    unfolding transpose_msg_vecs_256_def Let_def by (simp only: out)
  then show ?thesis by (simp add: matrix_def msg_lanes_def upt_conv_Cons numeral_eq_Suc)
qed

definition store_lanes :: "nat \<Rightarrow> u32 list list \<Rightarrow> byte list" where
  "store_lanes n h = concat (map (\<lambda>i. store_cv_words (lane i h)) [0..<n])"

lemma stores_128:
  assumes "length h = 8" "of_width 4 h"
  shows "store_vecs_128 h = store_lanes 4 h"
proof -
  have t: "take 4 h = matrix 4 (\<lambda>i k. h ! i ! k)" "drop 4 h = matrix 4 (\<lambda>i k. h ! (4 + i) ! k)"
    using assms by (auto simp: matrix_def of_width_nth intro!: nth_equalityI)
  have "bytes_of (map (\<lambda>k. h ! k ! i) [0..<4]) @ bytes_of (map (\<lambda>k. h ! (4 + k) ! i) [0..<4]) = store_cv_words (lane i h)" for i
    unfolding store_lane [OF assms(1), symmetric] by (simp add: bytes_of_def upt_conv_Cons numeral_eq_Suc)
  then show ?thesis
    unfolding store_vecs_128_def t transpose_128 Let_def store_lanes_def by (simp add: matrix_def upt_conv_Cons)
qed

lemma stores_256:
  assumes "length h = 8" "of_width 8 h"
  shows "store_vecs_256 h = store_lanes 8 h"
proof -
  have "transpose_vecs_256 h = matrix 8 (\<lambda>k i. h ! i ! k)"
    by (subst matrix_of [OF assms]) (rule transpose_256)
  then show ?thesis
    by (simp add: store_vecs_256_def Let_def matrix_def store_lane [OF assms(1), symmetric] store_lanes_def upt_conv_Cons)
qed

end
