(* ===== verification/Blake3_SSE.thy ===== *)
theory Blake3_SSE
  imports Blake3_Vectors
begin

text \<open>
  The kernels on 128-bit vectors: blake3_sse2.c and blake3_sse41.c. The files differ in the rotations by 16
  and 8 bits and in the blend; the rest of their text is shared.
\<close>

section \<open>blake3_sse2.c\<close>

definition rot16_sse2 :: "u32 list \<Rightarrow> u32 list" where
  "rot16_sse2 v = shufflehi_epi16 (shufflelo_epi16 v 0xB1) 0xB1"

definition rot12_sse2 :: "u32 list \<Rightarrow> u32 list" where
  "rot12_sse2 v = xor_si (srli_epi32 v 12) (slli_epi32 v (32 - 12))"

definition rot8_sse2 :: "u32 list \<Rightarrow> u32 list" where
  "rot8_sse2 v = xor_si (srli_epi32 v 8) (slli_epi32 v (32 - 8))"

definition rot7_sse2 :: "u32 list \<Rightarrow> u32 list" where
  "rot7_sse2 v = xor_si (srli_epi32 v 7) (slli_epi32 v (32 - 7))"

definition blend_epi16_sse2 :: "u32 list \<Rightarrow> u32 list \<Rightarrow> nat \<Rightarrow> u32 list" where
  "blend_epi16_sse2 a b imm8 =
     (let bits = set_epi16 [0x80, 0x40, 0x20, 0x10, 0x08, 0x04, 0x02, 0x01];
          mask = set1_epi16 4 (of_nat imm8);
          mask = and_si mask bits;
          mask = cmpeq_epi16 mask bits
      in or_si (and_si mask b) (andnot_si mask a))"

definition ops_sse2 :: vec_unit where
  "ops_sse2 = \<lparr>addv = add_epi32, xorv = xor_si, rot16 = rot16_sse2, rot12 = rot12_sse2, rot8 = rot8_sse2, rot7 = rot7_sse2\<rparr>"

definition rows_sse2 :: row_unit where
  "rows_sse2 = vec_unit.extend ops_sse2 \<lparr>blend = blend_epi16_sse2\<rparr>"

definition compress_pre_sse2 :: "u32 list \<Rightarrow> byte list \<Rightarrow> nat \<Rightarrow> u64 \<Rightarrow> byte \<Rightarrow> rows" where
  "compress_pre_sse2 = rows_compress_pre rows_sse2"

definition blake3_compress_in_place_sse2 :: compressor where
  "blake3_compress_in_place_sse2 cv block block_len counter flags =
     rows_in_place rows_sse2 (compress_pre_sse2 cv block block_len counter flags)"

definition blake3_compress_xof_sse2 :: "u32 list \<Rightarrow> byte list \<Rightarrow> nat \<Rightarrow> u64 \<Rightarrow> byte \<Rightarrow> byte list" where
  "blake3_compress_xof_sse2 cv block block_len counter flags =
     rows_xof rows_sse2 cv (compress_pre_sse2 cv block block_len counter flags)"

definition round_fn_sse2 :: "u32 list list \<Rightarrow> nat \<Rightarrow> u32 list list \<Rightarrow> u32 list list" where
  "round_fn_sse2 = lanes_round ops_sse2"

definition transpose_msg_vecs_sse2 :: "byte list list \<Rightarrow> nat \<Rightarrow> u32 list list" where
  "transpose_msg_vecs_sse2 = transpose_msg_vecs_128"

definition load_counters_sse2 :: "u64 \<Rightarrow> bool \<Rightarrow> u32 list \<times> u32 list" where
  "load_counters_sse2 = compared_counters 4 (set_epi32 [3, 2, 1, 0])"

definition lanes_sse2 :: lane_unit where
  "lanes_sse2 = \<lparr>ops = ops_sse2, set1 = set1_epi32 4, round_v = round_fn_sse2, transpose_msgs = transpose_msg_vecs_sse2,
     counters = load_counters_sse2, store_h = store_vecs_128\<rparr>"

definition blake3_hash4_sse2 :: hash_n where
  "blake3_hash4_sse2 = lanes_hash lanes_sse2"

definition hash_one_sse2 :: hash_1 where
  "hash_one_sse2 = hash_one_with blake3_compress_in_place_sse2"

definition blake3_hash_many_sse2 :: hash_n where
  "blake3_hash_many_sse2 inputs blocks key counter increment_counter flags flags_start flags_end =
     degree_loop blake3_hash4_sse2 4 blocks key increment_counter flags flags_start flags_end
       (one_by_one hash_one_sse2 blocks key increment_counter flags flags_start flags_end) inputs counter"

section \<open>blake3_sse41.c\<close>

definition rot16_sse41 :: "u32 list \<Rightarrow> u32 list" where
  "rot16_sse41 v = shuffle_epi8 v (set_epi8 rot16_mask)"

definition rot12_sse41 :: "u32 list \<Rightarrow> u32 list" where
  "rot12_sse41 v = xor_si (srli_epi32 v 12) (slli_epi32 v (32 - 12))"

definition rot8_sse41 :: "u32 list \<Rightarrow> u32 list" where
  "rot8_sse41 v = shuffle_epi8 v (set_epi8 rot8_mask)"

definition rot7_sse41 :: "u32 list \<Rightarrow> u32 list" where
  "rot7_sse41 v = xor_si (srli_epi32 v 7) (slli_epi32 v (32 - 7))"

definition ops_sse41 :: vec_unit where
  "ops_sse41 = \<lparr>addv = add_epi32, xorv = xor_si, rot16 = rot16_sse41, rot12 = rot12_sse41, rot8 = rot8_sse41, rot7 = rot7_sse41\<rparr>"

definition rows_sse41 :: row_unit where
  "rows_sse41 = vec_unit.extend ops_sse41 \<lparr>blend = blend_epi16\<rparr>"

definition compress_pre_sse41 :: "u32 list \<Rightarrow> byte list \<Rightarrow> nat \<Rightarrow> u64 \<Rightarrow> byte \<Rightarrow> rows" where
  "compress_pre_sse41 = rows_compress_pre rows_sse41"

definition blake3_compress_in_place_sse41 :: compressor where
  "blake3_compress_in_place_sse41 cv block block_len counter flags =
     rows_in_place rows_sse41 (compress_pre_sse41 cv block block_len counter flags)"

definition blake3_compress_xof_sse41 :: "u32 list \<Rightarrow> byte list \<Rightarrow> nat \<Rightarrow> u64 \<Rightarrow> byte \<Rightarrow> byte list" where
  "blake3_compress_xof_sse41 cv block block_len counter flags =
     rows_xof rows_sse41 cv (compress_pre_sse41 cv block block_len counter flags)"

definition round_fn_sse41 :: "u32 list list \<Rightarrow> nat \<Rightarrow> u32 list list \<Rightarrow> u32 list list" where
  "round_fn_sse41 = lanes_round ops_sse41"

definition transpose_msg_vecs_sse41 :: "byte list list \<Rightarrow> nat \<Rightarrow> u32 list list" where
  "transpose_msg_vecs_sse41 = transpose_msg_vecs_128"

definition load_counters_sse41 :: "u64 \<Rightarrow> bool \<Rightarrow> u32 list \<times> u32 list" where
  "load_counters_sse41 = compared_counters 4 (set_epi32 [3, 2, 1, 0])"

definition lanes_sse41 :: lane_unit where
  "lanes_sse41 = \<lparr>ops = ops_sse41, set1 = set1_epi32 4, round_v = round_fn_sse41, transpose_msgs = transpose_msg_vecs_sse41,
     counters = load_counters_sse41, store_h = store_vecs_128\<rparr>"

definition blake3_hash4_sse41 :: hash_n where
  "blake3_hash4_sse41 = lanes_hash lanes_sse41"

definition hash_one_sse41 :: hash_1 where
  "hash_one_sse41 = hash_one_with blake3_compress_in_place_sse41"

definition blake3_hash_many_sse41 :: hash_n where
  "blake3_hash_many_sse41 inputs blocks key counter increment_counter flags flags_start flags_end =
     degree_loop blake3_hash4_sse41 4 blocks key increment_counter flags flags_start flags_end
       (one_by_one hash_one_sse41 blocks key increment_counter flags flags_start flags_end) inputs counter"

section \<open>The kernels compute what the portable code does\<close>

lemma lane_numbers_4: "set_epi32 [3, 2, 1, 0] = map of_nat [0..<4]"
  by (simp add: set_epi32_def upt_conv_Cons)

lemma four_counters: "compared_counters 4 (set_epi32 [3, 2, 1, 0]) c inc = lane_counters 4 c inc"
  unfolding lane_numbers_4 by (rule compared_counters_lanes) simp

lemmas shift_rots = rotr32_xor [of 12, simplified] rotr32_xor [of 8, simplified] rotr32_xor [of 7, simplified]

text \<open>The halves of a word.\<close>

definition lo16 :: "u32 \<Rightarrow> 16 word" where "lo16 w = ucast w"
definition hi16 :: "u32 \<Rightarrow> 16 word" where "hi16 w = ucast (drop_bit 16 w)"
definition halves :: "16 word \<Rightarrow> 16 word \<Rightarrow> u32" where "halves lo hi = ucast lo OR push_bit 16 (ucast hi)"

lemma halves_parts: "halves (lo16 w) (hi16 w) = w"
  using epi16_parts by (simp add: halves_def lo16_def hi16_def)

lemma halves_swapped: "halves (hi16 w) (lo16 w) = rotr32 w 16"
proof -
  have "bit (halves (hi16 w) (lo16 w)) n = bit (rotr32 w 16) n" if "n < LENGTH(32)" for n
    using that bit_imp_le_length [of w "16 + n"] by (auto simp: halves_def lo16_def hi16_def rotr32_def bit_simps)
  then show ?thesis by (rule bit_word_eqI)
qed

lemma halves_lanes:
  "epi16_of [a, b, c, d] = [lo16 a, hi16 a, lo16 b, hi16 b, lo16 c, hi16 c, lo16 d, hi16 d]"
  "of_epi16 [x0, x1, x2, x3, x4, x5, x6, x7] = [halves x0 x1, halves x2 x3, halves x4 x5, halves x6 x7]"
  by (simp_all add: epi16_of_def lo16_def hi16_def halves_def)

lemma parts_of_halves: "lo16 (halves x y) = x" "hi16 (halves x y) = y"
proof -
  have "bit (lo16 (halves x y)) n = bit x n" "bit (hi16 (halves x y)) n = bit y n" if "n < LENGTH(16)" for n
    using that bit_imp_le_length [of x "16 + n"] by (auto simp: halves_def lo16_def hi16_def bit_simps)
  note b = this
  show "lo16 (halves x y) = x" "hi16 (halves x y) = y" by (rule bit_word_eqI, erule b)+
qed

lemmas halves_simps = halves_lanes parts_of_halves halves_parts halves_swapped

lemma upt_8: "[0..<8] = [0, 1, 2, 3, 4, 5, 6, 7]" and upt_4: "[0..<4] = [0, 1, 2, 3]"
  by (simp_all add: upt_conv_Cons)

lemma shuffle_rot16_sse2: "shufflehi_epi16 (shufflelo_epi16 [a, b, c, d] 0xB1) 0xB1 =
    [rotr32 a 16, rotr32 b 16, rotr32 c 16, rotr32 d 16]"
  by (simp add: shufflehi_epi16_def shufflelo_epi16_def imm2_def halves_simps upt_4 del: of_epi16.simps)

lemma blends_sse41:
  "blend_epi16 [a0, a1, a2, a3] [b0, b1, b2, b3] 0xCC = [a0, b1, a2, b3]"
  "blend_epi16 [a0, a1, a2, a3] [b0, b1, b2, b3] 0xC0 = [a0, a1, a2, b3]"
  by (simp_all add: blend_epi16_def halves_simps upt_8 bit_Suc_0_iff del: of_epi16.simps)

lemma halves_meet: "halves a b AND halves c d = halves (a AND c) (b AND d)"
proof -
  have le: "bit x n \<Longrightarrow> n < 16" for x :: "16 word" and n using bit_imp_le_length [of x n] by simp
  show ?thesis by (rule bit_word_eqI) (auto simp: halves_def bit_simps dest: le)
qed

lemma halves_ends: "halves 0 0 = 0" "halves (- 1) (- 1) = - 1" "lo16 0 = 0" "hi16 0 = 0"
proof -
  have "bit (halves (- 1) (- 1)) n = bit (- 1 :: u32) n" if "n < LENGTH(32)" for n
    using that by (auto simp: halves_def bit_simps)
  then show "halves (- 1) (- 1) = - 1" by (rule bit_word_eqI)
qed (simp_all add: halves_def lo16_def hi16_def)

lemma blend_masks:
  "cmpeq_epi16 (and_si (set1_epi16 4 0xCC) bits) bits = [0, - 1, 0, - 1]"
  "cmpeq_epi16 (and_si (set1_epi16 4 0xC0) bits) bits = [0, 0, 0, - 1]"
  if "bits = set_epi16 [0x80, 0x40, 0x20, 0x10, 0x08, 0x04, 0x02, 0x01]"
proof -
  have set1: "set1_epi16 4 c = [halves c c, halves c c, halves c c, halves c c]" for c
    by (simp add: set1_epi16_def numeral_eq_Suc halves_def)
  have bits: "bits = [halves 1 2, halves 4 8, halves 16 32, halves 64 128]"
    by (simp add: that set_epi16_def halves_lanes del: of_epi16.simps)
  show "cmpeq_epi16 (and_si (set1_epi16 4 0xCC) bits) bits = [0, - 1, 0, - 1]"
    "cmpeq_epi16 (and_si (set1_epi16 4 0xC0) bits) bits = [0, 0, 0, - 1]"
    by (simp_all add: cmpeq_epi16_def set1 bits and_si_def halves_meet halves_ends halves_lanes parts_of_halves del: of_epi16.simps)
qed

lemma blends_sse2:
  "blend_epi16_sse2 [a0, a1, a2, a3] [b0, b1, b2, b3] 0xCC = [a0, b1, a2, b3]"
  "blend_epi16_sse2 [a0, a1, a2, a3] [b0, b1, b2, b3] 0xC0 = [a0, a1, a2, b3]"
  unfolding blend_epi16_sse2_def Let_def of_nat_numeral blend_masks [OF refl] by (simp_all add: or_si_def and_si_def andnot_si_def)

lemma rots_sse2:
  assumes "length v = 4"
  shows "rot16_sse2 v = map (\<lambda>w. rotr32 w 16) v" "rot12_sse2 v = map (\<lambda>w. rotr32 w 12) v"
    "rot8_sse2 v = map (\<lambda>w. rotr32 w 8) v" "rot7_sse2 v = map (\<lambda>w. rotr32 w 7) v"
proof -
  from list4 [OF assms] obtain a b c d where v: "v = [a, b, c, d]" by blast
  show "rot16_sse2 v = map (\<lambda>w. rotr32 w 16) v" by (simp add: v rot16_sse2_def shuffle_rot16_sse2)
qed (simp_all add: rot12_sse2_def rot8_sse2_def rot7_sse2_def shift_rots)

interpretation rows_sse2: row_kernel rows_sse2
  by unfold_locales
    (simp_all add: rows_sse2_def ops_sse2_def vec_unit.defs add_epi32_def xor_si_def rots_sse2 blends_sse2)

interpretation lanes_sse2: lane_kernel lanes_sse2 4
  by unfold_locales
    (simp_all add: lanes_sse2_def ops_sse2_def add_epi32_def xor_si_def rots_sse2 round_fn_sse2_def set1_epi32_def
      transpose_msg_vecs_sse2_def msgs_128 msg_lanes_def block_word_def load_counters_sse2_def four_counters
      lane_counters_def stores_128 store_lanes_def)

lemma in_place_sse2: "blake3_compress_in_place_sse2 = blake3_compress_in_place_portable"
  by (simp add: fun_eq_iff blake3_compress_in_place_sse2_def compress_pre_sse2_def rows_sse2.in_place_portable)

lemma xof_sse2: "blake3_compress_xof_sse2 = blake3_compress_xof_portable"
  by (simp add: fun_eq_iff blake3_compress_xof_sse2_def compress_pre_sse2_def rows_sse2.xof_portable)

lemma hash_many_sse2: "blake3_hash_many_sse2 = blake3_hash_many_portable"
  by (simp add: fun_eq_iff blake3_hash_many_sse2_def blake3_hash4_sse2_def hash_one_sse2_def in_place_sse2
    lanes_sse2.degree_loop_portable one_by_one_portable)

lemma rots_sse41:
  assumes "length v = 4"
  shows "rot16_sse41 v = map (\<lambda>w. rotr32 w 16) v" "rot12_sse41 v = map (\<lambda>w. rotr32 w 12) v"
    "rot8_sse41 v = map (\<lambda>w. rotr32 w 8) v" "rot7_sse41 v = map (\<lambda>w. rotr32 w 7) v"
  using assms by (simp_all add: rot16_sse41_def rot12_sse41_def rot8_sse41_def rot7_sse41_def
    shuffle_rot16_4 shuffle_rot8_4 shift_rots)

interpretation rows_sse41: row_kernel rows_sse41
  by unfold_locales
    (simp_all add: rows_sse41_def ops_sse41_def vec_unit.defs add_epi32_def xor_si_def rots_sse41 blends_sse41)

interpretation lanes_sse41: lane_kernel lanes_sse41 4
  by unfold_locales
    (simp_all add: lanes_sse41_def ops_sse41_def add_epi32_def xor_si_def rots_sse41 round_fn_sse41_def set1_epi32_def
      transpose_msg_vecs_sse41_def msgs_128 msg_lanes_def block_word_def load_counters_sse41_def four_counters
      lane_counters_def stores_128 store_lanes_def)

lemma in_place_sse41: "blake3_compress_in_place_sse41 = blake3_compress_in_place_portable"
  by (simp add: fun_eq_iff blake3_compress_in_place_sse41_def compress_pre_sse41_def rows_sse41.in_place_portable)

lemma xof_sse41: "blake3_compress_xof_sse41 = blake3_compress_xof_portable"
  by (simp add: fun_eq_iff blake3_compress_xof_sse41_def compress_pre_sse41_def rows_sse41.xof_portable)

lemma hash_many_sse41: "blake3_hash_many_sse41 = blake3_hash_many_portable"
  by (simp add: fun_eq_iff blake3_hash_many_sse41_def blake3_hash4_sse41_def hash_one_sse41_def in_place_sse41
    lanes_sse41.degree_loop_portable one_by_one_portable)

end
