(* ===== verification/Blake3_AVX2.thy ===== *)
theory Blake3_AVX2
  imports Blake3_SSE
begin

text \<open>
  The kernels on 256-bit vectors: blake3_avx2.c, which hashes eight inputs at once and leaves the rest to
  blake3_sse41.c.
\<close>

section \<open>blake3_avx2.c\<close>

definition rot16_avx2 :: "u32 list \<Rightarrow> u32 list" where
  "rot16_avx2 v = shuffle_epi8 v (set_epi8 (rot16_mask @ rot16_mask))"

definition rot12_avx2 :: "u32 list \<Rightarrow> u32 list" where
  "rot12_avx2 v = or_si (srli_epi32 v 12) (slli_epi32 v (32 - 12))"

definition rot8_avx2 :: "u32 list \<Rightarrow> u32 list" where
  "rot8_avx2 v = shuffle_epi8 v (set_epi8 (rot8_mask @ rot8_mask))"

definition rot7_avx2 :: "u32 list \<Rightarrow> u32 list" where
  "rot7_avx2 v = or_si (srli_epi32 v 7) (slli_epi32 v (32 - 7))"

definition ops_avx2 :: vec_unit where
  "ops_avx2 = \<lparr>addv = add_epi32, xorv = xor_si, rot16 = rot16_avx2, rot12 = rot12_avx2, rot8 = rot8_avx2, rot7 = rot7_avx2\<rparr>"

definition round_fn_avx2 :: "u32 list list \<Rightarrow> nat \<Rightarrow> u32 list list \<Rightarrow> u32 list list" where
  "round_fn_avx2 = lanes_round ops_avx2"

definition transpose_msg_vecs_avx2 :: "byte list list \<Rightarrow> nat \<Rightarrow> u32 list list" where
  "transpose_msg_vecs_avx2 = transpose_msg_vecs_256"

definition load_counters_avx2 :: "u64 \<Rightarrow> bool \<Rightarrow> u32 list \<times> u32 list" where
  "load_counters_avx2 = compared_counters 8 (set_epi32 [7, 6, 5, 4, 3, 2, 1, 0])"

definition lanes_avx2 :: lane_unit where
  "lanes_avx2 = \<lparr>ops = ops_avx2, set1 = set1_epi32 8, round_v = round_fn_avx2, transpose_msgs = transpose_msg_vecs_avx2,
     counters = load_counters_avx2, store_h = store_vecs_256\<rparr>"

definition blake3_hash8_avx2 :: hash_n where
  "blake3_hash8_avx2 = lanes_hash lanes_avx2"

definition blake3_hash_many_avx2 :: hash_n where
  "blake3_hash_many_avx2 inputs blocks key counter increment_counter flags flags_start flags_end =
     degree_loop blake3_hash8_avx2 8 blocks key increment_counter flags flags_start flags_end
       (\<lambda>inputs counter. blake3_hash_many_sse41 inputs blocks key counter increment_counter flags flags_start flags_end)
       inputs counter"

section \<open>The kernel computes what the portable code does\<close>

lemma lane_numbers_8: "set_epi32 [7, 6, 5, 4, 3, 2, 1, 0] = map of_nat [0..<8]"
  by (simp add: set_epi32_def upt_conv_Cons)

lemma eight_counters: "compared_counters 8 (set_epi32 [7, 6, 5, 4, 3, 2, 1, 0]) c inc = lane_counters 8 c inc"
  unfolding lane_numbers_8 by (rule compared_counters_lanes) simp

lemma list8: "length v = 8 \<Longrightarrow> \<exists>a b c d e f g h. v = [a, b, c, d, e, f, g, h]"
  by (auto simp: numeral_eq_Suc length_Suc_conv)

lemma rots_avx2:
  assumes "length v = 8"
  shows "rot16_avx2 v = map (\<lambda>w. rotr32 w 16) v" "rot12_avx2 v = map (\<lambda>w. rotr32 w 12) v"
    "rot8_avx2 v = map (\<lambda>w. rotr32 w 8) v" "rot7_avx2 v = map (\<lambda>w. rotr32 w 7) v"
proof -
  from list8 [OF assms] obtain a b c d e f g h where v: "v = [a, b, c, d, e, f, g, h]" by blast
  have m: "lanes128 (words_of (rev (rot16_mask @ rot16_mask))) = [words_of (rev rot16_mask), words_of (rev rot16_mask)]"
    "lanes128 (words_of (rev (rot8_mask @ rot8_mask))) = [words_of (rev rot8_mask), words_of (rev rot8_mask)]"
    by (simp_all add: rot16_mask_def rot8_mask_def)
  show "rot16_avx2 v = map (\<lambda>w. rotr32 w 16) v" "rot8_avx2 v = map (\<lambda>w. rotr32 w 8) v"
    unfolding rot16_avx2_def rot8_avx2_def shuffle_epi8_def per128_def set_epi8_def m by (simp_all add: v shuffle_masks)
qed (simp_all only: rot12_avx2_def rot7_avx2_def rotr32_or)

interpretation lanes_avx2: lane_kernel lanes_avx2 8
  by unfold_locales
    (simp_all add: lanes_avx2_def ops_avx2_def add_epi32_def xor_si_def rots_avx2 round_fn_avx2_def set1_epi32_def
      transpose_msg_vecs_avx2_def msgs_256 msg_lanes_def block_word_def load_counters_avx2_def eight_counters
      lane_counters_def stores_256 store_lanes_def)

lemma hash_many_avx2: "blake3_hash_many_avx2 = blake3_hash_many_portable"
  by (simp add: fun_eq_iff blake3_hash_many_avx2_def blake3_hash8_avx2_def hash_many_sse41 lanes_avx2.degree_loop_portable)

end
