(* ===== verification/Blake3_AVX512.thy ===== *)
theory Blake3_AVX512
  imports Blake3_AVX2
begin

text \<open>
  The kernels of blake3_avx512.c: compression on rows of 128 bits, and hashing of 4, 8 and 16 inputs at once
  on vectors of 128, 256 and 512 bits. The rotations are instructions.
\<close>

section \<open>Compression\<close>

definition rot16_avx512 :: "u32 list \<Rightarrow> u32 list" where
  "rot16_avx512 v = ror_epi32 v 16"

definition rot12_avx512 :: "u32 list \<Rightarrow> u32 list" where
  "rot12_avx512 v = ror_epi32 v 12"

definition rot8_avx512 :: "u32 list \<Rightarrow> u32 list" where
  "rot8_avx512 v = ror_epi32 v 8"

definition rot7_avx512 :: "u32 list \<Rightarrow> u32 list" where
  "rot7_avx512 v = ror_epi32 v 7"

definition ops_avx512 :: vec_unit where
  "ops_avx512 = \<lparr>addv = add_epi32, xorv = xor_si, rot16 = rot16_avx512, rot12 = rot12_avx512, rot8 = rot8_avx512,
     rot7 = rot7_avx512\<rparr>"

definition rows_avx512 :: row_unit where
  "rows_avx512 = vec_unit.extend ops_avx512 \<lparr>blend = blend_epi16\<rparr>"

definition compress_pre_avx512 :: "u32 list \<Rightarrow> byte list \<Rightarrow> nat \<Rightarrow> u64 \<Rightarrow> byte \<Rightarrow> rows" where
  "compress_pre_avx512 = rows_compress_pre rows_avx512"

definition blake3_compress_in_place_avx512 :: compressor where
  "blake3_compress_in_place_avx512 cv block block_len counter flags =
     rows_in_place rows_avx512 (compress_pre_avx512 cv block block_len counter flags)"

definition blake3_compress_xof_avx512 :: "u32 list \<Rightarrow> byte list \<Rightarrow> nat \<Rightarrow> u64 \<Rightarrow> byte \<Rightarrow> byte list" where
  "blake3_compress_xof_avx512 cv block block_len counter flags =
     rows_xof rows_avx512 cv (compress_pre_avx512 cv block block_len counter flags)"

section \<open>Four and eight inputs\<close>

definition round_fn4_avx512 :: "u32 list list \<Rightarrow> nat \<Rightarrow> u32 list list \<Rightarrow> u32 list list" where
  "round_fn4_avx512 = lanes_round ops_avx512"

definition transpose_msg_vecs4 :: "byte list list \<Rightarrow> nat \<Rightarrow> u32 list list" where
  "transpose_msg_vecs4 = transpose_msg_vecs_128"

definition load_counters4 :: "u64 \<Rightarrow> bool \<Rightarrow> u32 list \<times> u32 list" where
  "load_counters4 = wide_counters 8 (setr_epi64 [0, 1, 2, 3])"

definition lanes4_avx512 :: lane_unit where
  "lanes4_avx512 = \<lparr>ops = ops_avx512, set1 = set1_epi32 4, round_v = round_fn4_avx512, transpose_msgs = transpose_msg_vecs4,
     counters = load_counters4, store_h = store_vecs_128\<rparr>"

definition blake3_hash4_avx512 :: hash_n where
  "blake3_hash4_avx512 = lanes_hash lanes4_avx512"

definition round_fn8_avx512 :: "u32 list list \<Rightarrow> nat \<Rightarrow> u32 list list \<Rightarrow> u32 list list" where
  "round_fn8_avx512 = lanes_round ops_avx512"

definition transpose_msg_vecs8 :: "byte list list \<Rightarrow> nat \<Rightarrow> u32 list list" where
  "transpose_msg_vecs8 = transpose_msg_vecs_256"

definition load_counters8 :: "u64 \<Rightarrow> bool \<Rightarrow> u32 list \<times> u32 list" where
  "load_counters8 = wide_counters 16 (setr_epi64 [0, 1, 2, 3, 4, 5, 6, 7])"

definition lanes8_avx512 :: lane_unit where
  "lanes8_avx512 = \<lparr>ops = ops_avx512, set1 = set1_epi32 8, round_v = round_fn8_avx512, transpose_msgs = transpose_msg_vecs8,
     counters = load_counters8, store_h = store_vecs_256\<rparr>"

definition blake3_hash8_avx512 :: hash_n where
  "blake3_hash8_avx512 = lanes_hash lanes8_avx512"

section \<open>Sixteen inputs\<close>

definition unpack_lo_128 :: "u32 list \<Rightarrow> u32 list \<Rightarrow> u32 list" where
  "unpack_lo_128 a b = shuffle_i32x4 a b 0x88"

definition unpack_hi_128 :: "u32 list \<Rightarrow> u32 list \<Rightarrow> u32 list" where
  "unpack_hi_128 a b = shuffle_i32x4 a b 0xdd"

definition transpose_vecs_512 :: "u32 list list \<Rightarrow> u32 list list" where
  "transpose_vecs_512 vecs =
     (let ab_0 = unpacklo_epi32 (vecs ! 0) (vecs ! 1);
          ab_2 = unpackhi_epi32 (vecs ! 0) (vecs ! 1);
          cd_0 = unpacklo_epi32 (vecs ! 2) (vecs ! 3);
          cd_2 = unpackhi_epi32 (vecs ! 2) (vecs ! 3);
          ef_0 = unpacklo_epi32 (vecs ! 4) (vecs ! 5);
          ef_2 = unpackhi_epi32 (vecs ! 4) (vecs ! 5);
          gh_0 = unpacklo_epi32 (vecs ! 6) (vecs ! 7);
          gh_2 = unpackhi_epi32 (vecs ! 6) (vecs ! 7);
          ij_0 = unpacklo_epi32 (vecs ! 8) (vecs ! 9);
          ij_2 = unpackhi_epi32 (vecs ! 8) (vecs ! 9);
          kl_0 = unpacklo_epi32 (vecs ! 10) (vecs ! 11);
          kl_2 = unpackhi_epi32 (vecs ! 10) (vecs ! 11);
          mn_0 = unpacklo_epi32 (vecs ! 12) (vecs ! 13);
          mn_2 = unpackhi_epi32 (vecs ! 12) (vecs ! 13);
          op_0 = unpacklo_epi32 (vecs ! 14) (vecs ! 15);
          op_2 = unpackhi_epi32 (vecs ! 14) (vecs ! 15);
          abcd_0 = unpacklo_epi64 ab_0 cd_0;
          abcd_1 = unpackhi_epi64 ab_0 cd_0;
          abcd_2 = unpacklo_epi64 ab_2 cd_2;
          abcd_3 = unpackhi_epi64 ab_2 cd_2;
          efgh_0 = unpacklo_epi64 ef_0 gh_0;
          efgh_1 = unpackhi_epi64 ef_0 gh_0;
          efgh_2 = unpacklo_epi64 ef_2 gh_2;
          efgh_3 = unpackhi_epi64 ef_2 gh_2;
          ijkl_0 = unpacklo_epi64 ij_0 kl_0;
          ijkl_1 = unpackhi_epi64 ij_0 kl_0;
          ijkl_2 = unpacklo_epi64 ij_2 kl_2;
          ijkl_3 = unpackhi_epi64 ij_2 kl_2;
          mnop_0 = unpacklo_epi64 mn_0 op_0;
          mnop_1 = unpackhi_epi64 mn_0 op_0;
          mnop_2 = unpacklo_epi64 mn_2 op_2;
          mnop_3 = unpackhi_epi64 mn_2 op_2;
          abcdefgh_0 = unpack_lo_128 abcd_0 efgh_0;
          abcdefgh_1 = unpack_lo_128 abcd_1 efgh_1;
          abcdefgh_2 = unpack_lo_128 abcd_2 efgh_2;
          abcdefgh_3 = unpack_lo_128 abcd_3 efgh_3;
          abcdefgh_4 = unpack_hi_128 abcd_0 efgh_0;
          abcdefgh_5 = unpack_hi_128 abcd_1 efgh_1;
          abcdefgh_6 = unpack_hi_128 abcd_2 efgh_2;
          abcdefgh_7 = unpack_hi_128 abcd_3 efgh_3;
          ijklmnop_0 = unpack_lo_128 ijkl_0 mnop_0;
          ijklmnop_1 = unpack_lo_128 ijkl_1 mnop_1;
          ijklmnop_2 = unpack_lo_128 ijkl_2 mnop_2;
          ijklmnop_3 = unpack_lo_128 ijkl_3 mnop_3;
          ijklmnop_4 = unpack_hi_128 ijkl_0 mnop_0;
          ijklmnop_5 = unpack_hi_128 ijkl_1 mnop_1;
          ijklmnop_6 = unpack_hi_128 ijkl_2 mnop_2;
          ijklmnop_7 = unpack_hi_128 ijkl_3 mnop_3
      in [unpack_lo_128 abcdefgh_0 ijklmnop_0, unpack_lo_128 abcdefgh_1 ijklmnop_1,
          unpack_lo_128 abcdefgh_2 ijklmnop_2, unpack_lo_128 abcdefgh_3 ijklmnop_3,
          unpack_lo_128 abcdefgh_4 ijklmnop_4, unpack_lo_128 abcdefgh_5 ijklmnop_5,
          unpack_lo_128 abcdefgh_6 ijklmnop_6, unpack_lo_128 abcdefgh_7 ijklmnop_7,
          unpack_hi_128 abcdefgh_0 ijklmnop_0, unpack_hi_128 abcdefgh_1 ijklmnop_1,
          unpack_hi_128 abcdefgh_2 ijklmnop_2, unpack_hi_128 abcdefgh_3 ijklmnop_3,
          unpack_hi_128 abcdefgh_4 ijklmnop_4, unpack_hi_128 abcdefgh_5 ijklmnop_5,
          unpack_hi_128 abcdefgh_6 ijklmnop_6, unpack_hi_128 abcdefgh_7 ijklmnop_7])"

definition store_vecs_512 :: "u32 list list \<Rightarrow> byte list" where
  "store_vecs_512 h_vecs =
     (let padded = h_vecs @ replicate 8 (set1_epi32 16 0);
          padded = transpose_vecs_512 padded
      in concat (map (\<lambda>i. bytes_of (take 8 (padded ! i))) [0..<16]))"

definition round_fn16_avx512 :: "u32 list list \<Rightarrow> nat \<Rightarrow> u32 list list \<Rightarrow> u32 list list" where
  "round_fn16_avx512 = lanes_round ops_avx512"

definition transpose_msg_vecs16 :: "byte list list \<Rightarrow> nat \<Rightarrow> u32 list list" where
  "transpose_msg_vecs16 = (\<lambda>inputs block_offset. transpose_vecs_512 (map (\<lambda>i. loadu 16 (drop block_offset (inputs ! i))) [0..<16]))"

definition load_counters16 :: "u64 \<Rightarrow> bool \<Rightarrow> u32 list \<times> u32 list" where
  "load_counters16 = top_bit_counters 16 (set_epi32 [15, 14, 13, 12, 11, 10, 9, 8, 7, 6, 5, 4, 3, 2, 1, 0])"

definition lanes16_avx512 :: lane_unit where
  "lanes16_avx512 = \<lparr>ops = ops_avx512, set1 = set1_epi32 16, round_v = round_fn16_avx512, transpose_msgs = transpose_msg_vecs16,
     counters = load_counters16, store_h = store_vecs_512\<rparr>"

definition blake3_hash16_avx512 :: hash_n where
  "blake3_hash16_avx512 = lanes_hash lanes16_avx512"

section \<open>Many inputs\<close>

definition hash_one_avx512 :: hash_1 where
  "hash_one_avx512 = hash_one_with blake3_compress_in_place_avx512"

definition blake3_hash_many_avx512 :: hash_n where
  "blake3_hash_many_avx512 inputs blocks key counter increment_counter flags flags_start flags_end =
     degree_loop blake3_hash16_avx512 16 blocks key increment_counter flags flags_start flags_end
       (degree_loop blake3_hash8_avx512 8 blocks key increment_counter flags flags_start flags_end
         (degree_loop blake3_hash4_avx512 4 blocks key increment_counter flags flags_start flags_end
           (one_by_one hash_one_avx512 blocks key increment_counter flags flags_start flags_end)))
       inputs counter"

section \<open>The kernels compute what the portable code does\<close>

lemma rots_avx512:
  "rot16_avx512 v = map (\<lambda>w. rotr32 w 16) v" "rot12_avx512 v = map (\<lambda>w. rotr32 w 12) v"
  "rot8_avx512 v = map (\<lambda>w. rotr32 w 8) v" "rot7_avx512 v = map (\<lambda>w. rotr32 w 7) v"
  by (simp_all add: rot16_avx512_def rot12_avx512_def rot8_avx512_def rot7_avx512_def ror_rotr32)

interpretation rows_avx512: row_kernel rows_avx512
  by unfold_locales
    (simp_all add: rows_avx512_def ops_avx512_def vec_unit.defs add_epi32_def xor_si_def rots_avx512 blends_sse41)

lemma in_place_avx512: "blake3_compress_in_place_avx512 = blake3_compress_in_place_portable"
  by (simp add: fun_eq_iff blake3_compress_in_place_avx512_def compress_pre_avx512_def rows_avx512.in_place_portable)

lemma xof_avx512: "blake3_compress_xof_avx512 = blake3_compress_xof_portable"
  by (simp add: fun_eq_iff blake3_compress_xof_avx512_def compress_pre_avx512_def rows_avx512.xof_portable)

lemma four_wide: "load_counters4 = lane_counters 4"
proof -
  have "[0, 1, 2, 3] = map (of_nat :: nat \<Rightarrow> u64) [0..<4]" by (simp add: upt_conv_Cons)
  then show ?thesis using wide_counters_lanes [of 4] by (simp add: load_counters4_def fun_eq_iff)
qed

lemma eight_wide: "load_counters8 = lane_counters 8"
proof -
  have "[0, 1, 2, 3, 4, 5, 6, 7] = map (of_nat :: nat \<Rightarrow> u64) [0..<8]" by (simp add: upt_conv_Cons)
  then show ?thesis using wide_counters_lanes [of 8] by (simp add: load_counters8_def fun_eq_iff)
qed

lemma sixteen_counters: "load_counters16 = lane_counters 16"
proof -
  have "set_epi32 [15, 14, 13, 12, 11, 10, 9, 8, 7, 6, 5, 4, 3, 2, 1, 0] = map of_nat [0..<16]"
    by (simp add: set_epi32_def upt_conv_Cons)
  then show ?thesis using top_bit_counters_lanes [of 16] by (simp add: load_counters16_def fun_eq_iff)
qed

lemma upt_16: "[0..<16] = [0, 1, 2, 3, 4, 5, 6, 7, 8, 9, 10, 11, 12, 13, 14, 15]"
  by (simp add: upt_conv_Cons)

lemma transpose_512: "transpose_vecs_512 (matrix 16 f) = matrix 16 (\<lambda>k i. f i k)"
  unfolding matrix_def upt_16
  by (simp add: transpose_vecs_512_def unpack_lo_128_def unpack_hi_128_def lane_shuffles Let_def)

lemma msgs_512: "transpose_msg_vecs16 inputs off = msg_lanes 16 inputs off"
proof -
  have "map (\<lambda>i. loadu 16 (drop off (inputs ! i))) [0..<16] = matrix 16 (\<lambda>i k. block_word inputs off i k)"
    using loadu_block [of 0 16 off inputs] by (simp add: matrix_def)
  then show ?thesis by (simp add: transpose_msg_vecs16_def transpose_512) (simp add: matrix_def msg_lanes_def)
qed

lemma stores_512:
  assumes "length h = 8" "of_width 16 h"
  shows "store_vecs_512 h = store_lanes 16 h"
proof -
  let ?p = "h @ replicate 8 (set1_epi32 16 0)"
  have "length ?p = 16" "of_width 16 ?p" using assms by (auto simp: of_width_def set1_epi32_def)
  then have "?p = matrix 16 (\<lambda>i k. ?p ! i ! k)" by (rule matrix_of)
  then have t: "transpose_vecs_512 ?p = matrix 16 (\<lambda>k i. ?p ! i ! k)" using transpose_512 by metis
  have "bytes_of (take 8 (transpose_vecs_512 ?p ! i)) = store_cv_words (lane i h)" if "i < 16" for i
  proof -
    have "take 8 (transpose_vecs_512 ?p ! i) = map (\<lambda>k. h ! k ! i) [0..<8]"
      using that assms(1) by (simp add: t matrix_def take_map nth_append)
    then show ?thesis by (simp only: store_lane [OF assms(1)])
  qed
  then show ?thesis unfolding store_vecs_512_def Let_def store_lanes_def
    by (intro arg_cong [where f = concat] map_cong refl) simp
qed

lemmas avx512_lanes = ops_avx512_def add_epi32_def xor_si_def rots_avx512 set1_epi32_def msg_lanes_def block_word_def
  lane_counters_def store_lanes_def

interpretation lanes4_avx512: lane_kernel lanes4_avx512 4
  by unfold_locales
    (simp_all add: lanes4_avx512_def avx512_lanes round_fn4_avx512_def transpose_msg_vecs4_def msgs_128 four_wide stores_128)

interpretation lanes8_avx512: lane_kernel lanes8_avx512 8
  by unfold_locales
    (simp_all add: lanes8_avx512_def avx512_lanes round_fn8_avx512_def transpose_msg_vecs8_def msgs_256 eight_wide stores_256)

interpretation lanes16_avx512: lane_kernel lanes16_avx512 16
  by unfold_locales
    (simp_all add: lanes16_avx512_def avx512_lanes round_fn16_avx512_def msgs_512 sixteen_counters stores_512)

lemma hash_many_avx512: "blake3_hash_many_avx512 = blake3_hash_many_portable"
  by (simp add: fun_eq_iff blake3_hash_many_avx512_def blake3_hash16_avx512_def blake3_hash8_avx512_def blake3_hash4_avx512_def
    hash_one_avx512_def in_place_avx512 lanes16_avx512.degree_loop_portable lanes8_avx512.degree_loop_portable
    lanes4_avx512.degree_loop_portable one_by_one_portable)

end
