(* ===== verification/Blake3_NEON.thy ===== *)
theory Blake3_NEON
  imports Blake3_SSE
begin

text \<open>
  The kernel of blake3_neon.c on the 128-bit vectors of ARM processors, four lanes as in \<open>Intrinsics\<close>: it hashes
  four inputs at once and leaves compression to the portable code. The rotation by 8 bits is the variant for gcc.
\<close>

section \<open>Instructions\<close>

text \<open>Both results of the 2x2 transposition; the 16-bit halves exchanged; shift right and insert below the top bits.\<close>

definition vtrnq_u32 :: "u32 list \<Rightarrow> u32 list \<Rightarrow> u32 list \<times> u32 list" where
  "vtrnq_u32 a b = ([a ! 0, b ! 0, a ! 2, b ! 2], [a ! 1, b ! 1, a ! 3, b ! 3])"

definition vrev32q_u16 :: "u32 list \<Rightarrow> u32 list" where
  "vrev32q_u16 v = map (\<lambda>w. ucast (drop_bit 16 w) OR push_bit 16 (ucast (ucast w :: 16 word))) v"

definition vsriq_n_u32 :: "u32 list \<Rightarrow> u32 list \<Rightarrow> nat \<Rightarrow> u32 list" where
  "vsriq_n_u32 a b n = map2 (\<lambda>x y. (x AND NOT (mask (32 - n))) OR drop_bit n y) a b"

text \<open>The byte shuffle of the compiler: byte \<open>i\<close> is the byte that entry \<open>i\<close> names.\<close>

definition builtin_shuffle :: "u32 list \<Rightarrow> nat list \<Rightarrow> u32 list" where
  "builtin_shuffle v is = words_of (map (\<lambda>i. bytes_of v ! i) is)"

section \<open>blake3_neon.c\<close>

definition rot16_neon :: "u32 list \<Rightarrow> u32 list" where
  "rot16_neon v = vrev32q_u16 v"

definition rot12_neon :: "u32 list \<Rightarrow> u32 list" where
  "rot12_neon v = vsriq_n_u32 (slli_epi32 v (32 - 12)) v 12"

definition rot8_neon :: "u32 list \<Rightarrow> u32 list" where
  "rot8_neon v = builtin_shuffle v [1, 2, 3, 0, 5, 6, 7, 4, 9, 10, 11, 8, 13, 14, 15, 12]"

definition rot7_neon :: "u32 list \<Rightarrow> u32 list" where
  "rot7_neon v = vsriq_n_u32 (slli_epi32 v (32 - 7)) v 7"

definition ops_neon :: vec_unit where
  "ops_neon = \<lparr>addv = add_epi32, xorv = xor_si, rot16 = rot16_neon, rot12 = rot12_neon, rot8 = rot8_neon, rot7 = rot7_neon\<rparr>"

definition round_fn4_neon :: "u32 list list \<Rightarrow> nat \<Rightarrow> u32 list list \<Rightarrow> u32 list list" where
  "round_fn4_neon = lanes_round ops_neon"

definition transpose_vecs_neon :: "u32 list list \<Rightarrow> u32 list list" where
  "transpose_vecs_neon vecs =
     (let rows01 = vtrnq_u32 (vecs ! 0) (vecs ! 1);
          rows23 = vtrnq_u32 (vecs ! 2) (vecs ! 3)
      in [take 2 (fst rows01) @ take 2 (fst rows23), take 2 (snd rows01) @ take 2 (snd rows23),
          drop 2 (fst rows01) @ drop 2 (fst rows23), drop 2 (snd rows01) @ drop 2 (snd rows23)])"

definition transpose_msg_vecs_neon :: "byte list list \<Rightarrow> nat \<Rightarrow> u32 list list" where
  "transpose_msg_vecs_neon inputs block_offset =
     (let out = (\<lambda>k. transpose_vecs_neon
            [loadu 4 (drop (block_offset + k * 16) (inputs ! 0)), loadu 4 (drop (block_offset + k * 16) (inputs ! 1)),
             loadu 4 (drop (block_offset + k * 16) (inputs ! 2)), loadu 4 (drop (block_offset + k * 16) (inputs ! 3))])
      in out 0 @ out 1 @ out 2 @ out 3)"

definition load_counters_neon :: "u64 \<Rightarrow> bool \<Rightarrow> u32 list \<times> u32 list" where
  "load_counters_neon counter increment_counter =
     (let m = (if increment_counter then NOT 0 else 0)
      in ([counter_low (counter + (m AND 0)), counter_low (counter + (m AND 1)),
           counter_low (counter + (m AND 2)), counter_low (counter + (m AND 3))],
          [counter_high (counter + (m AND 0)), counter_high (counter + (m AND 1)),
           counter_high (counter + (m AND 2)), counter_high (counter + (m AND 3))]))"

definition store_vecs_neon :: "u32 list list \<Rightarrow> byte list" where
  "store_vecs_neon h_vecs =
     (let a = transpose_vecs_neon (take 4 h_vecs);
          b = transpose_vecs_neon (drop 4 h_vecs)
      in bytes_of (a ! 0) @ bytes_of (b ! 0) @ bytes_of (a ! 1) @ bytes_of (b ! 1) @
         bytes_of (a ! 2) @ bytes_of (b ! 2) @ bytes_of (a ! 3) @ bytes_of (b ! 3))"

definition lanes_neon :: lane_unit where
  "lanes_neon = \<lparr>ops = ops_neon, set1 = set1_epi32 4, round_v = round_fn4_neon, transpose_msgs = transpose_msg_vecs_neon,
     counters = load_counters_neon, store_h = store_vecs_neon\<rparr>"

definition blake3_hash4_neon :: hash_n where
  "blake3_hash4_neon = lanes_hash lanes_neon"

definition hash_one_neon :: hash_1 where
  "hash_one_neon = hash_one_with blake3_compress_in_place_portable"

definition blake3_hash_many_neon :: hash_n where
  "blake3_hash_many_neon inputs blocks key counter increment_counter flags flags_start flags_end =
     degree_loop blake3_hash4_neon 4 blocks key increment_counter flags flags_start flags_end
       (one_by_one hash_one_neon blocks key increment_counter flags flags_start flags_end) inputs counter"

section \<open>The kernel computes what the portable code does\<close>

lemma vsri_rotr32:
  assumes "n < 32"
  shows "vsriq_n_u32 (slli_epi32 v (32 - n)) v n = map (\<lambda>w. rotr32 w n) v"
proof -
  have "bit ((push_bit (32 - n) w AND NOT (mask (32 - n))) OR drop_bit n w) k = bit (rotr32 w n) k"
    if "k < LENGTH(32)" for w k
    using that assms bit_imp_le_length [of w "n + k"] by (auto simp: rotr32_def bit_simps)
  then have "(push_bit (32 - n) w AND NOT (mask (32 - n))) OR drop_bit n w = rotr32 w n" for w by (rule bit_word_eqI)
  then show ?thesis by (simp add: vsriq_n_u32_def slli_epi32_def list_eq_iff_nth_eq)
qed

lemma vrev_rotr32: "vrev32q_u16 v = map (\<lambda>w. rotr32 w 16) v"
proof -
  have "bit ((ucast (drop_bit 16 w) OR push_bit 16 (ucast (ucast w :: 16 word))) :: u32) k = bit (rotr32 w 16) k"
    if "k < LENGTH(32)" for w :: u32 and k
    using that bit_imp_le_length [of w "16 + k"] by (auto simp: rotr32_def bit_simps)
  then have "ucast (drop_bit 16 w) OR push_bit 16 (ucast (ucast w :: 16 word)) = rotr32 w 16" for w by (rule bit_word_eqI)
  then show ?thesis by (simp add: vrev32q_u16_def)
qed

lemma rots_neon:
  assumes "length v = 4"
  shows "rot16_neon v = map (\<lambda>w. rotr32 w 16) v" "rot12_neon v = map (\<lambda>w. rotr32 w 12) v"
    "rot8_neon v = map (\<lambda>w. rotr32 w 8) v" "rot7_neon v = map (\<lambda>w. rotr32 w 7) v"
proof -
  from list4 [OF assms] obtain a b c d where v: "v = [a, b, c, d]" by blast
  show "rot8_neon v = map (\<lambda>w. rotr32 w 8) v"
    by (simp add: v rot8_neon_def builtin_shuffle_def bytes_of_4_words flip: load32_rotated)
qed (simp_all only: rot16_neon_def rot12_neon_def rot7_neon_def vrev_rotr32 vsri_rotr32)

lemma transpose_neon: "transpose_vecs_neon [a, b, c, d] = transpose_vecs_128 [a, b, c, d]"
  if "length a = 4" "length b = 4" "length c = 4" "length d = 4"
  using that by (auto dest!: list4 simp: transpose_vecs_neon_def transpose_vecs_128_def vtrnq_u32_def lane_shuffles Let_def)

lemma msgs_neon: "transpose_msg_vecs_neon = transpose_msg_vecs_128"
  by (simp add: fun_eq_iff transpose_msg_vecs_neon_def transpose_msg_vecs_128_def transpose_neon loadu_def)

lemma stores_neon:
  assumes "length h = 8" "of_width 4 h"
  shows "store_vecs_neon h = store_vecs_128 h"
proof -
  from assms obtain a b c d e f g i where h: "h = [a, b, c, d, e, f, g, i]"
    by (auto simp: numeral_eq_Suc length_Suc_conv)
  show ?thesis using assms(2) by (simp add: h store_vecs_neon_def store_vecs_128_def transpose_neon of_width_def)
qed

lemma counters_neon: "load_counters_neon = lane_counters 4"
  by (simp add: fun_eq_iff load_counters_neon_def lane_counters_def upt_4)

interpretation lanes_neon: lane_kernel lanes_neon 4
  by unfold_locales
    (simp_all add: lanes_neon_def ops_neon_def add_epi32_def xor_si_def rots_neon round_fn4_neon_def set1_epi32_def
      msgs_neon msgs_128 msg_lanes_def block_word_def counters_neon lane_counters_def stores_neon stores_128 store_lanes_def)

lemma hash_many_neon: "blake3_hash_many_neon = blake3_hash_many_portable"
  by (simp add: fun_eq_iff blake3_hash_many_neon_def blake3_hash4_neon_def hash_one_neon_def
    lanes_neon.degree_loop_portable one_by_one_portable)

end
