(* ===== verification/Blake3_Kernels.thy ===== *)
theory Blake3_Kernels
  imports Blake3_AVX512 Blake3_NEON Blake3_Dispatch
begin

text \<open>
  The vector kernels of the C files blake3_sse2.c, blake3_sse41.c, blake3_avx2.c and blake3_avx512.c in the
  places that the dispatcher has for them. The Makefile links the assembly files of the same functions
  instead.
\<close>

definition c_simd :: simd where
  "c_simd =
     \<lparr>compress_in_place_avx512 = blake3_compress_in_place_avx512, compress_in_place_sse41 = blake3_compress_in_place_sse41,
      compress_in_place_sse2 = blake3_compress_in_place_sse2, compress_xof_avx512 = blake3_compress_xof_avx512,
      compress_xof_sse41 = blake3_compress_xof_sse41, compress_xof_sse2 = blake3_compress_xof_sse2,
      hash_many_avx512 = blake3_hash_many_avx512, hash_many_avx2 = blake3_hash_many_avx2,
      hash_many_sse41 = blake3_hash_many_sse41, hash_many_sse2 = blake3_hash_many_sse2\<rparr>"

lemmas kernels_portable = in_place_sse2 in_place_sse41 in_place_avx512 xof_sse2 xof_sse41 xof_avx512
  hash_many_sse2 hash_many_sse41 hash_many_avx2 hash_many_avx512

interpretation ck: simd_kernels c_simd features for features
  by unfold_locales (simp_all add: c_simd_def kernels_portable)

lemma c_simd_kernels: "simd_kernels c_simd"
  by (rule ck.simd_kernels_axioms)

section \<open>Property\<close>

text \<open>
  C19. The vector kernels are right: whatever kernels the features of the processor make the dispatcher choose
  (SSE2, SSE4.1, AVX2 or AVX-512; rows of one block, or 4, 8 and 16 inputs in the lanes of vectors), they compute
  on every input what the portable code does, for every number of inputs and blocks, and for counters whose
  low word overflows between two lanes; and so does the NEON kernel.
\<close>

theorem vector_kernels_are_portable:
  "blake3_compress_in_place c_simd features = blake3_compress_in_place_portable \<and>
   blake3_compress_xof c_simd features = blake3_compress_xof_portable \<and>
   blake3_hash_many c_simd features = blake3_hash_many_portable \<and> blake3_hash_many_neon = blake3_hash_many_portable"
  by (simp add: hash_many_neon) (simp add: fun_eq_iff blake3_compress_in_place_def blake3_compress_xof_def blake3_hash_many_def ck.in_place ck.xof ck.many)

end
