(* ===== verification/Blake3_Properties.thy ===== *)
theory Blake3_Properties
  imports Blake3_Output Blake3_Kernels ProofOfWork ProofOfMemory
begin

text \<open>
  The properties of the BLAKE3 library, for any vector kernels that compute what the portable ones do and
  any set of detected features, and the hash as proof of work and proof of memory use it.
\<close>

section \<open>The hash of the consensus models\<close>

text \<open>The calls of src/pom.cpp, one update, and of src/pow.cpp, two updates.\<close>

definition blake3_digest :: "kernels \<Rightarrow> byte list \<Rightarrow> Blake3Hash" where
  "blake3_digest K m = blake3_hasher_finalize K (blake3_hasher_update K m blake3_hasher_init) 32"

definition pow_digest :: "kernels \<Rightarrow> Blake3Hash \<Rightarrow> Blake3Hash \<Rightarrow> Blake3Hash" where
  "pow_digest K prev inp =
     blake3_hasher_finalize K (blake3_hasher_update K inp (blake3_hasher_update K prev blake3_hasher_init)) 32"

context blake3_kernels
begin

lemma root_bytes_portable: "off < 64 \<Longrightarrow> root_bytes_loop K out c off n = root_bytes_loop portable_kernels out c off n"
proof (induction n arbitrary: c off rule: less_induct)
  case (less n)
  show ?case
  proof (cases "n = 0")
    case True
    then show ?thesis by (simp add: root_bytes_loop_zero portable.root_bytes_loop_zero)
  next
    case False
    then have "n - min n (64 - off) < n" using less.prems by simp
    from less.IH [OF this, of 0] show ?thesis
      using False less.prems by (simp add: root_bytes_step portable.root_bytes_step)
  qed
qed

lemma output_portable: "output_root_bytes K out seek n = output_root_bytes portable_kernels out seek n"
  by (simp add: output_root_bytes_def root_bytes_portable seek_split)

lemma whole_message:
  "length (concat parts) < 2 ^ 64 \<Longrightarrow>
     blake3_hasher_finalize_seek K (fold (blake3_hasher_update K) parts (hasher_init_base key flags)) seek n =
     output_root_bytes portable_kernels (ref_tree key flags 0 (concat parts)) seek n"
  by (simp only: hasher_refines_tree output_portable)

lemma digest_portable: "length m < 2 ^ 64 \<Longrightarrow> blake3_digest K m = blake3_digest portable_kernels m"
  using whole_message [of "[m]"] portable.whole_message [of "[m]"]
  by (simp add: blake3_digest_def blake3_hasher_finalize_def blake3_hasher_init_def)

lemma pow_digest_portable: "length prev + length inp < 2 ^ 64 \<Longrightarrow> pow_digest K prev inp = blake3_digest portable_kernels (prev @ inp)"
  using whole_message [of "[prev, inp]"] portable.whole_message [of "[prev @ inp]"]
  by (simp add: pow_digest_def blake3_digest_def blake3_hasher_finalize_def blake3_hasher_init_def)

lemma length_digest [simp]: "length (blake3_digest K m) = 32"
  by (simp add: blake3_digest_def blake3_hasher_finalize_def length_finalize_seek)

end

section \<open>Properties\<close>

text \<open>
  C18. The hasher refines the tree: cut a message of less than 2^64 bytes into any sequence of updates, and the
  output at any seek position is that of the root of the BLAKE3 tree over the whole message. So the result
  depends neither on how the message is cut nor on the kernels that the processor makes the library choose.
\<close>

theorem hasher_refines_message_tree:
  assumes "simd_kernels S" "length (concat parts) < 2 ^ 64"
  shows "blake3_hasher_finalize_seek (dispatch S features)
      (fold (blake3_hasher_update (dispatch S features)) parts (hasher_init_base key flags)) seek n =
    output_root_bytes portable_kernels (ref_tree key flags 0 (concat parts)) seek n"
  by (rule blake3_kernels.whole_message [OF simd_kernels.dispatch_kernels [OF assms(1)] assms(2)])

theorem hasher_refines_message_tree_witness:
  "blake3_hasher_finalize_seek (dispatch c_simd 5)
      (fold (blake3_hasher_update (dispatch c_simd 5)) [[1, 2], [], [3]] (hasher_init_base IV 0)) 0 32 =
    output_root_bytes portable_kernels (ref_tree IV 0 0 [1, 2, 3]) 0 32"
  using hasher_refines_message_tree [OF c_simd_kernels, of "[[1, 2], [], [3]]" 5 IV 0 0 32] by simp

text \<open>
  C25. The state of a hasher stays within its C structure: after any sequence of updates the stack has at most
  55 chaining values of 32 bytes, the buffer 64 bytes of which at most 64 are in use, and the chunk at most 16
  blocks and 1024 bytes.
\<close>

theorem hasher_state_fits:
  assumes "simd_kernels S" "length (concat parts) < 2 ^ 64"
  shows "hasher_fits (fold (blake3_hasher_update (dispatch S features)) parts (hasher_init_base key flags))"
proof -
  have "hasher_rel key flags ([] @ concat parts)
      (fold (blake3_hasher_update (dispatch S features)) parts (hasher_init_base key flags))"
    by (rule blake3_kernels.updates_rel [OF simd_kernels.dispatch_kernels [OF assms(1)] hasher_init_rel]) (use assms(2) in simp)
  then show ?thesis using assms(2) by (intro hasher_rel_fits) auto
qed

theorem hasher_state_fits_witness:
  "hasher_fits (fold (blake3_hasher_update (dispatch c_simd 1)) [replicate 1024 7, [9]] (hasher_init_base IV 0))"
  using hasher_state_fits [OF c_simd_kernels, of "[replicate 1024 7, [9]]" 1 IV 0] by simp

text \<open>
  The output is one stream: a hasher gives exactly the bytes that are asked for, and what it gives at a
  seek position is what it gives \<open>m\<close> bytes earlier without the first \<open>m\<close> bytes.
\<close>

lemma seek_continues_stream:
  assumes "simd_kernels S" "unat seek + m < 2 ^ 64"
  shows "length (blake3_hasher_finalize_seek (dispatch S features) h seek (m + n)) = m + n \<and>
    drop m (blake3_hasher_finalize_seek (dispatch S features) h seek (m + n)) =
    blake3_hasher_finalize_seek (dispatch S features) h (seek + of_nat m) n"
  using blake3_kernels.length_finalize_seek blake3_kernels.finalize_seek_drop simd_kernels.dispatch_kernels [OF assms(1)] assms(2)
  by blast

lemma seek_continues_stream_witness:
  "drop 100 (blake3_hasher_finalize_seek (dispatch c_simd 0) blake3_hasher_init 30 132) =
    blake3_hasher_finalize_seek (dispatch c_simd 0) blake3_hasher_init 130 32"
  using seek_continues_stream [OF c_simd_kernels, of 30 100 0 blake3_hasher_init 32] by simp

text \<open>
  A reset hasher is a new one: whatever it was fed before, what it is fed afterwards is hashed with its
  key and flags as by a hasher just initialised.
\<close>

lemma reset_hasher_hashes_afresh:
  assumes "simd_kernels S" "length (concat before) < 2 ^ 64" "length (concat parts) < 2 ^ 64"
  shows "blake3_hasher_finalize_seek (dispatch S features)
      (fold (blake3_hasher_update (dispatch S features)) parts
        (blake3_hasher_reset (fold (blake3_hasher_update (dispatch S features)) before (hasher_init_base key flags)))) seek n =
    blake3_hasher_finalize_seek (dispatch S features)
      (fold (blake3_hasher_update (dispatch S features)) parts (hasher_init_base key flags)) seek n"
proof -
  note K = simd_kernels.dispatch_kernels [OF assms(1), of features]
  have "hasher_rel key flags ([] @ concat before)
      (fold (blake3_hasher_update (dispatch S features)) before (hasher_init_base key flags))"
    by (rule blake3_kernels.updates_rel [OF K hasher_init_rel]) (use assms(2) in simp)
  from blake3_kernels.updates_rel [OF K reset_rel [OF this], of parts] show ?thesis
    using assms(3) blake3_kernels.finalize_rel [OF K] blake3_kernels.hasher_refines_tree [OF K assms(3)] by simp
qed

lemma reset_hasher_hashes_afresh_witness:
  "blake3_hasher_finalize_seek (dispatch c_simd 0)
      (fold (blake3_hasher_update (dispatch c_simd 0)) [[3]]
        (blake3_hasher_reset (fold (blake3_hasher_update (dispatch c_simd 0)) [replicate 1025 1, [2]] (hasher_init_base IV 0)))) 0 32 =
    blake3_hasher_finalize_seek (dispatch c_simd 0)
      (fold (blake3_hasher_update (dispatch c_simd 0)) [[3]] (hasher_init_base IV 0)) 0 32"
  using reset_hasher_hashes_afresh [OF c_simd_kernels, of "[replicate 1025 1, [2]]" "[[3]]" 0 IV 0 0 32] by simp

text \<open>
  C27. Detection is safe: without the operating system saving the ZMM state no AVX-512 kernel is ever called,
  without it saving the YMM state no AVX2 kernel, and without SSE4.1 none of its kernels; and the features
  are detected once, every later call gives the cached ones.
\<close>

theorem dispatch_avoids_unsupported_kernels:
  "let f = fst (get_cpu_features C UNDEFINED_FEATURES) in
   (\<not> os_saves_avx512 C \<longrightarrow>
      dispatch (S\<lparr>compress_in_place_avx512 := k1, compress_xof_avx512 := k2, hash_many_avx512 := k3\<rparr>) f = dispatch S f) \<and>
   (\<not> os_saves_avx C \<longrightarrow> dispatch (S\<lparr>hash_many_avx2 := k4\<rparr>) f = dispatch S f) \<and>
   (\<not> bit (ecx (cpuid C 1)) 19 \<longrightarrow>
      dispatch (S\<lparr>compress_in_place_sse41 := k1, compress_xof_sse41 := k2, hash_many_sse41 := k3\<rparr>) f = dispatch S f) \<and>
   get_cpu_features C' (snd (get_cpu_features C UNDEFINED_FEATURES)) = (f, f)"
proof -
  let ?f = "detect_features C"
  have nz: "(?f AND push_bit n 1 \<noteq> 0) = bit ?f n" if "n < 32" for n
    by (rule and_push_bit_one) (use that in simp)
  have b: "(?f AND AVX512VL \<noteq> 0) = bit ?f 6" "(?f AND AVX2 \<noteq> 0) = bit ?f 4" "(?f AND SSE41 \<noteq> 0) = bit ?f 2"
    unfolding feature_defs by (rule nz, simp)+
  have both: "?f AND (AVX512F OR AVX512VL) = AVX512F OR AVX512VL \<Longrightarrow> bit ?f 6"
  proof -
    assume "?f AND (AVX512F OR AVX512VL) = AVX512F OR AVX512VL"
    from arg_cong [OF this, of "\<lambda>w. bit w 6"] show ?thesis by (simp add: feature_defs bit_simps)
  qed
  have nu: "?f \<noteq> UNDEFINED_FEATURES"
  proof
    assume "?f = UNDEFINED_FEATURES"
    from arg_cong [OF this, of "\<lambda>w. bit w 30"] show False by (simp add: detected_bits UNDEFINED_FEATURES_def bit_simps)
  qed
  have g: "get_cpu_features C UNDEFINED_FEATURES = (?f, ?f)" "get_cpu_features C' ?f = (?f, ?f)"
    using nu by (simp_all add: get_cpu_features_def Let_def)
  note defs = dispatch_def fun_eq_iff blake3_compress_in_place_def blake3_compress_xof_def blake3_hash_many_def b
  show ?thesis
    unfolding g fst_conv snd_conv Let_def
  proof (intro conjI impI refl)
    assume "\<not> os_saves_avx512 C"
    then have "\<not> bit ?f 6" by (simp add: detected_bits)
    with both show "dispatch (S\<lparr>compress_in_place_avx512 := k1, compress_xof_avx512 := k2, hash_many_avx512 := k3\<rparr>) ?f = dispatch S ?f"
      by (auto simp: defs)
  next
    assume "\<not> os_saves_avx C"
    then have "\<not> bit ?f 4" by (simp add: detected_bits)
    then show "dispatch (S\<lparr>hash_many_avx2 := k4\<rparr>) ?f = dispatch S ?f" by (auto simp: defs)
  next
    assume "\<not> bit (ecx (cpuid C 1)) 19"
    then have "\<not> bit ?f 2" by (simp add: detected_bits)
    then show "dispatch (S\<lparr>compress_in_place_sse41 := k1, compress_xof_sse41 := k2, hash_many_sse41 := k3\<rparr>) ?f = dispatch S ?f"
      by (auto simp: defs)
  qed
qed

theorem dispatch_avoids_unsupported_kernels_witness:
  "let none = \<lparr>eax = 0, ebx = 0, ecx = 0, edx = 0\<rparr>;
       C = \<lparr>cpuid = (\<lambda>_. none), cpuidex = (\<lambda>_ _. none), xgetbv_regs = (0, 0)\<rparr>;
       f = fst (get_cpu_features C UNDEFINED_FEATURES)
   in dispatch (c_simd\<lparr>hash_many_avx2 := \<lambda>_ _ _ _ _ _ _ _. []\<rparr>) f = dispatch c_simd f"
proof -
  let ?none = "\<lparr>eax = 0, ebx = 0, ecx = 0, edx = 0\<rparr>"
  let ?C = "\<lparr>cpuid = (\<lambda>_. ?none), cpuidex = (\<lambda>_ _. ?none), xgetbv_regs = (0, 0)\<rparr>"
  have "\<not> os_saves_avx ?C" by (simp add: os_saves_avx_def)
  then show ?thesis
    using dispatch_avoids_unsupported_kernels [where C = ?C and C' = ?C and S = c_simd and ?k4.0 = "\<lambda>_ _ _ _ _ _ _ _. []"] by (simp add: Let_def)
qed

text \<open>
  C20. Nodes agree on solutions: whatever processors two nodes run on, proof of work and proof of memory
  verify every solution alike, every hash has 32 bytes, and hashing previous hash and solution in two
  updates, as proof of work does, is hashing them joined together.
\<close>

theorem nodes_agree_on_solutions:
  assumes "simd_kernels S" "simd_kernels S'" "length prev + length h < 2 ^ 64" "length (HashInput_bytes inp) < 2 ^ 64"
  shows "pow_verify_solution (blake3_digest (dispatch S f)) inp h prev d = pow_verify_solution (blake3_digest (dispatch S' f')) inp h prev d \<and>
    pom_verify_solution (blake3_digest (dispatch S f)) inp h prev d = pom_verify_solution (blake3_digest (dispatch S' f')) inp h prev d \<and>
    pow_digest (dispatch S f) prev h = blake3_digest (dispatch S' f') (prev @ h) \<and> length (pow_digest (dispatch S f) prev h) = 32"
proof -
  have len: "length (prev @ h) < 2 ^ 64" "length prev < 2 ^ 64" using assms(3) by simp_all
  have dig: "blake3_digest (dispatch T g) m = blake3_digest portable_kernels m" if "simd_kernels T" "length m < 2 ^ 64" for T g m
    using blake3_kernels.digest_portable simd_kernels.dispatch_kernels that by blast
  have "pow_digest (dispatch S f) prev h = blake3_digest portable_kernels (prev @ h)"
    by (rule blake3_kernels.pow_digest_portable [OF simd_kernels.dispatch_kernels [OF assms(1)] assms(3)])
  then show ?thesis
    using len assms(4) dig [OF assms(1)] dig [OF assms(2)] portable.length_digest
    by (simp add: pow_verify_solution_def pom_verify_solution_def)
qed

theorem nodes_agree_on_solutions_witness:
  "pow_verify_solution (blake3_digest (dispatch c_simd 1)) zero_HashInput (zeros 32) (zeros 32) 20 =
    pow_verify_solution (blake3_digest (dispatch c_simd 127)) zero_HashInput (zeros 32) (zeros 32) 20"
  using nodes_agree_on_solutions [OF c_simd_kernels c_simd_kernels, of "zeros 32" "zeros 32" zero_HashInput 1 20 127]
  by (simp add: HashInput_bytes_def zero_HashInput_def)

text \<open>
  The bit counting without compiler builtins: the binary search gives the highest set bit of every word
  other than 0, the loop that clears the lowest set bit counts the set bits of every word.
\<close>

lemma portable_bit_counting:
  "(x = 0 \<or> highest_one_loop x = highest_one (unat x) \<and> 2 ^ highest_one_loop x \<le> unat x \<and> unat x < 2 * 2 ^ highest_one_loop x) \<and>
   popcnt_loop x 0 = popcnt (unat x)"
  using highest_one_loop_eq [of x] highest_one_bounds [of "unat x"] by (cases "x = 0") (auto simp: popcnt_loop_popcnt unat_eq_0)

end
