(* ===== verification/Blake3_Example.thy ===== *)
theory Blake3_Example
  imports Blake3_Properties Console
begin

text \<open>
  The program of external/blake3/example.c: it hashes its standard input with the incremental hasher and prints
  the hash in hexadecimal. The results of \<open>read\<close> are a list, each an error with its text or the bytes it put into
  the buffer of 65536 bytes; no bytes at all mean the end of the input.
\<close>

section \<open>The program\<close>

type_synonym read_result = "string + byte list"

text \<open>The loop over \<open>read\<close>; \<open>None\<close> while it waits for a further result.\<close>

fun read_loop :: "kernels \<Rightarrow> read_result list \<Rightarrow> hasher \<Rightarrow> (string + hasher) option" where
  "read_loop K [] h = None"
| "read_loop K (Inl err # rs) h = Some (Inl err)"
| "read_loop K (Inr buf # rs) h =
     (if 0 < length buf then read_loop K rs (blake3_hasher_update K buf h) else Some (Inr h))"

text \<open>What the process has written to its two output streams when it ends, and its exit status.\<close>

record ending =
  std_out :: string
  std_err :: string
  exit_status :: int

definition example_main :: "kernels \<Rightarrow> read_result list \<Rightarrow> ending option" where
  "example_main K reads =
     (case read_loop K reads blake3_hasher_init of
        None \<Rightarrow> None
      | Some (Inl err) \<Rightarrow> Some \<lparr>std_out = [], std_err = line (''read failed: '' @ fmt_s err), exit_status = 1\<rparr>
      | Some (Inr h) \<Rightarrow>
          let output = blake3_hasher_finalize K h BLAKE3_OUT_LEN
          in Some \<lparr>std_out = concat (map (\<lambda>i. fmt_02x (output ! i)) [0..<BLAKE3_OUT_LEN]) @ [newline], std_err = [],
                   exit_status = 0\<rparr>)"

section \<open>Runs\<close>

lemma read_loop_parts:
  "\<forall>p\<in>set parts. p \<noteq> [] \<Longrightarrow> read_loop K (map Inr parts @ rs) h = read_loop K rs (fold (blake3_hasher_update K) parts h)"
  by (induction parts arbitrary: h) simp_all

lemma map_nth_upt: "length xs = n \<Longrightarrow> map (\<lambda>i. f (xs ! i)) [0..<n] = map f xs"
  by (rule nth_equalityI) simp_all

text \<open>
  C38. The example program prints the BLAKE3 hash of its input: however the input of less than 2^64 bytes arrives
  in reads, and whatever kernels the processor selects, it ends with status 0 and one line with the hexadecimal
  digits of the root of the message's hash tree; when a read fails, it prints nothing of the hash and ends
  with status 1.
\<close>

theorem example_prints_input_hash:
  assumes "simd_kernels S" "\<forall>p\<in>set parts. p \<noteq> []" "length (concat parts) < 2 ^ 64"
  shows "example_main (dispatch S features) (map Inr parts @ Inr [] # rest) =
      Some \<lparr>std_out = line (hex_text (output_root_bytes portable_kernels (ref_tree IV 0 0 (concat parts)) 0 32)),
            std_err = [], exit_status = 0\<rparr> \<and>
    example_main (dispatch S features) (map Inr parts @ Inl err # rest) =
      Some \<lparr>std_out = [], std_err = line (''read failed: '' @ fmt_s err), exit_status = 1\<rparr>"
proof -
  let ?K = "dispatch S features"
  let ?out = "output_root_bytes portable_kernels (ref_tree IV 0 0 (concat parts)) 0 32"
  note K = simd_kernels.dispatch_kernels [OF assms(1), of features]
  have fin: "blake3_hasher_finalize ?K (fold (blake3_hasher_update ?K) parts blake3_hasher_init) 32 = ?out"
    unfolding blake3_hasher_finalize_def blake3_hasher_init_def
    by (rule blake3_kernels.whole_message [OF K assms(3)])
  have "length ?out = 32"
    unfolding fin [symmetric] blake3_hasher_finalize_def by (rule blake3_kernels.length_finalize_seek [OF K])
  then have "concat (map (\<lambda>i. fmt_02x (?out ! i)) [0..<32]) = hex_text ?out"
    unfolding hex_text_def by (simp only: map_nth_upt)
  then show ?thesis
    using assms(2) fin by (simp add: example_main_def read_loop_parts BLAKE3_OUT_LEN_def)
qed

theorem example_prints_input_hash_witness:
  "example_main (dispatch c_simd 5) [Inr [1, 2], Inr [3], Inr []] =
      Some \<lparr>std_out = line (hex_text (output_root_bytes portable_kernels (ref_tree IV 0 0 [1, 2, 3]) 0 32)),
            std_err = [], exit_status = 0\<rparr> \<and>
    example_main (dispatch c_simd 5) [Inr [1, 2], Inr [3], Inl ''Input/output error''] =
      Some \<lparr>std_out = [], std_err = line (''read failed: '' @ ''Input/output error''), exit_status = 1\<rparr>"
  using example_prints_input_hash [OF c_simd_kernels, of "[[1, 2], [3]]" 5 "[]" "''Input/output error''"]
  by (simp add: fmt_s_def)

end
