(* ===== verification/Ripemd160.thy ===== *)
theory Ripemd160
  imports Prelude
begin

text \<open>
  RIPEMD-160, external/base58/ripemd160.c and memzero.c. The macros P and P2 update the registers A to E, numbered 0 to 4; a call of P2 is
  a tuple of its arguments, and the calls of a round are the list of them in the order of the source.
\<close>

section \<open>The context\<close>

record RIPEMD160_CTX =
  rmd_total0 :: u32
  rmd_total1 :: u32
  rmd_state :: "u32 list"
  rmd_buffer :: "byte list"

text \<open>The loop of \<open>memzero\<close> where no library function is there for it.\<close>

function memzero_loop :: "byte list \<Rightarrow> nat \<Rightarrow> nat \<Rightarrow> byte list" where
  "memzero_loop pnt len i = (if i < len then memzero_loop (pnt[i := 0]) len (i + 1) else pnt)"
  by pat_completeness auto
termination by (relation "measure (\<lambda>(_, len, i). len - i)") auto

declare memzero_loop.simps [simp del]

definition memzero :: "byte list \<Rightarrow> nat \<Rightarrow> byte list" where
  "memzero pnt len = memzero_loop pnt len 0"

definition zero_CTX :: RIPEMD160_CTX where
  "zero_CTX = \<lparr>rmd_total0 = 0, rmd_total1 = 0, rmd_state = replicate 5 0, rmd_buffer = memzero (replicate 64 0) 64\<rparr>"

definition ripemd160_Init :: RIPEMD160_CTX where
  "ripemd160_Init =
     zero_CTX\<lparr>rmd_total0 := 0, rmd_total1 := 0,
       rmd_state := [0x67452301, 0xEFCDAB89, 0x98BADCFE, 0x10325476, 0xC3D2E1F0]\<rparr>"

section \<open>The compression function\<close>

definition GET_UINT32_LE :: "byte list \<Rightarrow> nat \<Rightarrow> u32" where
  "GET_UINT32_LE b i =
     ucast (b ! i) OR push_bit 8 (ucast (b ! (i + 1))) OR push_bit 16 (ucast (b ! (i + 2))) OR push_bit 24 (ucast (b ! (i + 3)))"

definition PUT_UINT32_LE :: "u32 \<Rightarrow> byte list" where
  "PUT_UINT32_LE n =
     [ucast (n AND 0xFF), ucast (drop_bit 8 n AND 0xFF), ucast (drop_bit 16 n AND 0xFF), ucast (drop_bit 24 n AND 0xFF)]"

definition F1 :: "u32 \<Rightarrow> u32 \<Rightarrow> u32 \<Rightarrow> u32" where "F1 x y z = (x XOR y XOR z)"
definition F2 :: "u32 \<Rightarrow> u32 \<Rightarrow> u32 \<Rightarrow> u32" where "F2 x y z = (x AND y) OR (NOT x AND z)"
definition F3 :: "u32 \<Rightarrow> u32 \<Rightarrow> u32 \<Rightarrow> u32" where "F3 x y z = (x OR NOT y) XOR z"
definition F4 :: "u32 \<Rightarrow> u32 \<Rightarrow> u32 \<Rightarrow> u32" where "F4 x y z = (x AND z) OR (y AND NOT z)"
definition F5 :: "u32 \<Rightarrow> u32 \<Rightarrow> u32 \<Rightarrow> u32" where "F5 x y z = (x XOR (y OR NOT z))"

definition rmd_S :: "u32 \<Rightarrow> nat \<Rightarrow> u32" where
  "rmd_S x n = push_bit n x OR drop_bit (32 - n) x"

definition rmd_P ::
  "nat \<Rightarrow> nat \<Rightarrow> nat \<Rightarrow> nat \<Rightarrow> nat \<Rightarrow> nat \<Rightarrow> nat \<Rightarrow> (u32 \<Rightarrow> u32 \<Rightarrow> u32 \<Rightarrow> u32) \<Rightarrow> u32 \<Rightarrow> u32 list \<Rightarrow> u32 list \<Rightarrow> u32 list" where
  "rmd_P a b c d e r s f k X st =
     (let st = st[a := st ! a + (f (st ! b) (st ! c) (st ! d) + X ! r + k)];
          st = st[a := rmd_S (st ! a) s + st ! e];
          st = st[c := rmd_S (st ! c) 10]
      in st)"

type_synonym rmd_call = "nat \<times> nat \<times> nat \<times> nat \<times> nat \<times> nat \<times> nat \<times> nat \<times> nat"

text \<open>The registers of the two lines, \<open>A\<close> to \<open>E\<close> and \<open>Ap\<close> to \<open>Ep\<close>.\<close>

definition rmd_P2 ::
  "(u32 \<Rightarrow> u32 \<Rightarrow> u32 \<Rightarrow> u32) \<Rightarrow> u32 \<Rightarrow> (u32 \<Rightarrow> u32 \<Rightarrow> u32 \<Rightarrow> u32) \<Rightarrow> u32 \<Rightarrow> u32 list \<Rightarrow> rmd_call
     \<Rightarrow> u32 list \<times> u32 list \<Rightarrow> u32 list \<times> u32 list" where
  "rmd_P2 F K Fp Kp X call lines =
     (case call of (a, b, c, d, e, r, s, rp, sp) \<Rightarrow>
        (rmd_P a b c d e r s F K X (fst lines), rmd_P a b c d e rp sp Fp Kp X (snd lines)))"

definition ROUND_1 :: "rmd_call list" where
  "ROUND_1 =
    [(0, 1, 2, 3, 4, 0, 11, 5, 8), (4, 0, 1, 2, 3, 1, 14, 14, 9), (3, 4, 0, 1, 2, 2, 15, 7, 9), (2, 3, 4, 0, 1, 3, 12, 0, 11),
     (1, 2, 3, 4, 0, 4, 5, 9, 13), (0, 1, 2, 3, 4, 5, 8, 2, 15), (4, 0, 1, 2, 3, 6, 7, 11, 15), (3, 4, 0, 1, 2, 7, 9, 4, 5),
     (2, 3, 4, 0, 1, 8, 11, 13, 7), (1, 2, 3, 4, 0, 9, 13, 6, 7), (0, 1, 2, 3, 4, 10, 14, 15, 8), (4, 0, 1, 2, 3, 11, 15, 8, 11),
     (3, 4, 0, 1, 2, 12, 6, 1, 14), (2, 3, 4, 0, 1, 13, 7, 10, 14), (1, 2, 3, 4, 0, 14, 9, 3, 12), (0, 1, 2, 3, 4, 15, 8, 12, 6)]"

definition ROUND_2 :: "rmd_call list" where
  "ROUND_2 =
    [(4, 0, 1, 2, 3, 7, 7, 6, 9), (3, 4, 0, 1, 2, 4, 6, 11, 13), (2, 3, 4, 0, 1, 13, 8, 3, 15), (1, 2, 3, 4, 0, 1, 13, 7, 7),
     (0, 1, 2, 3, 4, 10, 11, 0, 12), (4, 0, 1, 2, 3, 6, 9, 13, 8), (3, 4, 0, 1, 2, 15, 7, 5, 9), (2, 3, 4, 0, 1, 3, 15, 10, 11),
     (1, 2, 3, 4, 0, 12, 7, 14, 7), (0, 1, 2, 3, 4, 0, 12, 15, 7), (4, 0, 1, 2, 3, 9, 15, 8, 12), (3, 4, 0, 1, 2, 5, 9, 12, 7),
     (2, 3, 4, 0, 1, 2, 11, 4, 6), (1, 2, 3, 4, 0, 14, 7, 9, 15), (0, 1, 2, 3, 4, 11, 13, 1, 13), (4, 0, 1, 2, 3, 8, 12, 2, 11)]"

definition ROUND_3 :: "rmd_call list" where
  "ROUND_3 =
    [(3, 4, 0, 1, 2, 3, 11, 15, 9), (2, 3, 4, 0, 1, 10, 13, 5, 7), (1, 2, 3, 4, 0, 14, 6, 1, 15), (0, 1, 2, 3, 4, 4, 7, 3, 11),
     (4, 0, 1, 2, 3, 9, 14, 7, 8), (3, 4, 0, 1, 2, 15, 9, 14, 6), (2, 3, 4, 0, 1, 8, 13, 6, 6), (1, 2, 3, 4, 0, 1, 15, 9, 14),
     (0, 1, 2, 3, 4, 2, 14, 11, 12), (4, 0, 1, 2, 3, 7, 8, 8, 13), (3, 4, 0, 1, 2, 0, 13, 12, 5), (2, 3, 4, 0, 1, 6, 6, 2, 14),
     (1, 2, 3, 4, 0, 13, 5, 10, 13), (0, 1, 2, 3, 4, 11, 12, 0, 13), (4, 0, 1, 2, 3, 5, 7, 4, 7), (3, 4, 0, 1, 2, 12, 5, 13, 5)]"

definition ROUND_4 :: "rmd_call list" where
  "ROUND_4 =
    [(2, 3, 4, 0, 1, 1, 11, 8, 15), (1, 2, 3, 4, 0, 9, 12, 6, 5), (0, 1, 2, 3, 4, 11, 14, 4, 8), (4, 0, 1, 2, 3, 10, 15, 1, 11),
     (3, 4, 0, 1, 2, 0, 14, 3, 14), (2, 3, 4, 0, 1, 8, 15, 11, 14), (1, 2, 3, 4, 0, 12, 9, 15, 6), (0, 1, 2, 3, 4, 4, 8, 0, 14),
     (4, 0, 1, 2, 3, 13, 9, 5, 6), (3, 4, 0, 1, 2, 3, 14, 12, 9), (2, 3, 4, 0, 1, 7, 5, 2, 12), (1, 2, 3, 4, 0, 15, 6, 13, 9),
     (0, 1, 2, 3, 4, 14, 8, 9, 12), (4, 0, 1, 2, 3, 5, 6, 7, 5), (3, 4, 0, 1, 2, 6, 5, 10, 15), (2, 3, 4, 0, 1, 2, 12, 14, 8)]"

definition ROUND_5 :: "rmd_call list" where
  "ROUND_5 =
    [(1, 2, 3, 4, 0, 4, 9, 12, 8), (0, 1, 2, 3, 4, 0, 15, 15, 5), (4, 0, 1, 2, 3, 5, 5, 10, 12), (3, 4, 0, 1, 2, 9, 11, 4, 9),
     (2, 3, 4, 0, 1, 7, 6, 1, 12), (1, 2, 3, 4, 0, 12, 8, 5, 5), (0, 1, 2, 3, 4, 2, 13, 8, 14), (4, 0, 1, 2, 3, 10, 12, 7, 6),
     (3, 4, 0, 1, 2, 14, 5, 6, 8), (2, 3, 4, 0, 1, 1, 12, 2, 13), (1, 2, 3, 4, 0, 3, 13, 13, 6), (0, 1, 2, 3, 4, 8, 14, 14, 5),
     (4, 0, 1, 2, 3, 11, 11, 0, 15), (3, 4, 0, 1, 2, 6, 8, 3, 13), (2, 3, 4, 0, 1, 15, 5, 9, 11), (1, 2, 3, 4, 0, 13, 6, 11, 11)]"

definition ripemd160_process :: "u32 list \<Rightarrow> byte list \<Rightarrow> u32 list" where
  "ripemd160_process st data =
     (let X = map (\<lambda>i. GET_UINT32_LE data (4 * i)) [0..<16];
          lines = (st, st);
          lines = fold (rmd_P2 F1 0x00000000 F5 0x50A28BE6 X) ROUND_1 lines;
          lines = fold (rmd_P2 F2 0x5A827999 F4 0x5C4DD124 X) ROUND_2 lines;
          lines = fold (rmd_P2 F3 0x6ED9EBA1 F3 0x6D703EF3 X) ROUND_3 lines;
          lines = fold (rmd_P2 F4 0x8F1BBCDC F2 0x7A6D76E9 X) ROUND_4 lines;
          lines = fold (rmd_P2 F5 0xA953FD4E F1 0x00000000 X) ROUND_5 lines;
          l = fst lines; p = snd lines;
          C = st ! 1 + l ! 2 + p ! 3;
          st = st[1 := st ! 2 + l ! 3 + p ! 4];
          st = st[2 := st ! 3 + l ! 4 + p ! 0];
          st = st[3 := st ! 4 + l ! 0 + p ! 1];
          st = st[4 := st ! 0 + l ! 1 + p ! 2];
          st = st[0 := C]
      in st)"

section \<open>Hashing\<close>

text \<open>The loop of \<open>ripemd160_Update\<close> over whole blocks.\<close>

function rmd_blocks_loop :: "byte list \<Rightarrow> RIPEMD160_CTX \<Rightarrow> byte list \<times> RIPEMD160_CTX" where
  "rmd_blocks_loop inp ctx =
     (if length inp \<ge> 64
      then rmd_blocks_loop (drop 64 inp) (ctx\<lparr>rmd_state := ripemd160_process (rmd_state ctx) inp\<rparr>)
      else (inp, ctx))"
  by pat_completeness auto
termination by (relation "measure (\<lambda>(inp, _). length inp)") auto

declare rmd_blocks_loop.simps [simp del]

definition ripemd160_Update :: "byte list \<Rightarrow> RIPEMD160_CTX \<Rightarrow> RIPEMD160_CTX" where
  "ripemd160_Update inp ctx =
     (let ilen = length inp
      in if ilen = 0 then ctx
         else
           let left = unat (rmd_total0 ctx AND 0x3F);
               fill = 64 - left;
               ctx = ctx\<lparr>rmd_total0 := rmd_total0 ctx + of_nat ilen\<rparr>;
               ctx = ctx\<lparr>rmd_total0 := rmd_total0 ctx AND 0xFFFFFFFF\<rparr>;
               ctx = (if rmd_total0 ctx < of_nat ilen then ctx\<lparr>rmd_total1 := rmd_total1 ctx + 1\<rparr> else ctx);
               (inp, left, ctx) =
                 (if left \<noteq> 0 \<and> ilen \<ge> fill
                  then let ctx = ctx\<lparr>rmd_buffer := overlay left (take fill inp) (rmd_buffer ctx)\<rparr>;
                           ctx = ctx\<lparr>rmd_state := ripemd160_process (rmd_state ctx) (rmd_buffer ctx)\<rparr>
                       in (drop fill inp, 0, ctx)
                  else (inp, left, ctx));
               (inp, ctx) = rmd_blocks_loop inp ctx
           in if length inp > 0 then ctx\<lparr>rmd_buffer := overlay left inp (rmd_buffer ctx)\<rparr> else ctx)"

definition ripemd160_padding :: "byte list" where
  "ripemd160_padding = 0x80 # replicate 63 0"

text \<open>The context afterwards and the 20 bytes written to \<open>output\<close>.\<close>

definition ripemd160_Final :: "RIPEMD160_CTX \<Rightarrow> RIPEMD160_CTX \<times> byte list" where
  "ripemd160_Final ctx =
     (let high = drop_bit 29 (rmd_total0 ctx) OR push_bit 3 (rmd_total1 ctx);
          low = push_bit 3 (rmd_total0 ctx);
          msglen = PUT_UINT32_LE low @ PUT_UINT32_LE high;
          final = unat (rmd_total0 ctx AND 0x3F);
          padn = (if final < 56 then 56 - final else 120 - final);
          ctx = ripemd160_Update (take padn ripemd160_padding) ctx;
          ctx = ripemd160_Update msglen ctx;
          output = PUT_UINT32_LE (rmd_state ctx ! 0) @ PUT_UINT32_LE (rmd_state ctx ! 1) @
                   PUT_UINT32_LE (rmd_state ctx ! 2) @ PUT_UINT32_LE (rmd_state ctx ! 3) @ PUT_UINT32_LE (rmd_state ctx ! 4)
      in (zero_CTX, output))"

definition ripemd160 :: "byte list \<Rightarrow> byte list" where
  "ripemd160 msg = snd (ripemd160_Final (ripemd160_Update msg ripemd160_Init))"

end
