(* ===== verification/Ripemd160_Correct.thy ===== *)
theory Ripemd160_Correct
  imports Ripemd160
begin

text \<open>
  RIPEMD-160 against its definition: the rounds written out in the source are the ones that the permutations
  of the definition generate, and hashing in pieces is hashing the padded message block by block.
\<close>

section \<open>The definition\<close>

text \<open>
  Word \<open>j\<close> of round \<open>k\<close> is chosen by \<open>\<rho>^k\<close> in the left line and \<open>\<rho>^k \<circ> \<pi>\<close> in the right one; the shift
  depends on the round and the word only.
\<close>

definition rho :: "nat \<Rightarrow> nat" where
  "rho i = [7, 4, 13, 1, 10, 6, 15, 3, 12, 0, 9, 5, 2, 14, 11, 8] ! i"

definition pi_perm :: "nat \<Rightarrow> nat" where
  "pi_perm i = (9 * i + 5) mod 16"

fun rho_pow :: "nat \<Rightarrow> nat \<Rightarrow> nat" where
  "rho_pow 0 i = i"
| "rho_pow (Suc k) i = rho_pow k (rho i)"

definition shifts :: "nat list list" where
  "shifts =
    [[11, 14, 15, 12, 5, 8, 7, 9, 11, 13, 14, 15, 6, 7, 9, 8],
     [12, 13, 11, 15, 6, 9, 9, 7, 12, 15, 11, 13, 7, 8, 7, 7],
     [13, 15, 14, 11, 7, 7, 6, 8, 13, 14, 13, 12, 5, 5, 6, 9],
     [14, 11, 12, 14, 8, 6, 5, 5, 15, 12, 15, 14, 9, 9, 8, 6],
     [15, 12, 13, 13, 9, 5, 8, 6, 14, 11, 12, 11, 8, 6, 5, 5]]"

definition left_words :: "nat \<Rightarrow> (nat \<times> nat) list" where
  "left_words k = map (\<lambda>j. (rho_pow k j, shifts ! k ! rho_pow k j)) [0..<16]"

definition right_words :: "nat \<Rightarrow> (nat \<times> nat) list" where
  "right_words k = map (\<lambda>j. (rho_pow k (pi_perm j), shifts ! k ! rho_pow k (pi_perm j))) [0..<16]"

type_synonym chain = "u32 \<times> u32 \<times> u32 \<times> u32 \<times> u32"

definition ref_step :: "(u32 \<Rightarrow> u32 \<Rightarrow> u32 \<Rightarrow> u32) \<Rightarrow> u32 \<Rightarrow> u32 list \<Rightarrow> nat \<times> nat \<Rightarrow> chain \<Rightarrow> chain" where
  "ref_step f k X rs st =
     (case (rs, st) of ((r, s), (a, b, c, d, e)) \<Rightarrow> (e, rmd_S (a + (f b c d + X ! r + k)) s + e, b, rmd_S c 10, d))"

definition ref_line :: "((u32 \<Rightarrow> u32 \<Rightarrow> u32 \<Rightarrow> u32) \<times> u32) list \<Rightarrow> (nat \<Rightarrow> (nat \<times> nat) list) \<Rightarrow> u32 list \<Rightarrow> chain \<Rightarrow> chain" where
  "ref_line fks words X st =
     fold (\<lambda>k. fold (ref_step (fst (fks ! k)) (snd (fks ! k)) X) (words k)) [0..<5] st"

definition left_fks :: "((u32 \<Rightarrow> u32 \<Rightarrow> u32 \<Rightarrow> u32) \<times> u32) list" where
  "left_fks = [(F1, 0x00000000), (F2, 0x5A827999), (F3, 0x6ED9EBA1), (F4, 0x8F1BBCDC), (F5, 0xA953FD4E)]"

definition right_fks :: "((u32 \<Rightarrow> u32 \<Rightarrow> u32 \<Rightarrow> u32) \<times> u32) list" where
  "right_fks = [(F5, 0x50A28BE6), (F4, 0x5C4DD124), (F3, 0x6D703EF3), (F2, 0x7A6D76E9), (F1, 0x00000000)]"

definition chain_of :: "u32 list \<Rightarrow> chain" where
  "chain_of st = (st ! 0, st ! 1, st ! 2, st ! 3, st ! 4)"

definition ref_compress :: "u32 list \<Rightarrow> byte list \<Rightarrow> u32 list" where
  "ref_compress h block =
     (let X = map (\<lambda>i. GET_UINT32_LE block (4 * i)) [0..<16]
      in case (ref_line left_fks left_words X (chain_of h), ref_line right_fks right_words X (chain_of h)) of
           ((a, b, c, d, e), (a', b', c', d', e')) \<Rightarrow>
             [h ! 1 + c + d', h ! 2 + d + e', h ! 3 + e + a', h ! 4 + a + b', h ! 0 + b + c'])"

section \<open>The rounds\<close>

text \<open>
  A call of P names the registers; read in that order, they go through one step of the definition, and the
  next call names them rotated.
\<close>

definition rotations :: "(nat \<times> nat \<times> nat \<times> nat \<times> nat) list" where
  "rotations = [(0, 1, 2, 3, 4), (4, 0, 1, 2, 3), (3, 4, 0, 1, 2), (2, 3, 4, 0, 1), (1, 2, 3, 4, 0)]"

definition view :: "nat \<times> nat \<times> nat \<times> nat \<times> nat \<Rightarrow> u32 list \<Rightarrow> chain" where
  "view idx st = (case idx of (a, b, c, d, e) \<Rightarrow> (st ! a, st ! b, st ! c, st ! d, st ! e))"

definition rotate_idx :: "nat \<times> nat \<times> nat \<times> nat \<times> nat \<Rightarrow> nat \<times> nat \<times> nat \<times> nat \<times> nat" where
  "rotate_idx idx = (case idx of (a, b, c, d, e) \<Rightarrow> (e, a, b, c, d))"

lemma rotations_closed: "idx \<in> set rotations \<Longrightarrow> rotate_idx idx \<in> set rotations"
  by (auto simp: rotations_def rotate_idx_def)

lemma length_rmd_P [simp]: "length (rmd_P a b c d e r s f k X st) = length st"
  by (simp add: rmd_P_def Let_def)

lemma view_P:
  assumes "(a, b, c, d, e) \<in> set rotations" "length st = 5"
  shows "view (rotate_idx (a, b, c, d, e)) (rmd_P a b c d e r s f k X st) = ref_step f k X (r, s) (view (a, b, c, d, e) st)"
proof -
  have "a < 5 \<and> b < 5 \<and> c < 5 \<and> d < 5 \<and> e < 5 \<and> a \<noteq> b \<and> a \<noteq> c \<and> a \<noteq> d \<and> a \<noteq> e \<and> b \<noteq> c \<and> c \<noteq> d \<and> c \<noteq> e"
    using assms(1) by (auto simp: rotations_def)
  then show ?thesis
    using assms(2) by (simp add: rmd_P_def Let_def view_def rotate_idx_def ref_step_def)
qed

definition call_idx :: "rmd_call \<Rightarrow> nat \<times> nat \<times> nat \<times> nat \<times> nat" where
  "call_idx call = (case call of (a, b, c, d, e, r, s, rp, sp) \<Rightarrow> (a, b, c, d, e))"

definition call_left :: "rmd_call \<Rightarrow> nat \<times> nat" where
  "call_left call = (case call of (a, b, c, d, e, r, s, rp, sp) \<Rightarrow> (r, s))"

definition call_right :: "rmd_call \<Rightarrow> nat \<times> nat" where
  "call_right call = (case call of (a, b, c, d, e, r, s, rp, sp) \<Rightarrow> (rp, sp))"

fun rotating :: "nat \<times> nat \<times> nat \<times> nat \<times> nat \<Rightarrow> rmd_call list \<Rightarrow> bool" where
  "rotating idx [] = True"
| "rotating idx (call # calls) = (call_idx call = idx \<and> rotating (rotate_idx idx) calls)"

lemma rmd_P2_call [simp]:
  "rmd_P2 F K Fp Kp X (a, b, c, d, e, r, s, rp, sp) (l, p) =
     (rmd_P a b c d e r s F K X l, rmd_P a b c d e rp sp Fp Kp X p)"
  by (simp add: rmd_P2_def)

lemma view_round:
  assumes "rotating idx calls" "idx \<in> set rotations" "length l = 5" "length p = 5"
    "fold (rmd_P2 F K Fp Kp X) calls (l, p) = (l', p')"
  shows "view ((rotate_idx ^^ length calls) idx) l' = fold (ref_step F K X) (map call_left calls) (view idx l) \<and>
    view ((rotate_idx ^^ length calls) idx) p' = fold (ref_step Fp Kp X) (map call_right calls) (view idx p) \<and>
    length l' = 5 \<and> length p' = 5"
  using assms
proof (induction calls arbitrary: idx l p)
  case (Cons call calls)
  obtain a b c d e r s rp sp where call: "call = (a, b, c, d, e, r, s, rp, sp)" by (cases call) auto
  then have idx: "idx = (a, b, c, d, e)" using Cons.prems(1) by (simp add: call_idx_def)
  let ?l = "rmd_P a b c d e r s F K X l" and ?p = "rmd_P a b c d e rp sp Fp Kp X p"
  have v: "view (rotate_idx idx) ?l = ref_step F K X (r, s) (view idx l)" "view (rotate_idx idx) ?p = ref_step Fp Kp X (rp, sp) (view idx p)"
    using view_P Cons.prems(2-4) unfolding idx by simp_all
  have "rotating (rotate_idx idx) calls" "rotate_idx idx \<in> set rotations" "length ?l = 5" "length ?p = 5"
    "fold (rmd_P2 F K Fp Kp X) calls (?l, ?p) = (l', p')"
    using Cons.prems rotations_closed by (simp_all add: call)
  from Cons.IH [OF this] show ?case
    by (simp add: v call call_left_def call_right_def funpow_swap1)
qed simp

lemmas rounds = ROUND_1_def ROUND_2_def ROUND_3_def ROUND_4_def ROUND_5_def

lemma rotating_rounds:
  "rotating (0, 1, 2, 3, 4) ROUND_1" "rotating (4, 0, 1, 2, 3) ROUND_2" "rotating (3, 4, 0, 1, 2) ROUND_3"
  "rotating (2, 3, 4, 0, 1) ROUND_4" "rotating (1, 2, 3, 4, 0) ROUND_5"
  by (simp_all add: rounds call_idx_def rotate_idx_def)

lemma length_rounds: "length ROUND_1 = 16" "length ROUND_2 = 16" "length ROUND_3 = 16" "length ROUND_4 = 16" "length ROUND_5 = 16"
  by (simp_all add: rounds)

lemma left_rounds:
  "map call_left ROUND_1 = left_words 0" "map call_left ROUND_2 = left_words 1" "map call_left ROUND_3 = left_words 2"
  "map call_left ROUND_4 = left_words 3" "map call_left ROUND_5 = left_words 4"
  by code_simp+

lemma right_rounds:
  "map call_right ROUND_1 = right_words 0" "map call_right ROUND_2 = right_words 1" "map call_right ROUND_3 = right_words 2"
  "map call_right ROUND_4 = right_words 3" "map call_right ROUND_5 = right_words 4"
  by code_simp+

lemma rotate_16: "(rotate_idx ^^ 16) (a, b, c, d, e) = (e, a, b, c, d)"
  by (simp add: rotate_idx_def numeral_eq_Suc)

lemma rmd_round:
  fixes F Fp :: "u32 \<Rightarrow> u32 \<Rightarrow> u32 \<Rightarrow> u32" and K Kp :: u32 and X :: "u32 list"
  assumes "rotating (a, b, c, d, e) calls" "(a, b, c, d, e) \<in> set rotations" "length calls = 16"
    "length (fst lines) = 5" "length (snd lines) = 5"
  defines "lines' \<equiv> fold (rmd_P2 F K Fp Kp X) calls lines"
  shows "view (e, a, b, c, d) (fst lines') = fold (ref_step F K X) (map call_left calls) (view (a, b, c, d, e) (fst lines))"
    "view (e, a, b, c, d) (snd lines') = fold (ref_step Fp Kp X) (map call_right calls) (view (a, b, c, d, e) (snd lines))"
    "length (fst lines') = 5" "length (snd lines') = 5"
  using view_round [OF assms(1,2,4,5), of F K Fp Kp X "fst lines'" "snd lines'"] assms(3) rotate_16
  by (auto simp: lines'_def)

text \<open>The compression function of the source is that of the definition.\<close>

lemma process_ref:
  assumes "length st = 5"
  shows "ripemd160_process st data = ref_compress st data"
proof -
  define X where "X = map (\<lambda>i. GET_UINT32_LE data (4 * i)) [0..<16]"
  define l1 where "l1 = fold (rmd_P2 F1 0x00000000 F5 0x50A28BE6 X) ROUND_1 (st, st)"
  define l2 where "l2 = fold (rmd_P2 F2 0x5A827999 F4 0x5C4DD124 X) ROUND_2 l1"
  define l3 where "l3 = fold (rmd_P2 F3 0x6ED9EBA1 F3 0x6D703EF3 X) ROUND_3 l2"
  define l4 where "l4 = fold (rmd_P2 F4 0x8F1BBCDC F2 0x7A6D76E9 X) ROUND_4 l3"
  define l5 where "l5 = fold (rmd_P2 F5 0xA953FD4E F1 0x00000000 X) ROUND_5 l4"
  have mem: "(0, 1, 2, 3, 4) \<in> set rotations" "(4, 0, 1, 2, 3) \<in> set rotations" "(3, 4, 0, 1, 2) \<in> set rotations"
    "(2, 3, 4, 0, 1) \<in> set rotations" "(1, 2, 3, 4, 0) \<in> set rotations" by (simp_all add: rotations_def)
  have st: "length (fst (st, st)) = 5" "length (snd (st, st)) = 5" using assms by simp_all
  note r1 = rmd_round [OF rotating_rounds(1) mem(1) length_rounds(1) st,
    where F = F1 and K = "0" and Fp = F5 and Kp = "0x50A28BE6" and X = X, folded l1_def]
  note r2 = rmd_round [OF rotating_rounds(2) mem(2) length_rounds(2) r1(3,4),
    where F = F2 and K = "0x5A827999" and Fp = F4 and Kp = "0x5C4DD124" and X = X, folded l2_def]
  note r3 = rmd_round [OF rotating_rounds(3) mem(3) length_rounds(3) r2(3,4),
    where F = F3 and K = "0x6ED9EBA1" and Fp = F3 and Kp = "0x6D703EF3" and X = X, folded l3_def]
  note r4 = rmd_round [OF rotating_rounds(4) mem(4) length_rounds(4) r3(3,4),
    where F = F4 and K = "0x8F1BBCDC" and Fp = F2 and Kp = "0x7A6D76E9" and X = X, folded l4_def]
  note r5 = rmd_round [OF rotating_rounds(5) mem(5) length_rounds(5) r4(3,4),
    where F = F5 and K = "0xA953FD4E" and Fp = F1 and Kp = "0" and X = X, folded l5_def]
  have v: "view (0, 1, 2, 3, 4) s = chain_of s" for s by (simp add: view_def chain_of_def)
  have five: "[0..<5] = [0, 1, 2, 3, 4 :: nat]" by (simp add: upt_rec)
  have L: "chain_of (fst l5) = ref_line left_fks left_words X (chain_of st)"
    using r5(1) unfolding v r4(1) r3(1) r2(1) r1(1) left_rounds fst_conv ref_line_def five left_fks_def by (simp add: numeral_eq_Suc)
  have R: "chain_of (snd l5) = ref_line right_fks right_words X (chain_of st)"
    using r5(2) unfolding v r4(2) r3(2) r2(2) r1(2) right_rounds snd_conv ref_line_def five right_fks_def by (simp add: numeral_eq_Suc)
  have "ripemd160_process st data =
    [st ! 1 + fst l5 ! 2 + snd l5 ! 3, st ! 2 + fst l5 ! 3 + snd l5 ! 4, st ! 3 + fst l5 ! 4 + snd l5 ! 0,
     st ! 4 + fst l5 ! 0 + snd l5 ! 1, st ! 0 + fst l5 ! 1 + snd l5 ! 2]"
  proof -
    obtain a b c d e where "st = [a, b, c, d, e]" using assms by (auto simp: length_Suc_conv numeral_eq_Suc)
    then show ?thesis
      unfolding ripemd160_process_def Let_def X_def [symmetric] l1_def [symmetric] l2_def [symmetric] l3_def [symmetric]
        l4_def [symmetric] l5_def [symmetric] by simp
  qed
  then show ?thesis
    unfolding ref_compress_def Let_def X_def [symmetric] L [symmetric] R [symmetric] by (simp add: chain_of_def)
qed

lemma length_ref_compress [simp]: "length (ref_compress h block) = 5"
  by (simp add: ref_compress_def Let_def split: prod.splits)

lemma ref_compress_take: "64 \<le> length block \<Longrightarrow> ref_compress h (take 64 block) = ref_compress h block"
proof -
  assume l: "64 \<le> length block"
  have "map (\<lambda>i. GET_UINT32_LE (take 64 block) (4 * i)) [0..<16] = map (\<lambda>i. GET_UINT32_LE block (4 * i)) [0..<16]"
    by (rule map_cong) (simp_all add: GET_UINT32_LE_def)
  then show ?thesis by (simp only: ref_compress_def)
qed

section \<open>Hashing a message\<close>

function rmd_blocks :: "u32 list \<Rightarrow> byte list \<Rightarrow> u32 list" where
  "rmd_blocks h bs = (if 64 \<le> length bs then rmd_blocks (ref_compress h (take 64 bs)) (drop 64 bs) else h)"
  by pat_completeness auto
termination by (relation "measure (\<lambda>(_, bs). length bs)") auto

declare rmd_blocks.simps [simp del]

definition rmd_pad :: "byte list \<Rightarrow> byte list" where
  "rmd_pad m = m @ [0x80] @ replicate ((119 - length m mod 64) mod 64) 0 @ le_bytes 8 (of_nat (8 * length m) :: u64)"

definition ref_ripemd160 :: "byte list \<Rightarrow> byte list" where
  "ref_ripemd160 m = concat (map (le_bytes 4) (rmd_blocks (rmd_state ripemd160_Init) (rmd_pad m)))"

text \<open>The bytes behind the last whole block.\<close>

definition rmd_rest :: "byte list \<Rightarrow> byte list" where
  "rmd_rest bs = drop (64 * (length bs div 64)) bs"

lemma length_rmd_rest [simp]: "length (rmd_rest bs) = length bs mod 64"
  by (simp add: rmd_rest_def minus_mult_div_eq_mod)

lemma length_rmd_blocks [simp]: "length h = 5 \<Longrightarrow> length (rmd_blocks h bs) = 5"
  by (induction h bs rule: rmd_blocks.induct) (subst rmd_blocks.simps, simp)

lemma rmd_blocks_short: "length bs < 64 \<Longrightarrow> rmd_blocks h bs = h"
  by (subst rmd_blocks.simps) simp

lemma rmd_rest_short: "length bs < 64 \<Longrightarrow> rmd_rest bs = bs"
  by (simp add: rmd_rest_def)

lemma rmd_blocks_step: "length b = 64 \<Longrightarrow> rmd_blocks h (b @ bs) = rmd_blocks (ref_compress h b) bs"
  by (subst rmd_blocks.simps) simp

lemma rmd_rest_step: "length b = 64 \<Longrightarrow> rmd_rest (b @ bs) = rmd_rest bs"
  by (simp add: rmd_rest_def div_add_self1)

lemma block_cases:
  obtains (short) "length bs < 64" | (block) b cs where "bs = b @ cs" "length b = 64"
  by (metis append_take_drop_id length_take linorder_not_less min.absorb2)

lemma rmd_blocks_append:
  "rmd_blocks h (bs @ cs) = rmd_blocks (rmd_blocks h bs) (rmd_rest bs @ cs) \<and> rmd_rest (bs @ cs) = rmd_rest (rmd_rest bs @ cs)"
proof (induction "length bs" arbitrary: bs h rule: less_induct)
  case less
  show ?case
  proof (cases bs rule: block_cases)
    case short
    then show ?thesis by (simp add: rmd_blocks_short rmd_rest_short)
  next
    case (block b ds)
    then show ?thesis using less [of ds] by (simp add: rmd_blocks_step rmd_rest_step)
  qed
qed

lemma blocks_loop_eq:
  "length (rmd_state ctx) = 5 \<Longrightarrow>
     rmd_blocks_loop inp ctx = (rmd_rest inp, ctx\<lparr>rmd_state := rmd_blocks (rmd_state ctx) inp\<rparr>)"
proof (induction "length inp" arbitrary: inp ctx rule: less_induct)
  case less
  show ?case
  proof (cases inp rule: block_cases)
    case short
    then show ?thesis by (subst rmd_blocks_loop.simps) (simp add: rmd_blocks_short rmd_rest_short)
  next
    case (block b ds)
    have "ripemd160_process (rmd_state ctx) inp = ref_compress (rmd_state ctx) b"
      using process_ref [OF less.prems] ref_compress_take [of inp "rmd_state ctx"] block by simp
    then show ?thesis
      using less.hyps [of ds] block less.prems
      by (subst rmd_blocks_loop.simps) (simp add: rmd_blocks_step rmd_rest_step)
  qed
qed

section \<open>The counters\<close>

definition rmd_count :: "RIPEMD160_CTX \<Rightarrow> nat" where
  "rmd_count ctx = unat (rmd_total0 ctx) + 2 ^ 32 * unat (rmd_total1 ctx)"

lemma and_full [simp]: "w AND 0xFFFFFFFF = w" for w :: u32
proof -
  have "(0xFFFFFFFF :: u32) = - 1" by simp
  then show ?thesis by (metis and.right_neutral)
qed

lemma count_add:
  fixes t0 t1 :: u32
  assumes "n < 2 ^ 32"
  defines "t0' \<equiv> t0 + of_nat n"
  defines "t1' \<equiv> (if t0' < of_nat n then t1 + 1 else t1)"
  shows "(unat t0' + 2 ^ 32 * unat t1') mod 2 ^ 64 = (unat t0 + 2 ^ 32 * unat t1 + n) mod 2 ^ 64"
proof -
  have n: "unat (of_nat n :: u32) = n" using assms(1) by (simp add: unat_of_nat)
  have b: "unat t0 < 2 ^ 32" using unsigned_less [of t0] by simp
  have t0': "unat t0' = (unat t0 + n) mod 2 ^ 32" unfolding t0'_def by (simp add: unat_word_ariths n)
  have t1': "unat (t1 + 1) = (unat t1 + 1) mod 2 ^ 32" by (simp add: unat_word_ariths)
  show ?thesis
  proof (cases "unat t0 + n < 2 ^ 32")
    case True
    then have "unat t0' = unat t0 + n" using t0' by simp
    moreover from this have "t1' = t1" using n by (simp add: t1'_def word_less_nat_alt)
    ultimately show ?thesis by (simp add: algebra_simps)
  next
    case False
    then have s: "unat t0' + 2 ^ 32 = unat t0 + n" 
    proof -
      have "unat t0 + n < 2 ^ 32 + 2 ^ 32" using b assms(1) by linarith
      then have "unat t0' = unat t0 + n - 2 ^ 32" using t0' False by (simp add: le_mod_geq)
      then show ?thesis using False by simp
    qed
    then have "unat t0' < n" using b by simp
    then have "t1' = t1 + 1" using n by (simp add: t1'_def word_less_nat_alt)
    then have "(unat t0' + 2 ^ 32 * unat t1') mod 2 ^ 64 = (unat t0' + (2 ^ 32 * (unat t1 + 1)) mod 2 ^ 64) mod 2 ^ 64"
      using mult_mod_right [of "2 ^ 32" "unat t1 + 1" "2 ^ 32"] t1' by (simp add: mod_add_right_eq)
    also have "\<dots> = (unat t0' + 2 ^ 32 + 2 ^ 32 * unat t1) mod 2 ^ 64" by (simp add: mod_add_right_eq add.assoc)
    finally show ?thesis unfolding s by (simp add: algebra_simps)
  qed
qed

section \<open>Feeding a message in pieces\<close>

definition rmd_rel :: "byte list \<Rightarrow> RIPEMD160_CTX \<Rightarrow> bool" where
  "rmd_rel bs ctx \<longleftrightarrow>
     rmd_state ctx = rmd_blocks (rmd_state ripemd160_Init) bs \<and>
     length (rmd_buffer ctx) = 64 \<and> take (length bs mod 64) (rmd_buffer ctx) = rmd_rest bs \<and>
     rmd_count ctx mod 2 ^ 64 = length bs mod 2 ^ 64"

lemma memzero_zeros: "i \<le> len \<Longrightarrow> len \<le> length pnt \<Longrightarrow>
    memzero_loop pnt len i = take i pnt @ replicate (len - i) 0 @ drop len pnt"
proof (induction pnt len i rule: memzero_loop.induct)
  case (1 pnt len i)
  show ?case
  proof (cases "i < len")
    case True
    then have "take (Suc i) (pnt[i := 0]) = take i pnt @ [0]" "len - i = Suc (len - Suc i)"
      using 1 by (simp_all add: take_Suc_conv_app_nth)
    then show ?thesis using 1 True by (subst memzero_loop.simps) simp
  next
    case False
    then have "i = len" using 1 by simp
    then show ?thesis by (subst memzero_loop.simps) simp
  qed
qed

lemma length_init_state [simp]: "length (rmd_state ripemd160_Init) = 5"
  by (simp add: ripemd160_Init_def)

lemma rmd_init_rel: "rmd_rel [] ripemd160_Init"
  by (simp add: rmd_rel_def rmd_blocks_short rmd_rest_short rmd_count_def)
    (simp add: ripemd160_Init_def zero_CTX_def memzero_def memzero_zeros)

lemma rmd_relD:
  assumes "rmd_rel bs ctx"
  shows "rmd_state ctx = rmd_blocks (rmd_state ripemd160_Init) bs" "length (rmd_state ctx) = 5" "length (rmd_buffer ctx) = 64"
    "take (length bs mod 64) (rmd_buffer ctx) = rmd_rest bs" "rmd_count ctx mod 2 ^ 64 = length bs mod 2 ^ 64"
    "unat (rmd_total0 ctx AND 0x3F) = length bs mod 64"
proof -
  show c: "rmd_count ctx mod 2 ^ 64 = length bs mod 2 ^ 64" and "rmd_state ctx = rmd_blocks (rmd_state ripemd160_Init) bs"
    and "length (rmd_state ctx) = 5" and "length (rmd_buffer ctx) = 64" and "take (length bs mod 64) (rmd_buffer ctx) = rmd_rest bs"
    using assms by (simp_all add: rmd_rel_def)
  have "unat (rmd_total0 ctx AND 0x3F) = unat (rmd_total0 ctx) AND 0x3F" by (simp add: unsigned_and_eq)
  also have "\<dots> = take_bit 6 (unat (rmd_total0 ctx))" by (simp add: take_bit_eq_mask mask_eq_exp_minus_1)
  also have "\<dots> = unat (rmd_total0 ctx) mod 64" by (simp add: take_bit_eq_mod)
  also have "\<dots> = (unat (rmd_total0 ctx) + 64 * (67108864 * unat (rmd_total1 ctx))) mod 64" by (simp only: mod_mult_self2)
  also have "\<dots> = rmd_count ctx mod 2 ^ 64 mod 64" by (simp add: rmd_count_def mod_mod_cancel)
  also have "\<dots> = length bs mod 64" unfolding c by (simp add: mod_mod_cancel)
  finally show "unat (rmd_total0 ctx AND 0x3F) = length bs mod 64" .
qed

lemma overlay_first: "length b = 64 \<Longrightarrow> length r < 64 \<Longrightarrow> length (overlay 0 r b) = 64 \<and> take (length r) (overlay 0 r b) = r"
  by (simp add: overlay_def)

text \<open>An update without the counters, from the buffer's content.\<close>

lemma update_parts:
  assumes rel: "rmd_rel bs ctx" and inp: "inp \<noteq> []"
  defines "ctx' \<equiv> ripemd160_Update inp ctx"
  shows "rmd_state ctx' = rmd_blocks (rmd_state ripemd160_Init) (bs @ inp) \<and> length (rmd_buffer ctx') = 64 \<and>
    take (length (bs @ inp) mod 64) (rmd_buffer ctx') = rmd_rest (bs @ inp)"
proof -
  note r = rmd_relD [OF rel]
  let ?left = "length bs mod 64"
  let ?B = "rmd_rest bs"
  have app: "rmd_blocks (rmd_state ripemd160_Init) (bs @ inp) = rmd_blocks (rmd_state ctx) (?B @ inp)" "rmd_rest (bs @ inp) = rmd_rest (?B @ inp)"
    using rmd_blocks_append [of "rmd_state ripemd160_Init" bs inp] r(1) by simp_all
  have len: "length (bs @ inp) mod 64 = length (rmd_rest (?B @ inp))" using app(2) by (metis length_rmd_rest)
  have left: "?left < 64" by simp
  show ?thesis
  proof (cases "?left \<noteq> 0 \<and> length inp \<ge> 64 - ?left")
    case True
    let ?fill = "64 - ?left"
    let ?b = "?B @ take ?fill inp"
    have lb: "length ?b = 64" using True by simp
    have split: "?B @ inp = ?b @ drop ?fill inp" by simp
    have buf: "overlay ?left (take ?fill inp) (rmd_buffer ctx) = ?b"
      using r(3,4) True by (simp add: overlay_def)
    have proc: "ripemd160_process (rmd_state ctx) ?b = ref_compress (rmd_state ctx) ?b" by (rule process_ref [OF r(2)])
    have "rmd_state ctx' = rmd_blocks (ref_compress (rmd_state ctx) ?b) (drop ?fill inp) \<and>
      rmd_buffer ctx' = overlay 0 (rmd_rest (drop ?fill inp)) ?b"
      using inp True by (simp add: ctx'_def ripemd160_Update_def Let_def r(6) buf proc blocks_loop_eq) (simp add: overlay_def)
    moreover have "rmd_blocks (rmd_state ctx) (?B @ inp) = rmd_blocks (ref_compress (rmd_state ctx) ?b) (drop ?fill inp)"
      "rmd_rest (?B @ inp) = rmd_rest (drop ?fill inp)"
      unfolding split by (rule rmd_blocks_step [OF lb], rule rmd_rest_step [OF lb])
    moreover have "length (rmd_rest (drop ?fill inp)) < 64" by simp
    ultimately show ?thesis unfolding app len using overlay_first [OF lb, of "rmd_rest (drop ?fill inp)"] by simp
  next
    case False
    have loop: "rmd_state ctx' = rmd_blocks (rmd_state ctx) inp \<and>
      rmd_buffer ctx' = (if rmd_rest inp \<noteq> [] then overlay ?left (rmd_rest inp) (rmd_buffer ctx) else rmd_buffer ctx)"
      unfolding ctx'_def ripemd160_Update_def Let_def r(6) if_not_P [OF False] using inp r(2) by (simp add: blocks_loop_eq)
    show ?thesis
    proof (cases "?left = 0")
      case True
      then have B: "?B = []" using length_rmd_rest [of bs] by (metis length_0_conv)
      have "length (rmd_rest inp) < 64" by simp
      then show ?thesis unfolding app len B using loop True r(3) by (auto simp: overlay_def simp del: length_rmd_rest)
    next
      case ne: False
      then have "length (?B @ inp) < 64" "length inp < 64" using False by simp_all
      moreover have "take ?left (rmd_buffer ctx) = ?B" by (rule r(4))
      ultimately show ?thesis unfolding app len using loop inp r(3) False ne
        by (simp add: rmd_blocks_short rmd_rest_short overlay_def)
    qed
  qed
qed

lemma update_count:
  assumes "rmd_rel bs ctx" "length inp < 2 ^ 32" "inp \<noteq> []"
  shows "rmd_count (ripemd160_Update inp ctx) mod 2 ^ 64 = length (bs @ inp) mod 2 ^ 64"
proof -
  let ?t0 = "rmd_total0 ctx + of_nat (length inp)"
  note r = rmd_relD [OF assms(1)]
  have "rmd_total0 (ripemd160_Update inp ctx) = ?t0 \<and>
    rmd_total1 (ripemd160_Update inp ctx) = (if ?t0 < of_nat (length inp) then rmd_total1 ctx + 1 else rmd_total1 ctx)"
    using assms(3) r(2) by (simp add: ripemd160_Update_def Let_def blocks_loop_eq process_ref)
  then have "rmd_count (ripemd160_Update inp ctx) mod 2 ^ 64 = (rmd_count ctx + length inp) mod 2 ^ 64"
    using count_add [OF assms(2), of "rmd_total0 ctx" "rmd_total1 ctx"] by (simp add: rmd_count_def)
  also have "\<dots> = (length bs + length inp) mod 2 ^ 64" using r(5) by (metis mod_add_left_eq)
  finally show ?thesis by simp
qed

lemma update_rmd_rel: "rmd_rel bs ctx \<Longrightarrow> length inp < 2 ^ 32 \<Longrightarrow> rmd_rel (bs @ inp) (ripemd160_Update inp ctx)"
proof (cases "inp = []")
  case False
  assume "rmd_rel bs ctx" "length inp < 2 ^ 32"
  then show ?thesis
    using update_parts [OF _ False, of bs ctx] update_count [OF _ _ False, of bs ctx] unfolding rmd_rel_def [of "bs @ inp"] by blast
qed (simp add: ripemd160_Update_def)

lemma updates_rmd_rel:
  "rmd_rel bs ctx \<Longrightarrow> \<forall>p \<in> set parts. length p < 2 ^ 32 \<Longrightarrow> rmd_rel (bs @ concat parts) (fold ripemd160_Update parts ctx)"
proof (induction parts arbitrary: bs ctx)
  case (Cons p parts)
  have "rmd_rel (bs @ p) (ripemd160_Update p ctx)" using update_rmd_rel Cons.prems by simp
  from Cons.IH [OF this] show ?case using Cons.prems(2) by simp
qed simp

section \<open>The final block\<close>

lemma ucast_and_255: "ucast (w AND 0xFF) = (ucast w :: byte)" for w :: u32
proof -
  have m: "(0xFF :: u32) = mask 8" by (simp add: mask_eq_exp_minus_1)
  show ?thesis unfolding m by (intro bit_eqI) (auto simp: bit_simps)
qed

lemma PUT_le_bytes: "PUT_UINT32_LE w = le_bytes 4 w"
proof -
  have "[0..<4] = [0, 1, 2, 3 :: nat]" by (simp add: upt_rec)
  then show ?thesis by (simp add: PUT_UINT32_LE_def le_bytes_def ucast_and_255)
qed

lemma le_bytes_split: "le_bytes 8 w = le_bytes 4 (ucast w :: u32) @ le_bytes 4 (ucast (drop_bit 32 w) :: u32)" for w :: u64
proof -
  have "[0..<8] = [0, 1, 2, 3, 4, 5, 6, 7 :: nat]" "[0..<4] = [0, 1, 2, 3 :: nat]" by (simp_all add: upt_rec)
  moreover have "ucast (drop_bit k w) = (ucast (drop_bit k (ucast w :: u32)) :: byte)" if "k + 8 \<le> 32" for k
    using that by (intro bit_eqI) (simp add: bit_simps)
  ultimately show ?thesis
    by (simp add: le_bytes_def) (intro conjI bit_eqI; simp add: bit_simps)
qed

text \<open>The length in bits, as two words.\<close>

lemma msglen_bytes:
  fixes t0 t1 :: u32
  shows "PUT_UINT32_LE (push_bit 3 t0) @ PUT_UINT32_LE (drop_bit 29 t0 OR push_bit 3 t1) =
    le_bytes 8 (of_nat (8 * (unat t0 + 2 ^ 32 * unat t1)) :: u64)"
proof -
  let ?w = "ucast t0 OR push_bit 32 (ucast t1) :: u64"
  have "ucast t0 AND push_bit 32 (ucast t1) = (0 :: u64)" by (rule bit_eqI) (auto simp: bit_simps dest: bit_imp_le_length)
  then have "?w = ucast t0 + push_bit 32 (ucast t1)" by (simp add: disjunctive_add_eq_or)
  also have "\<dots> = of_nat (unat t0 + 2 ^ 32 * unat t1)" by (simp add: push_bit_eq_mult mult.commute)
  finally have w: "of_nat (8 * (unat t0 + 2 ^ 32 * unat t1)) = push_bit 3 ?w"
    by (simp add: push_bit_eq_mult mult.commute)
  have "ucast (push_bit 3 ?w) = push_bit 3 t0" "ucast (drop_bit 32 (push_bit 3 ?w)) = (drop_bit 29 t0 OR push_bit 3 t1 :: u32)"
    by (rule bit_eqI, auto simp: bit_simps)+
  then show ?thesis unfolding w le_bytes_split PUT_le_bytes by simp
qed

lemma of_nat_mod_64: "of_nat (8 * n) = (of_nat (8 * m) :: u64)" if "n mod 2 ^ 64 = m mod 2 ^ 64"
proof -
  have "(of_nat n :: u64) = of_nat m" using that by (simp add: word_of_nat_eq_iff take_bit_eq_mod)
  then show ?thesis by simp
qed

lemma pad_zeros: "r < 64 \<Longrightarrow> (if r < 56 then 56 - r else 120 - r) = Suc ((119 - r) mod 64)" for r :: nat
proof (cases "r < 56")
  case True
  then have "119 - r = 64 + (55 - r)" by simp
  then have "(119 - r) mod 64 = 55 - r" by (simp only: mod_add_self1) simp
  then show ?thesis using True by simp
qed simp

lemma five_words:
  assumes "length ws = 5"
  obtains a b c d e where "ws = [a, b, c, d, e]"
  using assms by (auto simp: length_Suc_conv numeral_eq_Suc)

lemma final_ref:
  assumes rel: "rmd_rel bs ctx"
  shows "ripemd160_Final ctx = (zero_CTX, ref_ripemd160 bs)"
proof -
  note r = rmd_relD [OF rel]
  let ?last = "length bs mod 64"
  define padn where "padn = (if ?last < 56 then 56 - ?last else 120 - ?last)"
  let ?pad = "take padn ripemd160_padding"
  let ?len = "PUT_UINT32_LE (push_bit 3 (rmd_total0 ctx)) @ PUT_UINT32_LE (drop_bit 29 (rmd_total0 ctx) OR push_bit 3 (rmd_total1 ctx))"
  have "?last < 64" by simp
  then have padn: "padn = Suc ((119 - ?last) mod 64)" unfolding padn_def by (rule pad_zeros)
  have "(119 - ?last) mod 64 \<le> 63" using mod_less_divisor [of 64 "119 - ?last"] by linarith
  then have pad: "?pad = [0x80] @ replicate ((119 - ?last) mod 64) 0"
    unfolding padn by (simp add: ripemd160_padding_def min_def)
  have len: "?len = le_bytes 8 (of_nat (8 * length bs) :: u64)"
    unfolding msglen_bytes using of_nat_mod_64 [OF r(5)] by (simp add: rmd_count_def)
  have "length ?pad < 2 ^ 32" "length ?len < 2 ^ 32" by (simp_all add: PUT_UINT32_LE_def ripemd160_padding_def)
  then have fin: "rmd_rel ((bs @ ?pad) @ ?len) (ripemd160_Update ?len (ripemd160_Update ?pad ctx))"
    using update_rmd_rel rel by blast
  have "(bs @ ?pad) @ ?len = rmd_pad bs" by (simp only: pad len rmd_pad_def append_assoc)
  then have st: "rmd_state (ripemd160_Update ?len (ripemd160_Update ?pad ctx)) = rmd_blocks (rmd_state ripemd160_Init) (rmd_pad bs)"
    "length (rmd_blocks (rmd_state ripemd160_Init) (rmd_pad bs)) = 5"
    using rmd_relD(1) [OF fin] by simp_all
  obtain a b c d e where five: "rmd_blocks (rmd_state ripemd160_Init) (rmd_pad bs) = [a, b, c, d, e]"
    by (rule five_words [OF st(2)])
  show ?thesis
    unfolding ripemd160_Final_def Let_def r(6) padn_def [symmetric] st(1) ref_ripemd160_def five
    by (simp add: PUT_le_bytes)
qed

section \<open>Properties\<close>

text \<open>
  The compression function, whose 160 steps the source writes out, is the one of the definition of
  RIPEMD-160: the message words follow the permutations rho and pi, the shifts depend on round and word.
\<close>

lemma rmd_process_is_definition:
  assumes "length st = 5"
  shows "ripemd160_process st data = ref_compress st data"
  by (rule process_ref [OF assms])

lemma rmd_process_is_definition_witness:
  "ripemd160_process [1, 2, 3, 4, 5] (replicate 64 7) = ref_compress [1, 2, 3, 4, 5] (replicate 64 7)"
  using rmd_process_is_definition [of "[1, 2, 3, 4, 5]" "replicate 64 7"] by simp

text \<open>
  C30. RIPEMD-160 of a message in pieces: any sequence of updates of less than 2^32 bytes each and the final
  step give the 20-byte hash of the whole padded message, the length taken modulo 2^61 bytes across the two
  counter words, and wipe the context.
\<close>

theorem ripemd160_hashes_padded_message:
  assumes "\<forall>p \<in> set parts. length p < 2 ^ 32"
  shows "ripemd160_Final (fold ripemd160_Update parts ripemd160_Init) = (zero_CTX, ref_ripemd160 (concat parts)) \<and>
    length (ref_ripemd160 (concat parts)) = 20"
proof -
  have len: "length (concat (map (le_bytes 4) ws)) = 4 * length ws" for ws :: "u32 list"
    by (induction ws) simp_all
  show ?thesis
    using final_ref [OF updates_rmd_rel [OF rmd_init_rel assms]] by (simp add: ref_ripemd160_def len)
qed

theorem ripemd160_hashes_padded_message_witness:
  "snd (ripemd160_Final (fold ripemd160_Update [[97], replicate 63 98, [99]] ripemd160_Init)) =
    ref_ripemd160 ([97] @ replicate 63 98 @ [99])"
  using ripemd160_hashes_padded_message [of "[[97], replicate 63 98, [99]]"] by simp

end
