(* ===== verification/Base58_Check.thy ===== *)
theory Base58_Check
  imports Base58_Correct Ripemd160_Correct
begin

text \<open>
  The checked text form of external/base58/base58.c, which options.h switches on with \<open>USE_GRAPHENE\<close>: the
  bytes are followed by the first four bytes of their RIPEMD-160 hash, and both are encoded in base 58.
\<close>

section \<open>The code\<close>

definition checksum :: "byte list \<Rightarrow> byte list" where
  "checksum bs = take 4 (ripemd160 bs)"

text \<open>
  The loop that counts the zeros, and the test after it. The text ends with a null character; the bytes end
  without one, and reading on would be outside of the array.
\<close>

fun check_zeros :: "byte list \<Rightarrow> string \<Rightarrow> bool result" where
  "check_zeros [] str = Inl (Undefined ''binc index'')"
| "check_zeros (b # bs) [] = Inr (b \<noteq> 0)"
| "check_zeros (b # bs) (ch # str) =
     (if b = 0 \<and> ch = CHR ''1'' then check_zeros bs str else Inr (\<not> (b = 0 \<or> ch = CHR ''1'')))"

definition b58gphcheck :: "byte list \<Rightarrow> string \<Rightarrow> int result" where
  "b58gphcheck bin base58str =
     (let binsz = length bin
      in if binsz < 4 then Inr (- 4)
         else if drop (binsz - 4) bin \<noteq> checksum (take (binsz - 4) bin) then Inr (- 1)
         else bind_result (check_zeros bin base58str)
                (\<lambda>ok. Inr (if ok then int (unat (bin ! 0)) else - 3)))"

text \<open>The text, or \<open>None\<close> for the result 0.\<close>

definition base58gph_encode_check :: "byte list \<Rightarrow> nat \<Rightarrow> string option result" where
  "base58gph_encode_check bs strsize =
     (if length bs > 128 then Inr None
      else bind_result (b58enc strsize (bs @ checksum bs))
             (\<lambda>r. case r of Inl _ \<Rightarrow> Inr None | Inr str \<Rightarrow> Inr (Some str)))"

text \<open>The bytes, or \<open>None\<close> for the result 0. \<open>d + datalen + 4 - res\<close> is before the array when \<open>res\<close> is larger.\<close>

definition base58gph_decode_check :: "string \<Rightarrow> nat \<Rightarrow> byte list option result" where
  "base58gph_decode_check str datalen =
     (if datalen > 128 then Inr None
      else case b58tobin (datalen + 4) str of
             None \<Rightarrow> Inr None
           | Some (d, res) \<Rightarrow>
               if res > datalen + 4 then Inl (Undefined ''pointer before the array'')
               else let nd = drop (datalen + 4 - res) d
                    in bind_result (b58gphcheck nd str)
                         (\<lambda>r. Inr (if r < 0 then None else Some (take (res - 4) nd))))"

section \<open>Round trip\<close>

lemma length_checksum:
  assumes "length bs < 2 ^ 32"
  shows "length (checksum bs) = 4"
proof -
  have "length (concat (map (le_bytes 4) ws)) = 4 * length ws" for ws :: "u32 list"
    by (induction ws) simp_all
  then have "length (ripemd160 bs) = 20"
    using final_ref [OF updates_rmd_rel [OF rmd_init_rel, of "[bs]"]] assms by (simp add: ripemd160_def ref_ripemd160_def)
  then show ?thesis by (simp add: checksum_def)
qed

text \<open>The text of the encoder passes the test of the zeros unless all bytes are 0.\<close>

lemma check_zeros_digits:
  assumes "\<exists>b\<in>set bin. b \<noteq> 0" "ds \<noteq> [] \<longrightarrow> hd ds \<noteq> 0" "\<forall>d\<in>set ds. d < 58"
  shows "check_zeros bin (replicate (length (takeWhile (\<lambda>b. b = 0) bin)) (CHR ''1'') @ map (\<lambda>d. b58digits_ordered ! d) ds) = Inr True"
  using assms(1)
proof (induction bin)
  case (Cons b bin)
  then show ?case using assms(2,3) digit_tables by (cases "b = 0"; cases ds) auto
qed simp

lemma checked_roundtrip:
  assumes "length bs \<le> n" "n \<le> 128" "(length bs + 4) * 138 div 100 + 1 < strsize" "\<exists>b\<in>set (bs @ checksum bs). b \<noteq> 0"
  shows "\<exists>str. base58gph_encode_check bs strsize = Inr (Some str) \<and> base58gph_decode_check str n = Inr (Some bs)"
proof -
  let ?bin = "bs @ checksum bs" and ?z = "length (takeWhile (\<lambda>b. b = 0) (bs @ checksum bs))"
  have c: "length (checksum bs) = 4" by (rule length_checksum) (use assms(1,2) in simp)
  then obtain ds where ds: "b58enc strsize ?bin = Inr (Inr (replicate ?z (CHR ''1'') @ map (\<lambda>d. b58digits_ordered ! d) ds))"
    "horner 58 ds = bytes_value ?bin" "\<forall>d\<in>set ds. d < 58" "ds \<noteq> [] \<longrightarrow> hd ds \<noteq> 0"
    using b58enc_correct [of ?bin strsize] assms(3) by auto
  let ?str = "replicate ?z (CHR ''1'') @ map (\<lambda>d. b58digits_ordered ! d) ds"
  have "b58tobin (n + 4) ?str = Some (zeros (n - length bs) @ ?bin, length bs + 4)"
    using b58tobin_digits [OF _ ds(3,4) _ refl ds(2), of "n + 4"] assms(1) c by simp
  moreover have "b58gphcheck ?bin ?str = Inr (int (unat (?bin ! 0)))"
    using check_zeros_digits [OF assms(4) ds(4,3)] c by (simp add: b58gphcheck_def Let_def)
  moreover have "base58gph_encode_check bs strsize = Inr (Some ?str)"
    using ds(1) assms(1,2) by (simp add: base58gph_encode_check_def)
  ultimately show ?thesis
    using assms(1,2) c by (auto simp: base58gph_decode_check_def zeros_def Let_def)
qed

text \<open>Only bytes followed by their checksum are accepted.\<close>

lemma checked_bytes_have_checksum:
  assumes "base58gph_decode_check str n = Inr (Some bs)"
  shows "\<exists>d. b58tobin (n + 4) str = Some (d, length bs + 4) \<and> drop (n - length bs) d = bs @ checksum bs"
proof -
  obtain d res where d: "b58tobin (n + 4) str = Some (d, res)" "res \<le> n + 4"
    using assms by (auto simp: base58gph_decode_check_def Let_def split: if_splits option.splits)
  define nd where "nd = drop (n + 4 - res) d"
  from assms d obtain r where r: "b58gphcheck nd str = Inr r" "0 \<le> r" "bs = take (res - 4) nd"
    unfolding base58gph_decode_check_def nd_def [symmetric] Let_def
    by (cases "b58gphcheck nd str") (auto simp: nd_def split: if_splits)
  have len: "length nd = res" using length_b58tobin [OF d(1)] d(2) by (simp add: nd_def)
  have c: "4 \<le> res" "drop (res - 4) nd = checksum (take (res - 4) nd)"
    using r(1,2) by (auto simp: b58gphcheck_def Let_def len split: if_splits)
  have "nd = bs @ checksum bs" unfolding r(3) c(2) [symmetric] by simp
  moreover have "length bs + 4 = res" "n + 4 - res = n - length bs" using c(1) r(3) len d(2) by simp_all
  ultimately show ?thesis using d(1) by (auto simp: nd_def)
qed

text \<open>
  More characters \<open>1\<close> than the output has bytes count as leading zeros, so the decoder computes a pointer before
  its array.
\<close>

lemma leading_ones_leave_array:
  "base58gph_decode_check (replicate 9 (CHR ''1'')) 4 = Inl (Undefined ''pointer before the array'')"
  by code_simp

end
