(* ===== verification/Spec2Isabelle.thy ===== *)
theory Spec2Isabelle
  imports Mining Persistence Client_Correct Validator_Correct ThreadPool Server_Start Dsc_Correct
  Blake3_Example Base58_Check
begin

text \<open>
  Verification of DataSys Coin (MEMO-coin), a blockchain whose nodes are C++ programs that exchange
  messages over ZeroMQ.

  \<^bold>\<open>The program.\<close> Wallets (src/wallet.cpp, the commands in src/dsc.cpp) sign transactions and post
  them to the transaction pool (src/tx_pool.cpp). Validators (src/validator.cpp) poll the blockchain node
  (src/blockchain.cpp) for its last header, search a hash for it by proof of work (src/pow.cpp) or
  proof of memory (src/pom.cpp), pop transactions from the pool and submit a block to the metronome
  (src/metronome.cpp). The metronome lets the first block with the next id through to the blockchain node,
  adjusts the difficulty, and submits an empty block when a block time passes without one. The blockchain
  node books the block in its ledger, writes its chain file and has the pool confirm the block. The monitor
  (src/monitor.cpp) only asks. Every node but the wallet and the monitor runs a server (src/server.cpp) on
  a thread pool (src/thread_pool.cpp); settings and keys are in YAML files (src/config.cpp). The vendored
  libraries under external/ are the hash BLAKE3 and the base-58 codec with its RIPEMD-160.

  \<^bold>\<open>Conventions.\<close> A class is a record of its members, a method a function that returns the new
  record. An exception is \<open>Inl\<close> of an error, a normal result \<open>Inr\<close>. A w-bit unsigned integer is a word, so
  arithmetic wraps as in C++; a byte array is a list of bytes, and its length is a predicate where it
  matters. A handler is the whole code between the receipt of a request and its reply. Code under a mutex is
  one step; where a component gives a mutex up, its model is a relation of steps. What is not in the
  C++ files (alpaca, yaml-cpp, OpenSSL, clocks, random bytes, cpuid, the assembly code) is an argument,
  and what the code relies on is a named hypothesis (\<open>faithful\<close>, \<open>yaml_laws\<close>, \<open>key_pair\<close>, \<open>simd_kernels\<close>)
  with an instance in \<open>Samples\<close>, \<open>Codec\<close>, \<open>BlockChain_Properties\<close> or \<open>Blake3_Kernels\<close> that satisfies it.

  \<^bold>\<open>Theories and sources.\<close>
  \<^item> \<open>Prelude\<close>: word types, errors, byte views of integers, collections of facts.
  \<^item> \<open>Chain_Types\<close>: the structures of defs.hpp, transaction.hpp, block.hpp, messages.hpp, consensus.hpp, wallet.hpp.
  \<^item> \<open>Containers\<close>: \<open>unordered_set\<close> and \<open>unordered_map\<close> as locales, interpreted on lists.
  \<^item> \<open>Messages\<close>, \<open>Keys\<close>, \<open>Yaml\<close>: messages.cpp, keys.cpp and transaction.cpp, the document library.
  \<^item> \<open>Server\<close>: \<open>server_loop\<close>; a component's handler is a \<open>message_server\<close> when it keeps an invariant, an
    \<open>answering_server\<close> when it answers each request it knows; pool, blockchain and metronome interpret both.
  \<^item> \<open>ThreadPool\<close>: the worker threads, the condition variable and the destructor as a step relation.
  \<^item> \<open>TxPool\<close>, \<open>TxPool_Correct\<close>: the handlers of tx_pool.cpp, their two invariants and conservation.
  \<^item> \<open>BlockChain\<close>, \<open>BlockChain_Correct\<close>, \<open>BlockChain_Properties\<close>, \<open>Persistence\<close>: blockchain.cpp, the
    balances, the ledger as replay of the blocks, the chain file.
  \<^item> \<open>Metronome\<close>, \<open>Metronome_Correct\<close>: metronome.cpp, its handlers interleaved with its main loop.
  \<^item> \<open>Consensus\<close>, \<open>ProofOfWork\<close>, \<open>ProofOfMemory\<close>: consensus.hpp as a locale, pow.cpp, pom.cpp.
  \<^item> \<open>Config\<close>, \<open>Client\<close>, \<open>Validator\<close> and their \<open>_Correct\<close> theories: config.cpp, the commands of dsc.cpp with
    wallet.cpp and monitor.cpp, validator.cpp. \<open>Console\<close>: the printed texts (display functions of transaction.cpp,
    block.cpp, wallet.cpp). \<open>Dsc\<close>, \<open>Dsc_Correct\<close>: \<open>main\<close> and what its command lines do to files and terminal.
  \<^item> \<open>Transactions\<close>: signing and verification. \<open>Network\<close>, \<open>Network_Properties\<close>: the nodes together;
    \<open>Mining\<close>: rounds of honest mining on them.
  \<^item> \<open>Server_Start\<close>, \<open>Startup\<close>: \<open>Server::start\<close> and the \<open>run_\<close> functions of dsc.cpp.
  \<^item> \<open>Base58\<close>, \<open>Base58_Correct\<close>, \<open>Ripemd160\<close>, \<open>Ripemd160_Correct\<close>: external/base58; \<open>Base58_Check\<close>: its text form
    with a checksum, which options.h switches off.
  \<^item> \<open>Blake3_Compress\<close> (portable kernels), \<open>Blake3\<close> (blake3.c), \<open>Blake3_Dispatch\<close> (blake3_dispatch.c);
    \<open>Blake3_Chunk\<close>, \<open>Blake3_Tree\<close>, \<open>Blake3_Stack\<close>, \<open>Blake3_Hasher\<close>, \<open>Blake3_Output\<close> and \<open>Blake3_Properties\<close>
    relate the incremental hasher to the recursive definition of the hash tree; \<open>Blake3_Example\<close>: example.c.
  \<^item> \<open>Intrinsics\<close> (vector instructions), \<open>Blake3_Rows\<close> (compression on rows), \<open>Blake3_Lanes\<close> (one input per lane),
    \<open>Blake3_Counters\<close>, \<open>Blake3_Vectors\<close> (counters, loads and transpositions), \<open>Blake3_SSE\<close>, \<open>Blake3_AVX2\<close>,
    \<open>Blake3_AVX512\<close>, \<open>Blake3_NEON\<close>: the kernels of blake3_sse2.c to blake3_neon.c. The text the files share is one
    definition over the functions in which they differ; \<open>row_kernel\<close> and \<open>lane_kernel\<close> are what these have to
    satisfy, interpreted on every file. \<open>Blake3_Kernels\<close>: the kernels behind the dispatcher.

  \<^bold>\<open>What is proved.\<close> An accepted transaction is never lost, never queued more often than it was accepted and
  never reported as unknown, blocks have consecutive ids, and the ledger is the replay of the chain, in every
  run of the composed network, also when transactions are posted repeatedly; the chain file of a node that
  started without one restores its ledger if block ids differ and transaction ids fit 32 bits; enough rounds
  of honest mining confirm every accepted transaction; the two hash sets of the pool are those of its queues
  as long as no key is posted twice; a signature is accepted only for the fields and the padding bytes that
  were signed; mined blocks verify; the search of proof of work returns under a condition on the clock, and
  the one of proof of memory finds a hash at difficulties of whole bytes only; the hasher refines the tree
  hash for messages below 2^64 bytes with any kernels that satisfy their contract, as all vector kernels
  in C do; RIPEMD-160 in pieces is RIPEMD-160 of the padded message; bytes of every length survive base 58,
  codecs and files round-trip; before a node serves, a command line changes only files it names, and a
  blockchain node then changes only its chain file; the printed keys and transactions
  determine what is printed, and the monitor prints the state of the nodes. Where the code does not do what
  it means to, the theorem states what it does (\<open>binary_search_misses_solution\<close>, \<open>destructor_can_hang\<close>,
  \<open>stored_block_read_back\<close>, \<open>failed_send_multi_reuses_ids\<close>, \<open>block_at_deadline_counts_as_missed\<close>).

  \<^bold>\<open>Bounds and loops.\<close> No definition uses fuel. Loops with a measure are functions with a termination
  proof; the search of proof of work and the endless rounds of the validator are partial functions into
  options or sequences of rounds, and \<open>pow_search_returns\<close> states when the search returns. The difficulty is
  bounded for runs of fewer than 2^32 - 21 events, the messages of BLAKE3 by 2^64 bytes (its 64-bit chunk
  counter and stack of 55 values), one RIPEMD-160 update by its 32-bit length.

  \<^bold>\<open>Not modelled.\<close> Sockets and the proxy of \<open>Server::start\<close>, the log lines that the servers and searches
  print, the buffering of the output stream, the generation of keys inside OpenSSL, the data races of the queries
  that take no lock, the options of the base-58 library, scripts and analysis. The Makefile links
  the assembly versions of the vector kernels, which stay behind the contract \<open>simd_kernels\<close>; the C versions
  are modelled and shown to satisfy it.
\<close>

end
